(* ===== verification/Prelude.thy ===== *)
theory Prelude
  imports Main "HOL-Library.Word" "HOL-Library.Char_ord" "HOL-Library.List_Lexorder"
    "HOL-Library.Product_Lexorder" "HOL-Library.Sublist"
begin

text \<open>
  Shared vocabulary of the development.

  \<^item> A Rust \<open>str\<close> or \<open>String\<close> is the list of its UTF-8 bytes, a HOL \<open>string\<close> whose
    characters are bytes. Lengths and slices are then Rust's byte lengths and byte slices, and
    the byte order of the HOL lists is Rust's \<open>str::cmp\<close>.
  \<^item> \<open>ordering\<close> is \<open>std::cmp::Ordering\<close>, with \<open>then\<close> and \<open>cmp\<close>.
  \<^item> The string operations of the standard library the components call: \<open>split\<close>,
    \<open>split_once\<close>, \<open>trim\<close>, \<open>split_ascii_whitespace\<close>, \<open>starts_with\<close>, \<open>parse::<u32>\<close>.
  \<^item> The lemma collections \<open>rust_str\<close> (string operations) and \<open>cmp_simps\<close> (orderings).
\<close>

named_theorems rust_str
named_theorems cmp_simps

type_synonym u32 = "32 word"
type_synonym rstr = string

section \<open>Orderings\<close>

datatype ordering = Less | Equal | Greater

definition cmp :: "'a::linorder \<Rightarrow> 'a \<Rightarrow> ordering" where
  "cmp a b = (if a < b then Less else if a = b then Equal else Greater)"

fun then_cmp :: "ordering \<Rightarrow> ordering \<Rightarrow> ordering" where
  "then_cmp Equal r = r"
| "then_cmp l r = l"

fun reverse_ordering :: "ordering \<Rightarrow> ordering" where
  "reverse_ordering Less = Greater"
| "reverse_ordering Equal = Equal"
| "reverse_ordering Greater = Less"

lemma cmp_Equal [cmp_simps, simp]: "cmp a b = Equal \<longleftrightarrow> a = b"
  by (simp add: cmp_def)

lemma cmp_Less [cmp_simps, simp]: "cmp a b = Less \<longleftrightarrow> a < b"
  by (simp add: cmp_def)

lemma cmp_Greater [cmp_simps, simp]: "cmp a b = Greater \<longleftrightarrow> b < a"
  by (auto simp: cmp_def)

lemma cmp_refl [cmp_simps, simp]: "cmp a a = Equal"
  by simp

lemma cmp_reverse [cmp_simps]: "reverse_ordering (cmp a b) = cmp b a"
  by (auto simp: cmp_def)

lemma then_cmp_Less [cmp_simps, simp]: "then_cmp l r = Less \<longleftrightarrow> l = Less \<or> l = Equal \<and> r = Less"
  by (cases l) auto

lemma then_cmp_Equal [cmp_simps, simp]: "then_cmp l r = Equal \<longleftrightarrow> l = Equal \<and> r = Equal"
  by (cases l) auto

lemma then_cmp_Greater [cmp_simps, simp]:
  "then_cmp l r = Greater \<longleftrightarrow> l = Greater \<or> l = Equal \<and> r = Greater"
  by (cases l) auto

lemma reverse_then_cmp [cmp_simps]:
  "reverse_ordering (then_cmp l r) = then_cmp (reverse_ordering l) (reverse_ordering r)"
  by (cases l) auto

lemma cmp_mono_eq: "(\<And>x y. x < y \<longleftrightarrow> f x < f y) \<Longrightarrow> inj f \<Longrightarrow> cmp x y = cmp (f x) (f y)"
  by (simp add: cmp_def inj_eq)

lemma then_cmp_assoc [cmp_simps]: "then_cmp (then_cmp a b) c = then_cmp a (then_cmp b c)"
  by (cases a) auto

lemma then_cmp_absorb [cmp_simps, simp]: "l \<noteq> Equal \<Longrightarrow> then_cmp l r = l"
  by (cases l) auto

lemma cmp_Pair [cmp_simps]: "cmp (a, b) (c, d) = then_cmp (cmp a c) (cmp b d)"
  by (auto simp: cmp_def)

lemma cmp_Cons [cmp_simps]: "cmp (x # xs) (y # ys) = then_cmp (cmp x y) (cmp xs ys)"
  by (auto simp: cmp_def)

lemma cmp_Nil [cmp_simps]:
  "cmp [] ys = (if ys = [] then Equal else Less)" "cmp xs [] = (if xs = [] then Equal else Greater)"
  by (cases ys; cases xs; simp add: cmp_def)+

lemma cmp_zero [cmp_simps]:
  "cmp 0 n = (if n = 0 then Equal else Less)" "cmp n 0 = (if n = 0 then Equal else Greater)" for n :: nat
  by (simp_all add: cmp_def)

section \<open>Bytes\<close>

abbreviation byte :: "char \<Rightarrow> int" where
  "byte c \<equiv> of_char c"

definition is_ascii_digit :: "char \<Rightarrow> bool" where
  "is_ascii_digit c \<longleftrightarrow> 48 \<le> byte c \<and> byte c \<le> 57"

definition is_ascii_alphabetic :: "char \<Rightarrow> bool" where
  "is_ascii_alphabetic c \<longleftrightarrow>
     65 \<le> byte c \<and> byte c \<le> 90 \<or> 97 \<le> byte c \<and> byte c \<le> 122"

definition is_ascii_alphanumeric :: "char \<Rightarrow> bool" where
  "is_ascii_alphanumeric c \<longleftrightarrow> is_ascii_digit c \<or> is_ascii_alphabetic c"

text \<open>\<open>u8::is_ascii_whitespace\<close>: space, tab, line feed, form feed, carriage return.\<close>

definition is_ascii_whitespace :: "char \<Rightarrow> bool" where
  "is_ascii_whitespace c \<longleftrightarrow> byte c \<in> {32, 9, 10, 12, 13}"

lemmas ascii_defs = is_ascii_digit_def is_ascii_alphabetic_def is_ascii_alphanumeric_def
  is_ascii_whitespace_def

section \<open>String operations\<close>

definition starts_with :: "rstr \<Rightarrow> rstr \<Rightarrow> bool" where
  "starts_with s p \<longleftrightarrow> take (length p) s = p"

definition ends_with :: "rstr \<Rightarrow> rstr \<Rightarrow> bool" where
  "ends_with s p \<longleftrightarrow> length p \<le> length s \<and> drop (length s - length p) s = p"

lemma starts_with_Nil [rust_str, simp]: "starts_with s []"
  by (simp add: starts_with_def)

lemma starts_with_Cons [rust_str, simp]:
  "starts_with (c # s) (d # p) \<longleftrightarrow> c = d \<and> starts_with s p"
  by (simp add: starts_with_def)

lemma starts_with_empty [rust_str, simp]: "starts_with [] p \<longleftrightarrow> p = []"
  by (auto simp: starts_with_def)

lemma starts_with_append: "starts_with s p \<longleftrightarrow> (\<exists>r. s = p @ r)"
proof
  assume "starts_with s p"
  then have "s = p @ drop (length p) s"
    by (metis append_take_drop_id starts_with_def)
  then show "\<exists>r. s = p @ r" ..
qed (auto simp: starts_with_def)

lemma ends_with_append: "ends_with s p \<longleftrightarrow> (\<exists>r. s = r @ p)"
proof
  assume "ends_with s p"
  then have "s = take (length s - length p) s @ p"
    by (metis append_take_drop_id ends_with_def)
  then show "\<exists>r. s = r @ p" ..
qed (auto simp: ends_with_def)

text \<open>\<open>str::split(c)\<close> for an ASCII separator: never empty, keeps empty pieces.\<close>

fun split_on :: "char \<Rightarrow> rstr \<Rightarrow> rstr list" where
  "split_on c [] = [[]]"
| "split_on c (d # s) =
     (if d = c then [] # split_on c s
      else (case split_on c s of [] \<Rightarrow> [[d]] | p # ps \<Rightarrow> (d # p) # ps))"

lemma split_on_not_Nil [rust_str, simp]: "split_on c s \<noteq> []"
  by (cases s) (auto split: list.splits)

lemma split_on_no_sep [rust_str, simp]: "c \<notin> set s \<Longrightarrow> split_on c s = [s]"
  by (induction s) auto

lemma split_on_append_sep [rust_str]:
  "split_on c (p @ c # s) = butlast (split_on c p) @ last (split_on c p) # split_on c s"
  by (induction p) (auto split: list.splits)

lemma split_on_append_sep_free [rust_str, simp]:
  "c \<notin> set p \<Longrightarrow> split_on c (p @ c # s) = p # split_on c s"
  by (simp add: split_on_append_sep)

lemma split_on_pieces: "p \<in> set (split_on c s) \<Longrightarrow> c \<notin> set p"
  by (induction s arbitrary: p) (auto split: list.splits if_splits)

fun join_with :: "rstr \<Rightarrow> rstr list \<Rightarrow> rstr" where
  "join_with sep [] = []"
| "join_with sep [p] = p"
| "join_with sep (p # q # ps) = p @ sep @ join_with sep (q # ps)"

lemma join_with_Cons: "ps \<noteq> [] \<Longrightarrow> join_with sep (p # ps) = p @ sep @ join_with sep ps"
  by (cases ps) auto

lemma join_with_Cons_Cons [simp]: "join_with sep ((a # p) # ps) = a # join_with sep (p # ps)"
  by (cases ps) auto

lemma split_on_join [rust_str]:
  "ps \<noteq> [] \<Longrightarrow> \<forall>p \<in> set ps. c \<notin> set p \<Longrightarrow> split_on c (join_with [c] ps) = ps"
  by (induction ps rule: induct_list012) auto

lemma join_with_split_on [rust_str]: "join_with [c] (split_on c s) = s"
  by (induction s) (auto simp: join_with_Cons split: list.splits)

text \<open>\<open>str::split_once(c)\<close>.\<close>

fun split_once :: "char \<Rightarrow> rstr \<Rightarrow> (rstr \<times> rstr) option" where
  "split_once c [] = None"
| "split_once c (d # s) =
     (if d = c then Some ([], s)
      else map_option (\<lambda>(a, b). (d # a, b)) (split_once c s))"

lemma split_once_None [rust_str]: "split_once c s = None \<longleftrightarrow> c \<notin> set s"
  by (induction s) auto

lemma split_once_append [rust_str, simp]: "c \<notin> set a \<Longrightarrow> split_once c (a @ c # b) = Some (a, b)"
  by (induction a) auto

lemma split_once_free [rust_str, simp]: "c \<notin> set s \<Longrightarrow> split_once c s = None"
  by (simp add: split_once_None)

lemma split_once_Some: "split_once c s = Some (a, b) \<Longrightarrow> s = a @ c # b \<and> c \<notin> set a"
  by (induction s arbitrary: a) (auto split: if_splits)

text \<open>\<open>str::split(pat)\<close> for a non-empty string pattern: leftmost, non-overlapping.\<close>

function split_str :: "rstr \<Rightarrow> rstr \<Rightarrow> rstr \<Rightarrow> rstr list" where
  "split_str pat acc s =
     (case s of
        [] \<Rightarrow> [rev acc]
      | c # r \<Rightarrow>
          (if pat \<noteq> [] \<and> starts_with s pat then rev acc # split_str pat [] (drop (length pat) s)
           else split_str pat (c # acc) r))"
  by pat_completeness auto
termination
  by (relation "measure (\<lambda>(pat, acc, s). length s)") auto

declare split_str.simps [simp del]

text \<open>
  \<open>char::is_whitespace\<close> is the Unicode property White\_Space; these are the UTF-8 encodings of
  its members (tab to carriage return, space, U+0085, U+00A0, U+1680, U+2000 to U+200A, U+2028,
  U+2029, U+202F, U+205F, U+3000).
\<close>

definition whitespace_chars :: "rstr list" where
  "whitespace_chars =
     map (\<lambda>b. [char_of (b::int)]) [9, 10, 11, 12, 13, 32] @
     map (map char_of)
       ([[194, 133], [194, 160], [225, 154, 128]] @
        map (\<lambda>b. [226, 128, b]) [128, 129, 130, 131, 132, 133, 134, 135, 136, 137, 138, 168, 169, 175] @
        [[226, 129, 159], [227, 128, 128 :: int]])"

definition leading_ws :: "rstr list \<Rightarrow> rstr \<Rightarrow> rstr option" where
  "leading_ws ws s = find (starts_with s) ws"

fun trim_start_by :: "nat \<Rightarrow> rstr list \<Rightarrow> rstr \<Rightarrow> rstr" where
  "trim_start_by 0 ws s = s"
| "trim_start_by (Suc n) ws s =
     (case leading_ws ws s of
        None \<Rightarrow> s
      | Some w \<Rightarrow> trim_start_by n ws (drop (length w) s))"

text \<open>\<open>str::trim\<close>: every whitespace character has at least one byte, so the byte length is
  enough fuel on each side.\<close>

definition trim_start :: "rstr \<Rightarrow> rstr" where
  "trim_start s = trim_start_by (length s) whitespace_chars s"

definition trim_end :: "rstr \<Rightarrow> rstr" where
  "trim_end s = rev (trim_start_by (length s) (map rev whitespace_chars) (rev s))"

definition trim :: "rstr \<Rightarrow> rstr" where
  "trim s = trim_end (trim_start s)"

text \<open>\<open>str::split_ascii_whitespace\<close>: the maximal runs of other bytes.\<close>

function split_ascii_whitespace :: "rstr \<Rightarrow> rstr list" where
  "split_ascii_whitespace s =
     (case dropWhile is_ascii_whitespace s of
        [] \<Rightarrow> []
      | c # r \<Rightarrow>
          takeWhile (\<lambda>b. \<not> is_ascii_whitespace b) (c # r) #
          split_ascii_whitespace (dropWhile (\<lambda>b. \<not> is_ascii_whitespace b) (c # r)))"
  by pat_completeness auto
termination
proof (relation "measure length")
  fix s c r
  assume "dropWhile is_ascii_whitespace s = c # r"
  then have "length (dropWhile (\<lambda>b. \<not> is_ascii_whitespace b) (c # r)) < length s"
  proof -
    assume eq: "dropWhile is_ascii_whitespace s = c # r"
    have nc: "\<not> is_ascii_whitespace c"
      using hd_dropWhile [of is_ascii_whitespace s] eq by simp
    have "length (dropWhile (\<lambda>b. \<not> is_ascii_whitespace b) (c # r)) \<le> length r"
      using nc by (simp add: length_dropWhile_le)
    also have "length r < length s"
      using length_dropWhile_le [of is_ascii_whitespace s] eq by simp
    finally show ?thesis .
  qed
  then show "(dropWhile (\<lambda>b. \<not> is_ascii_whitespace b) (c # r), s) \<in> measure length"
    by simp
qed simp

declare split_ascii_whitespace.simps [simp del]

text \<open>\<open>str::parse::<u32>\<close>: an optional plus sign and decimal digits, within 32 bits.\<close>

definition digit_value :: "char \<Rightarrow> int" where
  "digit_value c = byte c - 48"

definition decimal_value :: "rstr \<Rightarrow> int" where
  "decimal_value s = foldl (\<lambda>acc c. 10 * acc + digit_value c) 0 s"

definition parse_u32 :: "rstr \<Rightarrow> u32 option" where
  "parse_u32 s =
     (let t = (case s of c # r \<Rightarrow> if c = CHR ''+'' then r else s | [] \<Rightarrow> []) in
      if t = [] \<or> \<not> list_all is_ascii_digit t then None
      else if decimal_value t < 4294967296 then Some (of_int (decimal_value t)) else None)"

end
