(* ===== verification/Semver.thy ===== *)
theory Semver
  imports Prelude
begin

text \<open>
  npm semantic versions and ranges, \<open>crates/surge-ts/src/semver.rs\<close>: package resolution tests
  \<open>typesVersions\<close> keys and \<open>types@<range>\<close> export conditions against the TypeScript version.

  The model keeps the source's functions one for one. Version numbers are 32-bit words, so the
  \<open>increment_*\<close> operations wrap as they do in the release profile, which has no overflow
  checks. A failed parse is \<^term>\<open>None\<close>, as in the source.
\<close>

section \<open>Lexical helpers\<close>

definition is_numeric_identifier :: "rstr \<Rightarrow> bool" where
  "is_numeric_identifier text \<longleftrightarrow>
     text \<noteq> [] \<and> list_all is_ascii_digit text \<and> (text = ''0'' \<or> \<not> starts_with text ''0'')"

definition numeric_component :: "rstr \<Rightarrow> u32 option" where
  "numeric_component text = (if \<not> is_numeric_identifier text then None else parse_u32 text)"

definition is_identifier_byte :: "char \<Rightarrow> bool" where
  "is_identifier_byte b \<longleftrightarrow> is_ascii_alphanumeric b \<or> b = CHR ''-''"

definition is_prerelease_identifier :: "rstr \<Rightarrow> bool" where
  "is_prerelease_identifier text \<longleftrightarrow>
     is_numeric_identifier text \<or>
     (case text of
        [] \<Rightarrow> False
      | b # _ \<Rightarrow> \<not> is_ascii_digit b \<and> list_all is_identifier_byte text)"

definition is_wildcard :: "rstr \<Rightarrow> bool" where
  "is_wildcard text \<longleftrightarrow> text = ''*'' \<or> text = ''x'' \<or> text = ''X''"

text \<open>Splits \<open>core[-pre][+build]\<close>.\<close>

definition split_qualifiers :: "rstr \<Rightarrow> rstr \<times> rstr option \<times> rstr option" where
  "split_qualifiers text =
     (let (head, build) =
        (case split_once CHR ''+'' text of
           Some (head, build) \<Rightarrow> (head, Some build)
         | None \<Rightarrow> (text, None))
      in case split_once CHR ''-'' head of
           Some (core, prerelease) \<Rightarrow> (core, Some prerelease, build)
         | None \<Rightarrow> (head, None, build))"

section \<open>Versions\<close>

datatype version =
  Version (major: u32) (minor: u32) (patch: u32) (prerelease: "rstr list")

text \<open>\<open>components.next().map(numeric_component).unwrap_or(Some(0))?\<close>\<close>

definition optional_component :: "rstr list \<Rightarrow> nat \<Rightarrow> u32 option" where
  "optional_component components i =
     (if i < length components then numeric_component (components ! i) else Some 0)"

definition parse_version :: "rstr \<Rightarrow> version option" where
  "parse_version text =
     (case split_qualifiers text of (core, pre, build) \<Rightarrow>
      let components = split_on CHR ''.'' core in
      case numeric_component (hd components) of None \<Rightarrow> None | Some maj \<Rightarrow>
      case optional_component components 1 of None \<Rightarrow> None | Some mi \<Rightarrow>
      case optional_component components 2 of None \<Rightarrow> None | Some pat \<Rightarrow>
      if length components > 3 then None
      else
        let dots = length (filter (\<lambda>c. c = CHR ''.'') core) in
        if dots < 2 \<and> (pre \<noteq> None \<or> build \<noteq> None) then None
        else
          case (case pre of
                  Some ptext \<Rightarrow>
                    (let parts = split_on CHR ''.'' ptext in
                     if list_all is_prerelease_identifier parts then Some parts else None)
                | None \<Rightarrow> Some []) of
            None \<Rightarrow> None
          | Some parts \<Rightarrow>
              (case build of
                 Some b \<Rightarrow>
                   if list_all (\<lambda>part. part \<noteq> [] \<and> list_all is_identifier_byte part)
                        (split_on CHR ''.'' b)
                   then Some (Version maj mi pat parts) else None
               | None \<Rightarrow> Some (Version maj mi pat parts)))"

definition release :: "u32 \<Rightarrow> u32 \<Rightarrow> u32 \<Rightarrow> version" where
  "release maj mi pat = Version maj mi pat []"

definition increment_major :: "version \<Rightarrow> version" where
  "increment_major v = release (major v + 1) 0 0"

definition increment_minor :: "version \<Rightarrow> version" where
  "increment_minor v = release (major v) (minor v + 1) 0"

definition increment_patch :: "version \<Rightarrow> version" where
  "increment_patch v = release (major v) (minor v) (patch v + 1)"

definition with_prerelease_zero :: "version \<Rightarrow> version" where
  "with_prerelease_zero v = Version (major v) (minor v) (patch v) [''0'']"

definition compare_prerelease_identifier :: "rstr \<Rightarrow> rstr \<Rightarrow> ordering" where
  "compare_prerelease_identifier left right =
     (if left = right then Equal
      else
        case (is_numeric_identifier left, is_numeric_identifier right) of
          (True, True) \<Rightarrow>
            (case (parse_u32 left, parse_u32 right) of
               (Some left_number, Some right_number) \<Rightarrow> cmp left_number right_number
             | _ \<Rightarrow> then_cmp (cmp (length left) (length right)) (cmp left right))
        | (True, False) \<Rightarrow> Less
        | (False, True) \<Rightarrow> Greater
        | (False, False) \<Rightarrow> cmp left right)"

text \<open>The loop over \<open>left.iter().zip(right)\<close>: the first non-equal pair decides.\<close>

fun compare_identifiers :: "rstr list \<Rightarrow> rstr list \<Rightarrow> ordering option" where
  "compare_identifiers (l # ls) (r # rs) =
     (let ord = compare_prerelease_identifier l r in
      if ord \<noteq> Equal then Some ord else compare_identifiers ls rs)"
| "compare_identifiers _ _ = None"

definition compare_prerelease :: "rstr list \<Rightarrow> rstr list \<Rightarrow> ordering" where
  "compare_prerelease left right =
     (case (left = [], right = []) of
        (True, True) \<Rightarrow> Equal
      | (True, False) \<Rightarrow> Greater
      | (False, True) \<Rightarrow> Less
      | (False, False) \<Rightarrow>
          (case compare_identifiers left right of
             Some ord \<Rightarrow> ord
           | None \<Rightarrow> cmp (length left) (length right)))"

definition compare_version :: "version \<Rightarrow> version \<Rightarrow> ordering" where
  "compare_version a b =
     then_cmp (then_cmp (then_cmp (cmp (major a) (major b)) (cmp (minor a) (minor b)))
        (cmp (patch a) (patch b)))
       (compare_prerelease (prerelease a) (prerelease b))"

section \<open>Comparators and ranges\<close>

datatype operator = OpLess | OpLessEqual | OpEqual | OpGreaterEqual | OpGreater

record comparator =
  operator :: operator
  operand :: version

definition comparator_test :: "comparator \<Rightarrow> version \<Rightarrow> bool" where
  "comparator_test c v =
     (let ord = compare_version v (operand c) in
      case operator c of
        OpLess \<Rightarrow> ord = Less
      | OpLessEqual \<Rightarrow> ord \<noteq> Greater
      | OpEqual \<Rightarrow> ord = Equal
      | OpGreaterEqual \<Rightarrow> ord \<noteq> Less
      | OpGreater \<Rightarrow> ord = Greater)"

record version_range =
  alternatives :: "comparator list list"

definition is_range_operand :: "rstr \<Rightarrow> bool" where
  "is_range_operand text \<longleftrightarrow>
     text \<noteq> [] \<and>
     list_all (\<lambda>b. is_ascii_alphanumeric b \<or> b \<in> {CHR ''-'', CHR ''+'', CHR ''.'', CHR ''*''}) text"

definition hyphen_bounds :: "rstr \<Rightarrow> (rstr \<times> rstr) option" where
  "hyphen_bounds rng =
     (case split_ascii_whitespace rng of
        [left, dash, right] \<Rightarrow>
          if dash \<noteq> ''-'' then None
          else if is_range_operand left \<and> is_range_operand right then Some (left, right)
          else None
      | _ \<Rightarrow> None)"

definition split_simple :: "rstr \<Rightarrow> (rstr \<times> rstr) option" where
  "split_simple simple =
     (let operator_len =
        (if starts_with simple ''<='' \<or> starts_with simple ''>='' then 2
         else if (case simple of
                    [] \<Rightarrow> False
                  | b # _ \<Rightarrow> b \<in> {CHR ''~'', CHR ''^'', CHR ''<'', CHR ''>'', CHR ''=''}) then 1
         else 0) in
      if is_range_operand (drop operator_len simple)
      then Some (take operator_len simple, drop operator_len simple) else None)"

record partial_version =
  pv_version :: version
  major_is_wildcard :: bool
  minor_is_wildcard :: bool
  patch_is_wildcard :: bool

text \<open>\<open>text.and_then(numeric_component).unwrap_or(0)\<close>\<close>

definition component_or_zero :: "rstr option \<Rightarrow> u32" where
  "component_or_zero text =
     (case Option.bind text numeric_component of Some n \<Rightarrow> n | None \<Rightarrow> 0)"

definition nth_opt :: "'a list \<Rightarrow> nat \<Rightarrow> 'a option" where
  "nth_opt xs i = (if i < length xs then Some (xs ! i) else None)"

definition is_none_or :: "('a \<Rightarrow> bool) \<Rightarrow> 'a option \<Rightarrow> bool" where
  "is_none_or p x = (case x of None \<Rightarrow> True | Some a \<Rightarrow> p a)"

definition parse_partial :: "rstr \<Rightarrow> partial_version option" where
  "parse_partial text =
     (case split_qualifiers text of (core, pre, build) \<Rightarrow>
      let components = split_on CHR ''.'' core;
          major_text = hd components;
          minor_text = nth_opt components 1;
          patch_text = nth_opt components 2 in
      if length components > 3 then None
      else if patch_text = None \<and> (pre \<noteq> None \<or> build \<noteq> None) then None
      else if list_ex (\<lambda>c. \<not> is_wildcard c \<and> numeric_component c = None) components then None
      else if list_ex
          (\<lambda>q. q = [] \<or> \<not> list_all (\<lambda>b. is_identifier_byte b \<or> b = CHR ''.'') q)
          (List.map_filter id [pre, build]) then None
      else
        let majw = is_wildcard major_text;
            minw = is_none_or is_wildcard minor_text;
            patw = is_none_or is_wildcard patch_text;
            version =
              (if majw then release 0 0 0
               else if minw then release (component_or_zero (Some major_text)) 0 0
               else if patw then
                 release (component_or_zero (Some major_text)) (component_or_zero minor_text) 0
               else
                 release (component_or_zero (Some major_text)) (component_or_zero minor_text)
                   (component_or_zero patch_text));
            version =
              (case pre of
                 Some p \<Rightarrow>
                   Version (major version) (minor version) (patch version) (split_on CHR ''.'' p)
               | None \<Rightarrow> version) in
        Some \<lparr>pv_version = version, major_is_wildcard = majw, minor_is_wildcard = minw,
              patch_is_wildcard = patw\<rparr>)"

definition parse_hyphen :: "rstr \<Rightarrow> rstr \<Rightarrow> comparator list option" where
  "parse_hyphen left right =
     (case parse_partial left of None \<Rightarrow> None | Some l \<Rightarrow>
      case parse_partial right of None \<Rightarrow> None | Some r \<Rightarrow>
      Some
        ((if \<not> major_is_wildcard l
          then [\<lparr>operator = OpGreaterEqual, operand = pv_version l\<rparr>] else []) @
         (if \<not> major_is_wildcard r
          then [if minor_is_wildcard r
                then \<lparr>operator = OpLess, operand = increment_major (pv_version r)\<rparr>
                else if patch_is_wildcard r
                then \<lparr>operator = OpLess, operand = increment_minor (pv_version r)\<rparr>
                else \<lparr>operator = OpLessEqual, operand = pv_version r\<rparr>]
          else [])))"

definition parse_comparator :: "rstr \<Rightarrow> rstr \<Rightarrow> comparator list option" where
  "parse_comparator op operand_text =
     (case parse_partial operand_text of None \<Rightarrow> None | Some partial \<Rightarrow>
      let minw = minor_is_wildcard partial;
          patw = patch_is_wildcard partial;
          any_wildcard = minw \<or> patw;
          version = pv_version partial in
      Some
       (if major_is_wildcard partial then
          (if op = ''<'' \<or> op = ''>''
           then [\<lparr>operator = OpLess, operand = with_prerelease_zero (release 0 0 0)\<rparr>]
           else [])
        else if op = ''~'' then
          [\<lparr>operator = OpGreaterEqual, operand = version\<rparr>,
           \<lparr>operator = OpLess,
            operand = (if minw then increment_major version else increment_minor version)\<rparr>]
        else if op = ''^'' then
          [\<lparr>operator = OpGreaterEqual, operand = version\<rparr>,
           \<lparr>operator = OpLess,
            operand =
              (if major version > 0 \<or> minw then increment_major version
               else if minor version > 0 \<or> patw then increment_minor version
               else increment_patch version)\<rparr>]
        else if op = ''<'' \<or> op = ''>='' then
          [\<lparr>operator = (if op = ''<'' then OpLess else OpGreaterEqual),
            operand = (if any_wildcard then with_prerelease_zero version else version)\<rparr>]
        else if op = ''<='' \<or> op = ''>'' then
          (let inclusive_upper = (op = ''<='') in
           if minw then
             [\<lparr>operator = (if inclusive_upper then OpLess else OpGreaterEqual),
               operand = with_prerelease_zero (increment_major version)\<rparr>]
           else if patw then
             [\<lparr>operator = (if inclusive_upper then OpLess else OpGreaterEqual),
               operand = with_prerelease_zero (increment_minor version)\<rparr>]
           else
             [\<lparr>operator = (if inclusive_upper then OpLessEqual else OpGreater),
               operand = version\<rparr>])
        else if any_wildcard then
          [\<lparr>operator = OpGreaterEqual, operand = with_prerelease_zero version\<rparr>,
           \<lparr>operator = OpLess,
            operand =
              with_prerelease_zero
                (if minw then increment_major version else increment_minor version)\<rparr>]
        else [\<lparr>operator = OpEqual, operand = version\<rparr>]))"

text \<open>The inner loop over the whitespace-separated simple ranges of one alternative.\<close>

fun parse_simples :: "rstr list \<Rightarrow> comparator list option" where
  "parse_simples [] = Some []"
| "parse_simples (simple # rest) =
     (case split_simple simple of None \<Rightarrow> None | Some (op, operand_text) \<Rightarrow>
      case parse_comparator op operand_text of None \<Rightarrow> None | Some cs \<Rightarrow>
      map_option (\<lambda>more. cs @ more) (parse_simples rest))"

definition parse_alternative :: "rstr \<Rightarrow> comparator list option" where
  "parse_alternative rng =
     (case hyphen_bounds rng of
        Some (left, right) \<Rightarrow> parse_hyphen left right
      | None \<Rightarrow> parse_simples (split_ascii_whitespace rng))"

fun parse_alternatives :: "rstr list \<Rightarrow> comparator list list option" where
  "parse_alternatives [] = Some []"
| "parse_alternatives (rng # rest) =
     (let rng = trim rng in
      if rng = [] then parse_alternatives rest
      else
        case parse_alternative rng of None \<Rightarrow> None | Some cs \<Rightarrow>
        map_option (\<lambda>more. cs # more) (parse_alternatives rest))"

definition parse_range :: "rstr \<Rightarrow> version_range option" where
  "parse_range text =
     map_option (\<lambda>as. \<lparr>alternatives = as\<rparr>) (parse_alternatives (split_str ''||'' [] (trim text)))"

definition range_test :: "version_range \<Rightarrow> version \<Rightarrow> bool" where
  "range_test r v \<longleftrightarrow>
     alternatives r = [] \<or>
     list_ex (\<lambda>comparators. list_all (\<lambda>c. comparator_test c v) comparators) (alternatives r)"

definition matches_text :: "rstr \<Rightarrow> rstr \<Rightarrow> bool option" where
  "matches_text rng version =
     (case (parse_range rng, parse_version version) of
        (Some r, Some v) \<Rightarrow> Some (range_test r v)
      | _ \<Rightarrow> None)"

end
