(* ===== verification/Semver_Order.thy ===== *)
theory Semver_Order
  imports Semver
begin

text \<open>
  The precedence order of \<open>semver.rs\<close>: \<^const>\<open>compare_version\<close> compares by a key, so it is a
  linear order on versions (an instance of the library's \<open>linorder\<close> class). The
  key argument needs that a numeric identifier has no leading zero: its byte order, length first,
  is then its numeric order, whether or not it fits in 32 bits.
\<close>

section \<open>Numeric identifiers\<close>

lemma byte_less_iff: "c < d \<longleftrightarrow> byte c < byte d"
proof -
  have "c < d \<longleftrightarrow> (of_char c :: nat) < of_char d"
    by (simp add: less_char_def)
  also have "\<dots> \<longleftrightarrow> int (of_char c) < int (of_char d)"
    by simp
  finally show ?thesis
    by (simp only: of_nat_of_char)
qed

lemma digit_value_bounds: "is_ascii_digit c \<Longrightarrow> 0 \<le> digit_value c \<and> digit_value c \<le> 9"
  by (simp add: is_ascii_digit_def digit_value_def)

lemma digit_value_less_iff: "c < d \<longleftrightarrow> digit_value c < digit_value d"
  by (simp add: byte_less_iff digit_value_def)

lemma digit_value_eq_iff [simp]: "digit_value c = digit_value d \<longleftrightarrow> c = d"
  using digit_value_less_iff [of c d] digit_value_less_iff [of d c] by (metis linorder_neqE less_irrefl)

lemma decimal_foldl:
  "foldl (\<lambda>acc c. 10 * acc + digit_value c) a s = a * 10 ^ length s + decimal_value s"
proof (induction s arbitrary: a)
  case Nil
  then show ?case by (simp add: decimal_value_def)
next
  case (Cons c s)
  have "decimal_value (c # s) = digit_value c * 10 ^ length s + decimal_value s"
    using Cons.IH [of "digit_value c"] by (simp add: decimal_value_def)
  then show ?case
    using Cons.IH [of "10 * a + digit_value c"] by (simp add: algebra_simps)
qed

lemma decimal_value_Nil [simp]: "decimal_value [] = 0"
  by (simp add: decimal_value_def)

lemma decimal_value_Cons [simp]:
  "decimal_value (c # s) = digit_value c * 10 ^ length s + decimal_value s"
  using decimal_foldl [of "digit_value c" s] by (simp add: decimal_value_def)

lemma decimal_value_nonneg: "list_all is_ascii_digit s \<Longrightarrow> 0 \<le> decimal_value s"
  by (induction s) (auto simp: digit_value_bounds)

lemma decimal_value_upper: "list_all is_ascii_digit s \<Longrightarrow> decimal_value s < 10 ^ length s"
proof (induction s)
  case Nil
  then show ?case by simp
next
  case (Cons c s)
  then have "decimal_value s < 10 ^ length s" and "digit_value c \<le> 9"
    by (auto dest: digit_value_bounds)
  then have "digit_value c * 10 ^ length s + decimal_value s < 9 * 10 ^ length s + 10 ^ length s"
    by (intro add_le_less_mono mult_right_mono) auto
  then show ?case by simp
qed

lemma decimal_value_same_length:
  assumes "list_all is_ascii_digit a" "list_all is_ascii_digit b" "length a = length b"
  shows "a < b \<longleftrightarrow> decimal_value a < decimal_value b"
  using assms(3,1,2)
proof (induction a b rule: list_induct2)
  case Nil
  then show ?case by simp
next
  case (Cons c a d b)
  from Cons.prems have bounds: "0 \<le> decimal_value a" "decimal_value a < 10 ^ length a"
    "0 \<le> decimal_value b" "decimal_value b < 10 ^ length a"
    using decimal_value_nonneg decimal_value_upper [of a] decimal_value_upper [of b] Cons.hyps
    by auto
  have shift: "x < y \<Longrightarrow> decimal_value u < 10 ^ length a \<Longrightarrow> 0 \<le> decimal_value v \<Longrightarrow>
      x * 10 ^ length a + decimal_value u < y * 10 ^ length a + decimal_value v" for x y :: int and u v
  proof -
    assume "x < y" "decimal_value u < 10 ^ length a" "0 \<le> decimal_value v"
    then have "x * 10 ^ length a + decimal_value u < (x + 1) * 10 ^ length a"
      by (simp add: algebra_simps)
    also have "\<dots> \<le> y * 10 ^ length a"
      using \<open>x < y\<close> by (intro mult_right_mono) auto
    finally show ?thesis
      using \<open>0 \<le> decimal_value v\<close> by simp
  qed
  show ?case
  proof (cases c d rule: linorder_cases)
    case equal
    with Cons show ?thesis by simp
  next
    case less
    with bounds shift Cons.hyps show ?thesis
      by (simp add: digit_value_less_iff)
  next
    case greater
    then have "digit_value d < digit_value c"
      by (simp add: digit_value_less_iff)
    from shift [OF this bounds(4) bounds(1)] greater Cons.hyps show ?thesis
      by auto
  qed
qed

lemma numeric_identifier_lower:
  assumes "is_numeric_identifier s" and "1 < length s"
  shows "10 ^ (length s - 1) \<le> decimal_value s"
proof -
  obtain c r where s: "s = c # r"
    using assms by (auto simp: is_numeric_identifier_def neq_Nil_conv)
  from assms have "c \<noteq> CHR ''0''" and digit: "is_ascii_digit c" "list_all is_ascii_digit r"
    by (auto simp: is_numeric_identifier_def s)
  then have "1 \<le> digit_value c"
    using digit_value_eq_iff [of c "CHR ''0''"] digit_value_bounds [OF digit(1)]
    by (simp add: digit_value_def)
  then have "1 * 10 ^ length r \<le> digit_value c * 10 ^ length r"
    by (intro mult_right_mono) auto
  then have "10 ^ length r \<le> decimal_value (c # r)"
    using decimal_value_nonneg [OF digit(2)] unfolding decimal_value_Cons by linarith
  then show ?thesis
    by (simp add: s)
qed

lemma numeric_identifier_digits: "is_numeric_identifier s \<Longrightarrow> list_all is_ascii_digit s \<and> s \<noteq> []"
  by (simp add: is_numeric_identifier_def)

lemma numeric_identifier_shorter:
  assumes "is_numeric_identifier a" "is_numeric_identifier b" "length a < length b"
  shows "decimal_value a < decimal_value b"
proof -
  have "decimal_value a < 10 ^ length a"
    using assms(1) by (intro decimal_value_upper) (simp add: is_numeric_identifier_def)
  also have "(10::int) ^ length a \<le> 10 ^ (length b - 1)"
    using assms(3) by (intro power_increasing) auto
  also have "\<dots> \<le> decimal_value b"
  proof (rule numeric_identifier_lower [OF assms(2)])
    have "0 < length a"
      using numeric_identifier_digits [OF assms(1)] by simp
    with assms(3) show "1 < length b" by linarith
  qed
  finally show ?thesis .
qed

text \<open>Length first, then byte order: the numeric order, at any magnitude.\<close>

lemma numeric_identifier_cmp:
  assumes "is_numeric_identifier a" and "is_numeric_identifier b"
  shows "then_cmp (cmp (length a) (length b)) (cmp a b) = cmp (decimal_value a) (decimal_value b)"
    and "decimal_value a = decimal_value b \<longleftrightarrow> a = b"
proof -
  have digits: "list_all is_ascii_digit a" "list_all is_ascii_digit b"
    using assms by (auto simp: is_numeric_identifier_def)
  have eq: "decimal_value a = decimal_value b \<longleftrightarrow> a = b"
  proof
    assume val: "decimal_value a = decimal_value b"
    then have len: "length a = length b"
      using numeric_identifier_shorter [OF assms] numeric_identifier_shorter [OF assms(2,1)]
      by (metis linorder_neqE_nat less_irrefl)
    then show "a = b"
      using decimal_value_same_length [OF digits len] decimal_value_same_length [OF digits(2,1)]
        val by (metis linorder_neqE less_irrefl)
  qed simp
  then show "decimal_value a = decimal_value b \<longleftrightarrow> a = b" .
  show "then_cmp (cmp (length a) (length b)) (cmp a b) = cmp (decimal_value a) (decimal_value b)"
  proof (cases "length a" "length b" rule: linorder_cases)
    case less
    with numeric_identifier_shorter [OF assms] show ?thesis
      by (simp add: cmp_def)
  next
    case greater
    then have "decimal_value b < decimal_value a"
      by (rule numeric_identifier_shorter [OF assms(2,1)])
    with greater show ?thesis
      by (simp add: cmp_def)
  next
    case equal
    with decimal_value_same_length [OF digits equal] eq show ?thesis
      by (simp add: cmp_def)
  qed
qed

lemma parse_u32_numeric:
  assumes "is_numeric_identifier s"
  shows "parse_u32 s =
    (if decimal_value s < 4294967296 then Some (of_int (decimal_value s)) else None)"
proof -
  obtain c r where s: "s = c # r" and c: "is_ascii_digit c"
    using assms by (cases s) (simp_all add: is_numeric_identifier_def)
  then have c: "c \<noteq> CHR ''+''"
    by (auto simp: is_ascii_digit_def)
  have "list_all is_ascii_digit s"
    using assms by (simp add: is_numeric_identifier_def)
  with c show ?thesis
    unfolding parse_u32_def s by (simp del: decimal_value_Cons)
qed

lemma cmp_of_int_u32:
  assumes "0 \<le> x" "x < 4294967296" "0 \<le> y" "y < 4294967296"
  shows "cmp (of_int x :: u32) (of_int y) = cmp x y"
proof -
  have u: "uint (of_int z :: u32) = z" if "0 \<le> z" "z < 4294967296" for z
    using that by (simp add: uint_word_of_int_eq take_bit_int_eq_self)
  show ?thesis
    using assms by (simp add: cmp_def word_less_def u word_uint_eq_iff)
qed

section \<open>The order of prerelease identifiers and versions\<close>

definition identifier_key :: "rstr \<Rightarrow> bool \<times> int \<times> rstr" where
  "identifier_key s = (\<not> is_numeric_identifier s,
     if is_numeric_identifier s then decimal_value s else 0, s)"

lemma identifier_key_inj: "inj identifier_key"
  by (auto simp: inj_def identifier_key_def)

lemma compare_identifier_key:
  "compare_prerelease_identifier l r = cmp (identifier_key l) (identifier_key r)"
proof (cases "l = r")
  case True
  then show ?thesis
    by (simp add: compare_prerelease_identifier_def)
next
  case False
  show ?thesis
  proof (cases "is_numeric_identifier l \<and> is_numeric_identifier r")
    case True
    then have n: "is_numeric_identifier l" "is_numeric_identifier r" by auto
    have nonneg: "0 \<le> decimal_value l" "0 \<le> decimal_value r"
      using n by (auto simp: is_numeric_identifier_def intro!: decimal_value_nonneg)
    have "compare_prerelease_identifier l r = cmp (decimal_value l) (decimal_value r)"
      using False n nonneg numeric_identifier_cmp(1) [OF n]
      by (auto simp: compare_prerelease_identifier_def parse_u32_numeric cmp_of_int_u32
          split: option.splits if_splits)
    also have "\<dots> = cmp (identifier_key l) (identifier_key r)"
      using n False numeric_identifier_cmp(2) [OF n]
      by (auto simp: identifier_key_def cmp_def)
    finally show ?thesis .
  next
    case nonnum: False
    with False show ?thesis
      by (auto simp: compare_prerelease_identifier_def identifier_key_def cmp_def)
  qed
qed

lemma compare_identifiers_key:
  "(case compare_identifiers ls rs of Some ord \<Rightarrow> ord | None \<Rightarrow> cmp (length ls) (length rs)) =
   cmp (map identifier_key ls) (map identifier_key rs)"
proof (induction ls rs rule: compare_identifiers.induct)
  case (1 l ls r rs)
  have len: "cmp (length (l # ls)) (length (r # rs)) = cmp (length ls) (length rs)"
    by (simp add: cmp_def)
  show ?case
  proof (cases "compare_prerelease_identifier l r = Equal")
    case True
    with 1 [OF refl] len show ?thesis
      by (cases "compare_identifiers ls rs") (simp_all add: cmp_Cons compare_identifier_key)
  next
    case False
    then show ?thesis
      by (simp add: cmp_Cons) (simp add: compare_identifier_key)
  qed
qed (simp_all add: cmp_Nil cmp_zero)

type_synonym version_key =
  "u32 \<times> u32 \<times> u32 \<times> bool \<times> (bool \<times> int \<times> rstr) list"

definition version_key :: "version \<Rightarrow> version_key" where
  "version_key v = (major v, minor v, patch v, prerelease v = [], map identifier_key (prerelease v))"

lemma version_key_inj: "version_key a = version_key b \<longleftrightarrow> a = b"
  by (cases a; cases b) (auto simp: version_key_def inj_map_eq_map [OF identifier_key_inj])

lemma compare_prerelease_key:
  "compare_prerelease l r =
   cmp (l = [], map identifier_key l) (r = [], map identifier_key r)"
proof (cases "l = [] \<or> r = []")
  case True
  then show ?thesis
    by (auto simp: compare_prerelease_def cmp_def)
next
  case False
  then show ?thesis
    using compare_identifiers_key [of l r] by (auto simp: compare_prerelease_def cmp_def)
qed

lemma compare_version_key: "compare_version a b = cmp (version_key a) (version_key b)"
  by (simp add: compare_version_def version_key_def compare_prerelease_key cmp_Pair then_cmp_assoc)

instantiation version :: linorder
begin

definition less_eq_version :: "version \<Rightarrow> version \<Rightarrow> bool" where
  "less_eq_version a b \<longleftrightarrow> compare_version a b \<noteq> Greater"

definition less_version :: "version \<Rightarrow> version \<Rightarrow> bool" where
  "less_version a b \<longleftrightarrow> compare_version a b = Less"

instance
proof
  fix x y z :: version
  show "x < y \<longleftrightarrow> x \<le> y \<and> \<not> y \<le> x"
    by (auto simp: less_version_def less_eq_version_def compare_version_key)
  show "x \<le> x"
    by (simp add: less_eq_version_def compare_version_key)
  show "x \<le> y \<Longrightarrow> y \<le> z \<Longrightarrow> x \<le> z"
    by (auto simp: less_eq_version_def compare_version_key)
  show "x \<le> y \<Longrightarrow> y \<le> x \<Longrightarrow> x = y"
    by (auto simp: less_eq_version_def compare_version_key version_key_inj [symmetric])
  show "x \<le> y \<or> y \<le> x"
    by (auto simp: less_eq_version_def compare_version_key)
qed

end

lemma compare_version_cmp: "compare_version a b = cmp a b"
proof -
  have "compare_version a b = Equal \<longleftrightarrow> a = b"
    by (simp add: compare_version_key version_key_inj)
  then show ?thesis
    by (cases "compare_version a b") (auto simp: cmp_def less_version_def)
qed

end
