(* ===== verification/Semver_Ranges.thy ===== *)
theory Semver_Ranges
  imports Semver_Order
begin

text \<open>
  What the ranges of \<open>semver.rs\<close> accept, in terms of the order of \<^theory_text>\<open>Semver_Order\<close>, and
  the round trip between versions and their text. The increments are exact below the largest
  32-bit number; at that number they wrap, and the range they bound is empty.
\<close>

section \<open>Order facts by component\<close>

definition core_triple :: "version \<Rightarrow> u32 \<times> u32 \<times> u32" where
  "core_triple v = (major v, minor v, patch v)"

lemma core_triple_Version [simp]: "core_triple (Version a b c p) = (a, b, c)"
  by (simp add: core_triple_def)

lemma less_version_key: "v < w \<longleftrightarrow> version_key v < version_key w" for v w :: version
  by (simp add: less_version_def compare_version_key)

lemma less_version_components:
  "v < w \<longleftrightarrow> core_triple v < core_triple w \<or>
     core_triple v = core_triple w \<and> compare_prerelease (prerelease v) (prerelease w) = Less"
  by (auto simp: less_version_key version_key_def core_triple_def compare_prerelease_key)

lemma less_release:
  "prerelease w = [] \<Longrightarrow>
   v < w \<longleftrightarrow> core_triple v < core_triple w \<or> core_triple v = core_triple w \<and> prerelease v \<noteq> []"
  for v w :: version
  by (auto simp: less_version_components compare_prerelease_def)

lemma identifier_key_zero_least: "identifier_key ''0'' \<le> identifier_key s"
proof -
  have zero: "is_numeric_identifier ''0''" "decimal_value ''0'' = 0"
    by (simp_all add: is_numeric_identifier_def ascii_defs digit_value_def)
  show ?thesis
  proof (cases "is_numeric_identifier s")
    case True
    then have "0 \<le> decimal_value s"
      by (intro decimal_value_nonneg) (simp add: is_numeric_identifier_def)
    moreover have "decimal_value s = 0 \<Longrightarrow> s = ''0''"
      using numeric_identifier_cmp(2) [OF True zero(1)] zero(2) by simp
    ultimately show ?thesis
      using True zero by (auto simp: identifier_key_def order_le_less)
  next
    case False
    with zero show ?thesis
      by (simp add: identifier_key_def)
  qed
qed

text \<open>\<open>-0\<close> is the least prerelease of its core triple.\<close>

lemma prerelease_zero_least: "compare_prerelease p [''0''] \<noteq> Less"
proof (cases p)
  case Nil
  then show ?thesis by (simp add: compare_prerelease_def)
next
  case (Cons s ps)
  then show ?thesis
    using identifier_key_zero_least [of s]
    by (auto simp: compare_prerelease_key)
qed

lemma less_with_prerelease_zero: "v < with_prerelease_zero w \<longleftrightarrow> core_triple v < core_triple w"
  using prerelease_zero_least
  by (auto simp: less_version_components with_prerelease_zero_def core_triple_def)

lemma u32_less_Suc:
  fixes x y :: u32
  assumes "y \<noteq> -1"
  shows "x < y + 1 \<longleftrightarrow> x \<le> y"
proof -
  have "uint y \<noteq> 4294967295"
    using assms word_uint_eq_iff [of y "-1"]
    by (simp add: unsigned_minus_1_eq_mask mask_eq_exp_minus_1)
  moreover have "uint y < 4294967296"
    using uint_lt2p [of y] by simp
  ultimately have "uint (y + 1) = uint y + 1"
    by (simp add: uint_word_ariths)
  then show ?thesis
    by (auto simp: word_less_def word_le_def)
qed

section \<open>What each range form accepts\<close>

abbreviation satisfies :: "version \<Rightarrow> comparator list \<Rightarrow> bool" where
  "satisfies v cs \<equiv> list_all (\<lambda>c. comparator_test c v) cs"

lemma comparator_test_order [simp]:
  "comparator_test \<lparr>operator = OpLess, operand = w\<rparr> v \<longleftrightarrow> v < w"
  "comparator_test \<lparr>operator = OpLessEqual, operand = w\<rparr> v \<longleftrightarrow> v \<le> w"
  "comparator_test \<lparr>operator = OpEqual, operand = w\<rparr> v \<longleftrightarrow> v = w"
  "comparator_test \<lparr>operator = OpGreaterEqual, operand = w\<rparr> v \<longleftrightarrow> w \<le> v"
  "comparator_test \<lparr>operator = OpGreater, operand = w\<rparr> v \<longleftrightarrow> w < v"
  by (auto simp: comparator_test_def compare_version_cmp)

lemma partial_major: "parse_partial t = Some p \<Longrightarrow> \<not> major_is_wildcard p \<Longrightarrow>
    minor_is_wildcard p \<Longrightarrow> minor (pv_version p) = 0 \<and> patch (pv_version p) = 0"
  by (auto simp: parse_partial_def Let_def release_def split: prod.splits if_splits option.splits)

lemma partial_minor: "parse_partial t = Some p \<Longrightarrow> \<not> major_is_wildcard p \<Longrightarrow>
    patch_is_wildcard p \<Longrightarrow> patch (pv_version p) = 0"
  by (auto simp: parse_partial_def Let_def release_def split: prod.splits if_splits option.splits)

text \<open>A version with the same major number as \<open>w\<close>, or a prerelease of the next major release.\<close>

definition below_next_major :: "version \<Rightarrow> version \<Rightarrow> bool" where
  "below_next_major w v \<longleftrightarrow>
     major v = major w \<or>
     major v = major w + 1 \<and> minor v = 0 \<and> patch v = 0 \<and> prerelease v \<noteq> []"

lemma less_increment_major:
  "major w \<noteq> -1 \<Longrightarrow> v < increment_major w \<longleftrightarrow>
     major v \<le> major w \<or>
     major v = major w + 1 \<and> minor v = 0 \<and> patch v = 0 \<and> prerelease v \<noteq> []"
  by (auto simp: less_release increment_major_def release_def core_triple_def u32_less_Suc)

lemma le_version_major: "w \<le> v \<Longrightarrow> major w \<le> major v" for v w :: version
  by (auto simp: not_less [symmetric] less_version_components core_triple_def)

lemma not_less_prerelease_zero:
  "with_prerelease_zero w \<le> v \<longleftrightarrow> core_triple w \<le> core_triple v"
  using less_with_prerelease_zero [of v w] by (simp add: not_less [symmetric])

section \<open>Printing versions\<close>

function print_decimal :: "nat \<Rightarrow> rstr" where
  "print_decimal n =
     (if n < 10 then [char_of (48 + n)]
      else print_decimal (n div 10) @ [char_of (48 + n mod 10)])"
  by pat_completeness auto
termination
  by (relation "measure id") auto

declare print_decimal.simps [simp del]

definition render_version :: "version \<Rightarrow> rstr" where
  "render_version v =
     join_with ''.'' (map (\<lambda>n. print_decimal (unat n)) [major v, minor v, patch v]) @
     (if prerelease v = [] then [] else ''-'' @ join_with ''.'' (prerelease v))"

lemma digit_char:
  assumes "n < 10"
  shows "is_ascii_digit (char_of (48 + n))" and "digit_value (char_of (48 + n)) = int n"
proof -
  have "(of_char (char_of (48 + n) :: char) :: nat) = 48 + n"
    using assms by simp
  then have "byte (char_of (48 + n)) = 48 + int n"
    by (metis of_nat_of_char of_nat_add of_nat_numeral)
  with assms show "is_ascii_digit (char_of (48 + n))" "digit_value (char_of (48 + n)) = int n"
    by (auto simp: is_ascii_digit_def digit_value_def)
qed

lemma decimal_value_append:
  "decimal_value (s @ t) = decimal_value s * 10 ^ length t + decimal_value t"
  by (induction s) (auto simp: algebra_simps power_add)

lemma print_decimal_digits: "list_all is_ascii_digit (print_decimal n) \<and> print_decimal n \<noteq> []"
proof (induction n rule: print_decimal.induct)
  case (1 n)
  then show ?case
    by (subst (1 2) print_decimal.simps) (auto simp: digit_char)
qed

lemma decimal_value_print: "decimal_value (print_decimal n) = int n"
proof (induction n rule: print_decimal.induct)
  case (1 n)
  show ?case
  proof (cases "n < 10")
    case True
    then show ?thesis
      by (subst print_decimal.simps) (simp add: digit_char)
  next
    case False
    have "int n = 10 * int (n div 10) + int (n mod 10)"
      by (metis mult_div_mod_eq of_nat_add of_nat_mult of_nat_numeral)
    with 1 False show ?thesis
      by (subst print_decimal.simps) (simp add: digit_char decimal_value_append)
  qed
qed

lemma print_decimal_hd: "0 < n \<Longrightarrow> hd (print_decimal n) \<noteq> CHR ''0''"
proof (induction n rule: print_decimal.induct)
  case (1 n)
  show ?case
  proof (cases "n < 10")
    case True
    have "digit_value (char_of (48 + n)) \<noteq> digit_value CHR ''0''"
      using True 1 by (simp add: digit_char) (simp add: digit_value_def)
    with True show ?thesis
      by (subst print_decimal.simps) auto
  next
    case False
    with 1 print_decimal_digits [of "n div 10"] show ?thesis
      by (subst print_decimal.simps) simp
  qed
qed

lemma print_decimal_numeric: "is_numeric_identifier (print_decimal n)"
proof (cases "n = 0")
  case True
  then show ?thesis
    using digit_char(1) [of 0] by (simp add: print_decimal.simps is_numeric_identifier_def)
next
  case False
  then show ?thesis
    using print_decimal_digits [of n] print_decimal_hd [of n]
    by (cases "print_decimal n") (auto simp: is_numeric_identifier_def)
qed

lemma numeric_component_print: "numeric_component (print_decimal (unat n)) = Some n"
proof -
  have "uint n < 4294967296"
    using uint_lt2p [of n] by simp
  then show ?thesis
    by (simp add: numeric_component_def print_decimal_numeric parse_u32_numeric
        decimal_value_print)
qed

lemma digits_free:
  assumes "list_all is_ascii_digit s"
  shows "CHR ''.'' \<notin> set s" "CHR ''-'' \<notin> set s" "CHR ''+'' \<notin> set s"
  using assms by (auto simp: list_all_iff is_ascii_digit_def)

lemma prerelease_identifier_free:
  assumes "is_prerelease_identifier s"
  shows "CHR ''.'' \<notin> set s" "CHR ''+'' \<notin> set s"
  using assms digits_free [of s]
  by (auto simp: is_prerelease_identifier_def is_numeric_identifier_def list_all_iff
      is_identifier_byte_def ascii_defs split: list.splits)

lemma set_join_with: "set (join_with sep ps) \<subseteq> set sep \<union> (\<Union>p \<in> set ps. set p)"
  by (induction ps rule: induct_list012) auto

lemma three_components:
  assumes "core = join_with ''.'' [a, b, c]"
    and "CHR ''.'' \<notin> set a" "CHR ''.'' \<notin> set b" "CHR ''.'' \<notin> set c"
  shows "split_on CHR ''.'' core = [a, b, c]"
    and "length (filter (\<lambda>x. x = CHR ''.'') core) = 2"
proof -
  show "split_on CHR ''.'' core = [a, b, c]"
    using assms by simp
  have "filter (\<lambda>x. x = CHR ''.'') s = []" if "CHR ''.'' \<notin> set s" for s
    using that by (auto simp: filter_empty_conv)
  with assms show "length (filter (\<lambda>x. x = CHR ''.'') core) = 2"
    by simp
qed

lemma split_qualifiers_render:
  assumes "CHR ''-'' \<notin> set core" "CHR ''+'' \<notin> set core" "CHR ''+'' \<notin> set pre"
  shows "split_qualifiers core = (core, None, None)"
    and "split_qualifiers (core @ CHR ''-'' # pre) = (core, Some pre, None)"
  using assms by (simp_all add: split_qualifiers_def)

lemma parse_version_core:
  assumes "split_qualifiers text = (core, pre, None)"
    and "core = join_with ''.'' (map (\<lambda>n. print_decimal (unat n)) [a, b, c])"
    and "(case pre of None \<Rightarrow> parts = [] | Some p \<Rightarrow> split_on CHR ''.'' p = parts)"
    and "list_all is_prerelease_identifier parts"
  shows "parse_version text = Some (Version a b c parts)"
proof -
  have free: "CHR ''.'' \<notin> set (print_decimal (unat n))" for n :: u32
    using digits_free(1) print_decimal_digits by blast
  note comps = three_components [OF assms(2) [simplified list.map] free free free]
  show ?thesis
    using assms(1,3,4) comps
    by (auto simp: parse_version_def optional_component_def numeric_component_print
        split: option.splits)
qed

section \<open>Properties\<close>

text \<open>
  C12. The version order: \<open>Version::compare\<close> returns \<open>Equal\<close> exactly on equal versions, swapping
  the arguments reverses its result, and \<open>Less\<close> is transitive, so it is a linear order on all
  versions, also where a prerelease number does not fit in 32 bits.
\<close>

theorem compare_version_linear:
  "(compare_version a b = Equal \<longleftrightarrow> a = b) \<and>
   compare_version b a = reverse_ordering (compare_version a b) \<and>
   (compare_version a b = Less \<and> compare_version b c = Less \<longrightarrow> compare_version a c = Less)"
  by (auto simp: compare_version_cmp cmp_reverse)

theorem compare_version_linear_witness:
  "compare_version (Version 1 0 0 [''9'']) (Version 1 0 0 [''99999999999'']) = Less \<and>
   compare_version (Version 1 0 0 [''99999999999'']) (release 1 0 0) = Less \<and>
   compare_version (Version 1 0 0 [''9'']) (release 1 0 0) = Less"
proof -
  have "compare_version (Version 1 0 0 [''9'']) (Version 1 0 0 [''99999999999'']) = Less"
    and "compare_version (Version 1 0 0 [''99999999999'']) (release 1 0 0) = Less"
    by code_simp+
  then show ?thesis
    using compare_version_linear
      [of "Version 1 0 0 [''9'']" "Version 1 0 0 [''99999999999'']" "release 1 0 0"]
    by blast
qed

text \<open>
  Printing a version and parsing the text with \<open>Version::parse\<close> gives the version back, for
  every version whose prerelease parts are valid prerelease identifiers.
\<close>

theorem parse_version_render:
  assumes "list_all is_prerelease_identifier (prerelease v)"
  shows "parse_version (render_version v) = Some v"
proof -
  define core where
    "core = join_with ''.'' (map (\<lambda>n. print_decimal (unat n)) [major v, minor v, patch v])"
  define pre where "pre = join_with ''.'' (prerelease v)"
  have core_free: "CHR ''-'' \<notin> set core" "CHR ''+'' \<notin> set core"
    using digits_free print_decimal_digits by (auto simp: core_def)
  have parts_free: "\<forall>p \<in> set (prerelease v). CHR ''.'' \<notin> set p \<and> CHR ''+'' \<notin> set p"
    using assms prerelease_identifier_free by (auto simp: list_all_iff)
  then have pre_free: "CHR ''+'' \<notin> set pre"
    using set_join_with [of "''.''" "prerelease v"] by (auto simp: pre_def)
  note quals = split_qualifiers_render [OF core_free pre_free]
  show ?thesis
  proof (cases "prerelease v = []")
    case True
    then have "parse_version core = Some (Version (major v) (minor v) (patch v) (prerelease v))"
      using assms quals(1) by (intro parse_version_core [OF _ core_def]) auto
    then have "parse_version core = Some v"
      by (simp only: version.collapse)
    with True show ?thesis
      by (simp add: render_version_def core_def)
  next
    case False
    have "split_on CHR ''.'' pre = prerelease v"
      unfolding pre_def using False parts_free by (intro split_on_join) auto
    then have "parse_version (core @ CHR ''-'' # pre) =
        Some (Version (major v) (minor v) (patch v) (prerelease v))"
      using assms quals(2) by (intro parse_version_core [OF _ core_def]) auto
    then have "parse_version (core @ CHR ''-'' # pre) = Some v"
      by (simp only: version.collapse)
    with False show ?thesis
      by (simp add: render_version_def core_def pre_def)
  qed
qed

theorem parse_version_render_witness:
  "render_version (Version 7 0 2 [''dev'', ''20260101'']) = ''7.0.2-dev.20260101'' \<and>
   parse_version (render_version (Version 7 0 2 [''dev'', ''20260101''])) =
     Some (Version 7 0 2 [''dev'', ''20260101''])"
proof -
  have "list_all is_prerelease_identifier (prerelease (Version 7 0 2 [''dev'', ''20260101'']))"
    by code_simp
  moreover have "render_version (Version 7 0 2 [''dev'', ''20260101'']) = ''7.0.2-dev.20260101''"
    by code_simp
  ultimately show ?thesis
    using parse_version_render [of "Version 7 0 2 [''dev'', ''20260101'']"] by simp
qed

text \<open>
  A partial version such as \<open>1\<close>, \<open>1.2\<close> or \<open>1.2.x\<close>, bare or after \<open>=\<close>, accepts exactly the
  versions that agree with it on the components it gives, prereleases included, as long as
  the last given component is not the largest 32-bit number.
\<close>

theorem x_range_exact:
  assumes "parse_partial t = Some p" and "\<not> major_is_wildcard p"
    and "minor_is_wildcard p \<or> patch_is_wildcard p"
    and "(if minor_is_wildcard p then major (pv_version p) else minor (pv_version p)) \<noteq> -1"
    and "op = [] \<or> op = ''=''"
  shows "\<exists>cs. parse_comparator op t = Some cs \<and>
    (\<forall>v. satisfies v cs \<longleftrightarrow>
      major v = major (pv_version p) \<and>
      (minor_is_wildcard p \<or> minor v = minor (pv_version p)))"
proof (cases "minor_is_wildcard p")
  case True
  with assms have zero: "minor (pv_version p) = 0" "patch (pv_version p) = 0"
    using partial_major by blast+
  have "parse_comparator op t = Some
    [\<lparr>operator = OpGreaterEqual, operand = with_prerelease_zero (pv_version p)\<rparr>,
     \<lparr>operator = OpLess, operand = with_prerelease_zero (increment_major (pv_version p))\<rparr>]"
    using assms True by (auto simp: parse_comparator_def Let_def)
  with True assms(4) zero show ?thesis
    by (auto simp: not_less_prerelease_zero less_with_prerelease_zero core_triple_def
        increment_major_def release_def u32_less_Suc)
next
  case False
  with assms have zero: "patch (pv_version p) = 0"
    using partial_minor by blast
  have "parse_comparator op t = Some
    [\<lparr>operator = OpGreaterEqual, operand = with_prerelease_zero (pv_version p)\<rparr>,
     \<lparr>operator = OpLess, operand = with_prerelease_zero (increment_minor (pv_version p))\<rparr>]"
    using assms False by (auto simp: parse_comparator_def Let_def)
  with False assms(4) zero show ?thesis
    by (auto simp: not_less_prerelease_zero less_with_prerelease_zero core_triple_def
        increment_minor_def release_def u32_less_Suc)
qed

theorem x_range_exact_witness:
  "\<exists>cs. parse_comparator [] ''1.2.x'' = Some cs \<and>
     (\<forall>v. satisfies v cs \<longleftrightarrow> major v = 1 \<and> minor v = 2)"
proof -
  have p: "parse_partial ''1.2.x'' = Some \<lparr>pv_version = release 1 2 0, major_is_wildcard = False,
      minor_is_wildcard = False, patch_is_wildcard = True\<rparr>"
    by code_simp
  from x_range_exact [OF p, of "[]"] show ?thesis
    by (simp add: release_def)
qed

text \<open>
  A caret range with a positive major number accepts exactly the versions from its operand on
  that have the same major number, and also the prereleases of the next major release (the upper
  bound is \<open>M+1.0.0\<close> with no prerelease).
\<close>

theorem caret_range_window:
  assumes "parse_partial t = Some p" and "\<not> major_is_wildcard p"
    and "0 < major (pv_version p)" and "major (pv_version p) \<noteq> -1"
  shows "\<exists>cs. parse_comparator ''^'' t = Some cs \<and>
    (\<forall>v. satisfies v cs \<longleftrightarrow> pv_version p \<le> v \<and> below_next_major (pv_version p) v)"
proof -
  have "satisfies v cs \<longleftrightarrow> pv_version p \<le> v \<and> below_next_major (pv_version p) v"
    if "cs = [\<lparr>operator = OpGreaterEqual, operand = pv_version p\<rparr>,
      \<lparr>operator = OpLess, operand = increment_major (pv_version p)\<rparr>]" for v cs
    using that assms(4) le_version_major [of "pv_version p" v]
    by (auto simp: less_increment_major below_next_major_def)
  with assms show ?thesis
    by (simp add: parse_comparator_def Let_def)
qed

theorem caret_range_window_witness:
  "\<exists>cs. parse_comparator ''^'' ''7.0.1'' = Some cs \<and>
     (\<forall>v. satisfies v cs \<longleftrightarrow> release 7 0 1 \<le> v \<and> below_next_major (release 7 0 1) v)"
proof -
  have p: "parse_partial ''7.0.1'' = Some \<lparr>pv_version = release 7 0 1, major_is_wildcard = False,
      minor_is_wildcard = False, patch_is_wildcard = False\<rparr>"
    by code_simp
  from caret_range_window [OF p] show ?thesis
    by (simp add: release_def)
qed

text \<open>
  At the largest 32-bit major number the increment wraps to zero, so a caret range there
  accepts no version at all, not even its own operand.
\<close>

theorem caret_range_wraps:
  assumes "parse_partial t = Some p" and "\<not> major_is_wildcard p" and "major (pv_version p) = -1"
  shows "\<exists>cs. parse_comparator ''^'' t = Some cs \<and> (\<forall>v. \<not> satisfies v cs)"
proof -
  have "\<not> satisfies v [\<lparr>operator = OpGreaterEqual, operand = pv_version p\<rparr>,
      \<lparr>operator = OpLess, operand = increment_major (pv_version p)\<rparr>]" for v
    using le_version_major [of "pv_version p" v] assms(3)
    by (auto simp: less_release increment_major_def release_def core_triple_def)
  moreover have "(0::u32) < -1"
    by (simp flip: word_neq_0_conv)
  ultimately show ?thesis
    using assms by (simp add: parse_comparator_def Let_def)
qed

theorem caret_range_wraps_witness:
  "\<exists>cs. parse_comparator ''^'' ''4294967295.0.0'' = Some cs \<and> (\<forall>v. \<not> satisfies v cs)"
proof -
  have p: "parse_partial ''4294967295.0.0'' = Some \<lparr>pv_version = release (-1) 0 0,
      major_is_wildcard = False, minor_is_wildcard = False, patch_is_wildcard = False\<rparr>"
    by code_simp
  show ?thesis
    by (rule caret_range_wraps [OF p]) (simp_all add: release_def)
qed

end
