(* ===== verification/Program_Caches.thy ===== *)
theory Program_Caches
  imports Prelude
begin

text \<open>
  The six program-wide resolution caches of the checker and their serial operations
  (\<open>crates/surge-ts-checker/src/infer/types/cache\<close>), the keys they are indexed by
  (\<open>context/resolution_keys.rs\<close>, \<open>context/interface_keys.rs\<close>) and the 64-bit conflict digests
  of those keys (\<open>crates/surge-ts-types/src/fx.rs\<close>, \<open>speculative/mod.rs\<close>).

  \<^item> The type \<open>'t\<close> stands for \<open>surge_ts_types::Type\<close> and \<open>'f\<close> for \<open>FunctionType\<close>; equality on
    them is the \<open>PartialEq\<close> the buckets compare argument vectors with. The digest of a type,
    \<open>type_conflict_digest\<close>, is an argument of the definitions that use it.
  \<^item> A bucketed cache (\<open>FxHashMap<DeclarationResolutionKey, Vec<Entry>>\<close>) is a function to the
    bucket: an absent key and a present empty bucket both read as the empty list, which no
    operation distinguishes. A flat cache is a partial map.
  \<^item> \<open>Arc\<close> and the cache mutexes are transparent; the branches for a poisoned lock are not
    modelled.
\<close>

unbundle bit_operations_syntax

type_synonym u64 = "64 word"

section \<open>The hasher\<close>

definition SEED :: u64 where
  "SEED = 0x517cc1b727220a95"

text \<open>\<open>u64::rotate_left\<close>: the two shifted parts have no bit in common, so exclusive or joins
  them.\<close>

definition rotate_left :: "nat \<Rightarrow> u64 \<Rightarrow> u64" where
  "rotate_left n x = push_bit n x XOR drop_bit (64 - n) x"

lemma rotate_left_word_rotl:
  assumes "n < 64"
  shows "rotate_left n x = word_rotl n x"
proof (rule bit_word_eqI)
  fix m assume "m < LENGTH(64)"
  then have m: "m < 64" by simp
  have high: "\<not> bit x k" if "64 \<le> k" for k using that bit_imp_le_length[of x k] by auto
  show "bit (rotate_left n x) m = bit (word_rotl n x) m"
  proof (cases "n \<le> m")
    case True
    then have "m + 64 - n = (m - n) + 64" by simp
    then have "(m + 64 - n) mod 64 = m - n" using m by (simp only: mod_add_self2) simp
    then show ?thesis using True m assms high[of "64 + m - n"]
      by (simp add: rotate_left_def bit_xor_iff bit_push_bit_iff bit_drop_bit_eq bit_word_rotl_iff)
  next
    case False
    then have "(m + 64 - n) mod 64 = 64 - n + m" using m assms by simp
    then show ?thesis using False m assms
      by (simp add: rotate_left_def bit_xor_iff bit_push_bit_iff bit_drop_bit_eq bit_word_rotl_iff)
  qed
qed

definition add_to_hash :: "u64 \<Rightarrow> u64 \<Rightarrow> u64" where
  "add_to_hash hash word = (rotate_left 5 hash XOR word) * SEED"

fun from_le_bytes :: "string \<Rightarrow> u64" where
  "from_le_bytes [] = 0"
| "from_le_bytes (b # bs) = of_char b + 256 * from_le_bytes bs"

fun write_words :: "u64 \<Rightarrow> string \<Rightarrow> u64 \<times> string" where
  "write_words hash bytes =
     (if 8 \<le> length bytes
      then write_words (add_to_hash hash (from_le_bytes (take 8 bytes))) (drop 8 bytes)
      else (hash, bytes))"

declare write_words.simps [simp del]

definition write_part :: "nat \<Rightarrow> u64 \<times> string \<Rightarrow> u64 \<times> string" where
  "write_part n s =
     (if n \<le> length (snd s)
      then (add_to_hash (fst s) (from_le_bytes (take n (snd s))), drop n (snd s)) else s)"

definition fx_write :: "u64 \<Rightarrow> string \<Rightarrow> u64" where
  "fx_write hash bytes = fst (write_part 1 (write_part 2 (write_part 4 (write_words hash bytes))))"

section \<open>Keys\<close>

datatype declaration_namespace =
  TypeNamespace | TypeSignatureContext | PlaceholderInstantiation

record declaration_resolution_key =
  dk_file_name :: rstr
  dk_name :: rstr
  dk_namespace :: declaration_namespace
  dk_fingerprint :: u64

record stable_interface_declaration_fragment_id =
  fragment_canonical_file :: rstr
  fragment_declaration_start :: u32

record stable_interface_declaration_id =
  canonical_file :: rstr
  declaration_start :: u32
  declaration_name :: rstr
  merged_fragments :: "stable_interface_declaration_fragment_id list"

record interface_environment_identity =
  no_lib :: bool
  skip_lib_check :: bool
  environment_discriminator :: u64

record interface_instantiation_key =
  ik_declaration :: stable_interface_declaration_id
  ik_substitution :: u64
  ik_environment :: interface_environment_identity

datatype interface_member_declaration_kind = PropertyMember | MethodMember

record stable_interface_member_declaration_id =
  member_containing_interface :: stable_interface_declaration_id
  member_canonical_file :: rstr
  member_declaration_start :: u32
  member_declaration_kind :: interface_member_declaration_kind
  member_declared_name :: rstr
  member_overload_index :: u32

record interface_member_instantiation_key =
  mk_member :: stable_interface_member_declaration_id
  mk_substitution :: u64
  mk_environment :: interface_environment_identity

record interface_overload_instantiation_key =
  ok_containing_interface :: stable_interface_declaration_id
  ok_ordered_members :: "stable_interface_member_declaration_id list"
  ok_prefix_len :: u32
  ok_substitution :: u64
  ok_environment :: interface_environment_identity

record interface_member_declaration_template =
  mt_declaration :: stable_interface_member_declaration_id
  mt_overload_group :: "u32 option"
  mt_overload_position :: u32

record interface_declaration_template =
  template_members :: "interface_member_declaration_template list"
  template_method_groups :: "stable_interface_member_declaration_id list list"

section \<open>Hashing the keys\<close>

text \<open>\<open>derive(Hash)\<close> hashes the fields in declaration order: a string as its bytes followed by
  \<open>0xff\<close>, an enumeration as its discriminant, a slice as its length followed by its elements.\<close>

definition hash_str :: "rstr \<Rightarrow> u64 \<Rightarrow> u64" where
  "hash_str s h = add_to_hash (fx_write h s) 0xff"

definition hash_bool :: "bool \<Rightarrow> u64 \<Rightarrow> u64" where
  "hash_bool b h = add_to_hash h (if b then 1 else 0)"

definition hash_u32 :: "u32 \<Rightarrow> u64 \<Rightarrow> u64" where
  "hash_u32 x h = add_to_hash h (ucast x)"

definition hash_u64 :: "u64 \<Rightarrow> u64 \<Rightarrow> u64" where
  "hash_u64 x h = add_to_hash h x"

definition hash_slice :: "('a \<Rightarrow> u64 \<Rightarrow> u64) \<Rightarrow> 'a list \<Rightarrow> u64 \<Rightarrow> u64" where
  "hash_slice f xs h = fold f xs (add_to_hash h (of_nat (length xs)))"

definition hash_namespace :: "declaration_namespace \<Rightarrow> u64 \<Rightarrow> u64" where
  "hash_namespace n h = add_to_hash h
     (case n of TypeNamespace \<Rightarrow> 0 | TypeSignatureContext \<Rightarrow> 1 | PlaceholderInstantiation \<Rightarrow> 2)"

definition hash_member_kind :: "interface_member_declaration_kind \<Rightarrow> u64 \<Rightarrow> u64" where
  "hash_member_kind m h = add_to_hash h (case m of PropertyMember \<Rightarrow> 0 | MethodMember \<Rightarrow> 1)"

definition hash_resolution_key :: "declaration_resolution_key \<Rightarrow> u64 \<Rightarrow> u64" where
  "hash_resolution_key k h =
     hash_u64 (dk_fingerprint k) (hash_namespace (dk_namespace k) (hash_str (dk_name k)
       (hash_str (dk_file_name k) h)))"

definition hash_fragment_id :: "stable_interface_declaration_fragment_id \<Rightarrow> u64 \<Rightarrow> u64" where
  "hash_fragment_id k h =
     hash_u32 (fragment_declaration_start k) (hash_str (fragment_canonical_file k) h)"

definition hash_declaration_id :: "stable_interface_declaration_id \<Rightarrow> u64 \<Rightarrow> u64" where
  "hash_declaration_id k h =
     hash_slice hash_fragment_id (merged_fragments k) (hash_str (declaration_name k) (hash_u32
       (declaration_start k) (hash_str (canonical_file k) h)))"

definition hash_environment :: "interface_environment_identity \<Rightarrow> u64 \<Rightarrow> u64" where
  "hash_environment e h =
     hash_u64 (environment_discriminator e) (hash_bool (skip_lib_check e) (hash_bool (no_lib e)
       h))"

definition hash_instantiation_key :: "interface_instantiation_key \<Rightarrow> u64 \<Rightarrow> u64" where
  "hash_instantiation_key k h =
     hash_environment (ik_environment k) (hash_u64 (ik_substitution k) (hash_declaration_id
       (ik_declaration k) h))"

definition hash_member_id :: "stable_interface_member_declaration_id \<Rightarrow> u64 \<Rightarrow> u64" where
  "hash_member_id k h =
     hash_u32 (member_overload_index k) (hash_str (member_declared_name k) (hash_member_kind
       (member_declaration_kind k) (hash_u32 (member_declaration_start k) (hash_str
       (member_canonical_file k) (hash_declaration_id (member_containing_interface k) h)))))"

definition hash_member_key :: "interface_member_instantiation_key \<Rightarrow> u64 \<Rightarrow> u64" where
  "hash_member_key k h =
     hash_environment (mk_environment k) (hash_u64 (mk_substitution k) (hash_member_id
       (mk_member k) h))"

definition hash_overload_key :: "interface_overload_instantiation_key \<Rightarrow> u64 \<Rightarrow> u64" where
  "hash_overload_key k h =
     hash_environment (ok_environment k) (hash_u64 (ok_substitution k) (hash_u32 (ok_prefix_len
       k) (hash_slice hash_member_id (ok_ordered_members k) (hash_declaration_id
       (ok_containing_interface k) h))))"

definition TAG_GENERIC :: u64 where "TAG_GENERIC = 0"
definition TAG_INSTANTIATION :: u64 where "TAG_INSTANTIATION = 1"
definition TAG_PHYSICAL :: u64 where "TAG_PHYSICAL = 2"
definition TAG_TEMPLATE :: u64 where "TAG_TEMPLATE = 3"
definition TAG_METHOD :: u64 where "TAG_METHOD = 4"
definition TAG_OVERLOAD :: u64 where "TAG_OVERLOAD = 5"

definition digest_flat :: "('k \<Rightarrow> u64 \<Rightarrow> u64) \<Rightarrow> u64 \<Rightarrow> 'k \<Rightarrow> u64" where
  "digest_flat hash_key tag key = hash_key key (add_to_hash 0 tag)"

definition digest_bucket ::
    "('t \<Rightarrow> u64) \<Rightarrow> u64 \<Rightarrow> declaration_resolution_key \<Rightarrow> 't list \<Rightarrow> u64" where
  "digest_bucket type_conflict_digest tag key arguments =
     fold (\<lambda>argument. hash_u64 (type_conflict_digest argument)) arguments
       (add_to_hash (hash_resolution_key key (add_to_hash 0 tag)) (of_nat (length arguments)))"

section \<open>Caches\<close>

record 't generic_entry =
  generic_arguments :: "'t list"
  generic_ty :: 't
  generic_had_error :: bool

record 't inst_entry =
  inst_arguments :: "'t list"
  inst_resolved :: 't

record ('t, 'f) caches =
  c_generic :: "declaration_resolution_key \<Rightarrow> 't generic_entry list"
  c_instantiations :: "declaration_resolution_key \<Rightarrow> 't inst_entry list"
  c_physical :: "interface_instantiation_key \<rightharpoonup> 't"
  c_templates :: "stable_interface_declaration_id \<rightharpoonup> interface_declaration_template"
  c_methods :: "interface_member_instantiation_key \<rightharpoonup> 'f"
  c_overloads :: "interface_overload_instantiation_key \<rightharpoonup> 'f"

definition empty_caches :: "('t, 'f) caches" where
  "empty_caches = \<lparr>c_generic = (\<lambda>_. []), c_instantiations = (\<lambda>_. []), c_physical = Map.empty,
     c_templates = Map.empty, c_methods = Map.empty, c_overloads = Map.empty\<rparr>"

text \<open>\<open>bucket.iter().find(|entry| entry.arguments == arguments)\<close> and
  \<open>bucket.push(entry)\<close> on the bucket of a key.\<close>

abbreviation find_generic :: "'t list \<Rightarrow> 't generic_entry list \<Rightarrow> 't generic_entry option" where
  "find_generic arguments bucket \<equiv> List.find (\<lambda>entry. generic_arguments entry = arguments) bucket"

abbreviation find_inst :: "'t list \<Rightarrow> 't inst_entry list \<Rightarrow> 't inst_entry option" where
  "find_inst arguments bucket \<equiv> List.find (\<lambda>entry. inst_arguments entry = arguments) bucket"

definition push_at :: "'k \<Rightarrow> 'e \<Rightarrow> ('k \<Rightarrow> 'e list) \<Rightarrow> 'k \<Rightarrow> 'e list" where
  "push_at key entry m = m(key := m key @ [entry])"

definition get_persistent_generic_resolution ::
    "('t, 'f) caches \<Rightarrow> declaration_resolution_key \<Rightarrow> 't list \<Rightarrow> ('t \<times> bool) option" where
  "get_persistent_generic_resolution c key arguments =
     map_option (\<lambda>entry. (generic_ty entry, generic_had_error entry))
       (find_generic arguments (c_generic c key))"

definition cache_persistent_generic_resolution ::
    "nat \<Rightarrow> declaration_resolution_key \<Rightarrow> 't list \<Rightarrow> 't \<Rightarrow> bool \<Rightarrow> ('t, 'f) caches \<Rightarrow> ('t, 'f) caches"
where
  "cache_persistent_generic_resolution cap key arguments ty had_error c =
     (if find_generic arguments (c_generic c key) \<noteq> None then c
      else if cap \<le> length (c_generic c key) then c
      else c\<lparr>c_generic := push_at key \<lparr>generic_arguments = arguments, generic_ty = ty,
               generic_had_error = had_error\<rparr> (c_generic c)\<rparr>)"

text \<open>The self-reference guard of \<open>intern_instantiation\<close> reads the structural type as a
  reference; \<open>as_reference\<close> gives the nominal id and the arguments of a \<open>Type::Reference\<close>.\<close>

definition self_reference ::
    "('t \<Rightarrow> (rstr \<times> 't list) option) \<Rightarrow> declaration_resolution_key \<Rightarrow> 't list \<Rightarrow> 't \<Rightarrow> bool"
where
  "self_reference as_reference key arguments structural =
     (case as_reference structural of
        None \<Rightarrow> False
      | Some (rid, rargs) \<Rightarrow>
          rargs = arguments
          \<and> length rid = length (dk_file_name key) + 1 + length (dk_name key)
          \<and> starts_with rid (dk_file_name key)
          \<and> ends_with rid (dk_name key))"

definition intern_instantiation ::
    "('t \<Rightarrow> (rstr \<times> 't list) option) \<Rightarrow> nat \<Rightarrow> declaration_resolution_key \<Rightarrow> 't list \<Rightarrow> 't
      \<Rightarrow> ('t, 'f) caches \<Rightarrow> 't \<times> ('t, 'f) caches"
where
  "intern_instantiation as_reference cap key arguments structural c =
     (if self_reference as_reference key arguments structural then (structural, c)
      else case find_inst arguments (c_instantiations c key) of
        Some entry \<Rightarrow> (inst_resolved entry, c)
      | None \<Rightarrow>
          (if length (c_instantiations c key) < cap
           then (structural, c\<lparr>c_instantiations :=
                   push_at key \<lparr>inst_arguments = arguments, inst_resolved = structural\<rparr>
                     (c_instantiations c)\<rparr>)
           else (structural, c)))"

definition lookup_instantiation ::
    "('t, 'f) caches \<Rightarrow> declaration_resolution_key \<Rightarrow> 't list \<Rightarrow> 't inst_entry option" where
  "lookup_instantiation c key arguments = find_inst arguments (c_instantiations c key)"

datatype 't instantiation_probe_result = ProbeHit "'t inst_entry" | ProbeMiss | ProbeDeferred

definition lookup_instantiation_probe ::
    "('t, 'f) caches \<Rightarrow> declaration_resolution_key \<Rightarrow> 't list \<Rightarrow> 't instantiation_probe_result" where
  "lookup_instantiation_probe c key arguments =
     (case find_inst arguments (c_instantiations c key) of
        Some entry \<Rightarrow> ProbeHit entry | None \<Rightarrow> ProbeMiss)"

definition lookup_physical_interface_instantiation ::
    "('t, 'f) caches \<Rightarrow> interface_instantiation_key \<Rightarrow> 't option" where
  "lookup_physical_interface_instantiation c key = c_physical c key"

definition intern_physical_interface_instantiation ::
    "interface_instantiation_key \<Rightarrow> 't \<Rightarrow> ('t, 'f) caches \<Rightarrow> 't \<times> ('t, 'f) caches" where
  "intern_physical_interface_instantiation key resolved c =
     (case c_physical c key of
        Some existing \<Rightarrow> (existing, c)
      | None \<Rightarrow> (resolved, c\<lparr>c_physical := (c_physical c)(key \<mapsto> resolved)\<rparr>))"

definition lookup_interface_template ::
    "('t, 'f) caches \<Rightarrow> stable_interface_declaration_id \<Rightarrow> interface_declaration_template option" where
  "lookup_interface_template c key = c_templates c key"

definition intern_interface_template ::
    "stable_interface_declaration_id \<Rightarrow> interface_declaration_template \<Rightarrow> ('t, 'f) caches
      \<Rightarrow> interface_declaration_template \<times> ('t, 'f) caches" where
  "intern_interface_template key template c =
     (case c_templates c key of
        Some existing \<Rightarrow> (existing, c)
      | None \<Rightarrow> (template, c\<lparr>c_templates := (c_templates c)(key \<mapsto> template)\<rparr>))"

definition lookup_physical_interface_method ::
    "('t, 'f) caches \<Rightarrow> interface_member_instantiation_key \<Rightarrow> 'f option" where
  "lookup_physical_interface_method c key = c_methods c key"

definition intern_physical_interface_method ::
    "interface_member_instantiation_key \<Rightarrow> 'f \<Rightarrow> ('t, 'f) caches \<Rightarrow> 'f \<times> ('t, 'f) caches" where
  "intern_physical_interface_method key function c =
     (case c_methods c key of
        Some existing \<Rightarrow> (existing, c)
      | None \<Rightarrow> (function, c\<lparr>c_methods := (c_methods c)(key \<mapsto> function)\<rparr>))"

definition lookup_physical_interface_overload ::
    "('t, 'f) caches \<Rightarrow> interface_overload_instantiation_key \<Rightarrow> 'f option" where
  "lookup_physical_interface_overload c key = c_overloads c key"

definition intern_physical_interface_overload ::
    "interface_overload_instantiation_key \<Rightarrow> 'f \<Rightarrow> ('t, 'f) caches \<Rightarrow> 'f \<times> ('t, 'f) caches" where
  "intern_physical_interface_overload key function c =
     (case c_overloads c key of
        Some existing \<Rightarrow> (existing, c)
      | None \<Rightarrow> (function, c\<lparr>c_overloads := (c_overloads c)(key \<mapsto> function)\<rparr>))"

section \<open>Cached values under one key type\<close>

text \<open>The six caches seen as one map: \<open>cache_key\<close> names an entry of any of them, \<open>cached\<close> reads it
  and \<open>cache_digest\<close> is the conflict digest the speculative checker records for it.\<close>

datatype 't cache_key =
    KGeneric declaration_resolution_key "'t list"
  | KInst declaration_resolution_key "'t list"
  | KPhysical interface_instantiation_key
  | KTemplate stable_interface_declaration_id
  | KMethod interface_member_instantiation_key
  | KOverload interface_overload_instantiation_key

datatype ('t, 'f) cache_value =
    VGeneric 't bool
  | VInst 't
  | VPhysical 't
  | VTemplate interface_declaration_template
  | VFunction 'f

fun cached :: "('t, 'f) caches \<Rightarrow> 't cache_key \<Rightarrow> ('t, 'f) cache_value option" where
  "cached c (KGeneric key arguments) =
     map_option (\<lambda>e. VGeneric (generic_ty e) (generic_had_error e))
       (find_generic arguments (c_generic c key))"
| "cached c (KInst key arguments) =
     map_option (\<lambda>e. VInst (inst_resolved e)) (find_inst arguments (c_instantiations c key))"
| "cached c (KPhysical key) = map_option VPhysical (c_physical c key)"
| "cached c (KTemplate key) = map_option VTemplate (c_templates c key)"
| "cached c (KMethod key) = map_option VFunction (c_methods c key)"
| "cached c (KOverload key) = map_option VFunction (c_overloads c key)"

fun cache_digest :: "('t \<Rightarrow> u64) \<Rightarrow> 't cache_key \<Rightarrow> u64" where
  "cache_digest tcd (KGeneric key arguments) = digest_bucket tcd TAG_GENERIC key arguments"
| "cache_digest tcd (KInst key arguments) = digest_bucket tcd TAG_INSTANTIATION key arguments"
| "cache_digest tcd (KPhysical key) = digest_flat hash_instantiation_key TAG_PHYSICAL key"
| "cache_digest tcd (KTemplate key) = digest_flat hash_declaration_id TAG_TEMPLATE key"
| "cache_digest tcd (KMethod key) = digest_flat hash_member_key TAG_METHOD key"
| "cache_digest tcd (KOverload key) = digest_flat hash_overload_key TAG_OVERLOAD key"

end
