(* ===== verification/Reservations.thy ===== *)
theory Reservations
  imports Program_Caches
begin

text \<open>
  The publisher-stamped reservation table of the replay walk
  (\<open>crates/surge-ts-checker/src/speculative/reservation.rs\<close>): which serial position intends to
  publish which cache key, and whether a replay at position \<open>k\<close> that misses a key has to defer.

  A \<open>FxHashMap<K, Vec<V>>\<close> is an association list; \<open>entry(key).or_default()\<close> followed by an
  update of the bucket is \<open>entry_update\<close>. Positions are \<open>nat\<close>.
\<close>

datatype reservation_state = Pending | Ready | Cancelled

record reservation =
  r_publisher :: nat
  r_attempt :: u64
  r_state :: reservation_state
  r_version :: u64

datatype reservation_lookup = NoReservation | Deferred nat u64

fun visibility_loop :: "nat \<Rightarrow> reservation option \<Rightarrow> reservation list \<Rightarrow> reservation option" where
  "visibility_loop k best [] = best"
| "visibility_loop k best (r # rs) =
     (if k \<le> r_publisher r \<or> r_state r \<noteq> Pending then visibility_loop k best rs
      else visibility_loop k
        (case best of
           Some current \<Rightarrow> if r_publisher current \<le> r_publisher r then Some current else Some r
         | None \<Rightarrow> Some r) rs)"

definition reservation_visibility :: "reservation list \<Rightarrow> nat \<Rightarrow> reservation_lookup" where
  "reservation_visibility reservations k =
     (case visibility_loop k None reservations of
        Some r \<Rightarrow> Deferred (r_publisher r) (r_attempt r)
      | None \<Rightarrow> NoReservation)"

type_synonym ('k, 'v) bucket_map = "('k \<times> 'v list) list"

fun entry_update :: "'k \<Rightarrow> ('v list \<Rightarrow> 'v list) \<Rightarrow> ('k, 'v) bucket_map \<Rightarrow> ('k, 'v) bucket_map" where
  "entry_update key f [] = [(key, f [])]"
| "entry_update key f ((k, b) # m) =
     (if k = key then (k, f b) # m else (k, b) # entry_update key f m)"

fun bucket_of :: "('k, 'v) bucket_map \<Rightarrow> 'k \<Rightarrow> 'v list" where
  "bucket_of [] key = []"
| "bucket_of ((k, b) # m) key = (if k = key then b else bucket_of m key)"

record 't reservation_table =
  t_generic :: "(declaration_resolution_key, 't list \<times> reservation) bucket_map"
  t_instantiations :: "(declaration_resolution_key, 't list \<times> reservation) bucket_map"
  t_physical :: "(interface_instantiation_key, reservation) bucket_map"
  t_templates :: "(stable_interface_declaration_id, reservation) bucket_map"
  t_methods :: "(interface_member_instantiation_key, reservation) bucket_map"
  t_overloads :: "(interface_overload_instantiation_key, reservation) bucket_map"
  t_pending :: nat
  t_peak_pending :: nat

definition new_table :: "'t reservation_table" where
  "new_table = \<lparr>t_generic = [], t_instantiations = [], t_physical = [], t_templates = [],
     t_methods = [], t_overloads = [], t_pending = 0, t_peak_pending = 0\<rparr>"

definition pending_reservation :: "nat \<Rightarrow> u64 \<Rightarrow> reservation" where
  "pending_reservation publisher attempt =
     \<lparr>r_publisher = publisher, r_attempt = attempt, r_state = Pending, r_version = 0\<rparr>"

text \<open>The helpers thread the pair \<open>(pending, peak)\<close> of the two counters they update.\<close>

definition count_pending :: "nat \<times> nat \<Rightarrow> nat \<times> nat" where
  "count_pending counts = (fst counts + 1, max (snd counts) (fst counts + 1))"

definition reserve_bucketed ::
    "('k, 't list \<times> reservation) bucket_map \<Rightarrow> 'k \<Rightarrow> 't list \<Rightarrow> nat \<Rightarrow> u64 \<Rightarrow> nat \<times> nat
      \<Rightarrow> ('k, 't list \<times> reservation) bucket_map \<times> nat \<times> nat" where
  "reserve_bucketed m key arguments publisher attempt counts =
     (if \<exists>(existing, r) \<in> set (bucket_of m key). existing = arguments \<and> r_publisher r = publisher
      then (entry_update key id m, counts)
      else (entry_update key (\<lambda>b. b @ [(arguments, pending_reservation publisher attempt)]) m,
            count_pending counts))"

definition query_bucketed ::
    "('k, 't list \<times> reservation) bucket_map \<Rightarrow> 'k \<Rightarrow> 't list \<Rightarrow> nat \<Rightarrow> reservation_lookup" where
  "query_bucketed m key arguments k =
     reservation_visibility (map snd (filter (\<lambda>(existing, _). existing = arguments) (bucket_of m key))) k"

definition reserve_flat ::
    "('k, reservation) bucket_map \<Rightarrow> 'k \<Rightarrow> nat \<Rightarrow> u64 \<Rightarrow> nat \<times> nat
      \<Rightarrow> ('k, reservation) bucket_map \<times> nat \<times> nat" where
  "reserve_flat m key publisher attempt counts =
     (if \<exists>r \<in> set (bucket_of m key). r_publisher r = publisher
      then (entry_update key id m, counts)
      else (entry_update key (\<lambda>b. b @ [pending_reservation publisher attempt]) m,
            count_pending counts))"

definition query_flat :: "('k, reservation) bucket_map \<Rightarrow> 'k \<Rightarrow> nat \<Rightarrow> reservation_lookup" where
  "query_flat m key k = reservation_visibility (bucket_of m key) k"

definition transitions :: "nat \<Rightarrow> reservation \<Rightarrow> bool" where
  "transitions publisher r \<longleftrightarrow> r_publisher r = publisher \<and> r_state r = Pending"

definition transition_one :: "nat \<Rightarrow> reservation_state \<Rightarrow> u64 \<Rightarrow> reservation \<Rightarrow> reservation" where
  "transition_one publisher to version r =
     (if transitions publisher r then r\<lparr>r_state := to, r_version := version\<rparr> else r)"

fun transition_slot ::
    "nat \<Rightarrow> reservation_state \<Rightarrow> u64 \<Rightarrow> reservation list \<Rightarrow> nat \<Rightarrow> reservation list \<times> nat" where
  "transition_slot publisher to version [] pending = ([], pending)"
| "transition_slot publisher to version (r # rs) pending =
     (let pending' = (if transitions publisher r then pending - 1 else pending);
          (rs', pending'') = transition_slot publisher to version rs pending'
      in (transition_one publisher to version r # rs', pending''))"

fun transition_flat ::
    "('k, reservation) bucket_map \<Rightarrow> nat \<Rightarrow> reservation_state \<Rightarrow> u64 \<Rightarrow> nat
      \<Rightarrow> ('k, reservation) bucket_map \<times> nat" where
  "transition_flat [] publisher to version pending = ([], pending)"
| "transition_flat ((k, slot) # m) publisher to version pending =
     (let (slot', pending') = transition_slot publisher to version slot pending;
          (m', pending'') = transition_flat m publisher to version pending'
      in ((k, slot') # m', pending''))"

fun transition_bucket ::
    "nat \<Rightarrow> reservation_state \<Rightarrow> u64 \<Rightarrow> ('t list \<times> reservation) list \<Rightarrow> nat
      \<Rightarrow> ('t list \<times> reservation) list \<times> nat" where
  "transition_bucket publisher to version [] pending = ([], pending)"
| "transition_bucket publisher to version ((a, r) # rs) pending =
     (let pending' = (if transitions publisher r then pending - 1 else pending);
          (rs', pending'') = transition_bucket publisher to version rs pending'
      in ((a, transition_one publisher to version r) # rs', pending''))"

fun transition_bucketed ::
    "('k, 't list \<times> reservation) bucket_map \<Rightarrow> nat \<Rightarrow> reservation_state \<Rightarrow> u64 \<Rightarrow> nat
      \<Rightarrow> ('k, 't list \<times> reservation) bucket_map \<times> nat" where
  "transition_bucketed [] publisher to version pending = ([], pending)"
| "transition_bucketed ((k, slot) # m) publisher to version pending =
     (let (slot', pending') = transition_bucket publisher to version slot pending;
          (m', pending'') = transition_bucketed m publisher to version pending'
      in ((k, slot') # m', pending''))"

abbreviation t_counts :: "'t reservation_table \<Rightarrow> nat \<times> nat" where
  "t_counts t \<equiv> (t_pending t, t_peak_pending t)"

definition reserve_generic ::
    "declaration_resolution_key \<Rightarrow> 't list \<Rightarrow> nat \<Rightarrow> u64 \<Rightarrow> 't reservation_table \<Rightarrow> 't reservation_table"
where
  "reserve_generic key arguments publisher attempt t =
     (let (m, pending, peak) = reserve_bucketed (t_generic t) key arguments publisher attempt (t_counts t)
      in t\<lparr>t_generic := m, t_pending := pending, t_peak_pending := peak\<rparr>)"

definition query_generic ::
    "'t reservation_table \<Rightarrow> declaration_resolution_key \<Rightarrow> 't list \<Rightarrow> nat \<Rightarrow> reservation_lookup" where
  "query_generic t key arguments k = query_bucketed (t_generic t) key arguments k"

definition reserve_instantiation ::
    "declaration_resolution_key \<Rightarrow> 't list \<Rightarrow> nat \<Rightarrow> u64 \<Rightarrow> 't reservation_table \<Rightarrow> 't reservation_table"
where
  "reserve_instantiation key arguments publisher attempt t =
     (let (m, pending, peak) =
        reserve_bucketed (t_instantiations t) key arguments publisher attempt (t_counts t)
      in t\<lparr>t_instantiations := m, t_pending := pending, t_peak_pending := peak\<rparr>)"

definition query_instantiation ::
    "'t reservation_table \<Rightarrow> declaration_resolution_key \<Rightarrow> 't list \<Rightarrow> nat \<Rightarrow> reservation_lookup" where
  "query_instantiation t key arguments k = query_bucketed (t_instantiations t) key arguments k"

definition reserve_physical ::
    "interface_instantiation_key \<Rightarrow> nat \<Rightarrow> u64 \<Rightarrow> 't reservation_table \<Rightarrow> 't reservation_table" where
  "reserve_physical key publisher attempt t =
     (let (m, pending, peak) = reserve_flat (t_physical t) key publisher attempt (t_counts t)
      in t\<lparr>t_physical := m, t_pending := pending, t_peak_pending := peak\<rparr>)"

definition query_physical ::
    "'t reservation_table \<Rightarrow> interface_instantiation_key \<Rightarrow> nat \<Rightarrow> reservation_lookup" where
  "query_physical t key k = query_flat (t_physical t) key k"

definition reserve_template ::
    "stable_interface_declaration_id \<Rightarrow> nat \<Rightarrow> u64 \<Rightarrow> 't reservation_table \<Rightarrow> 't reservation_table" where
  "reserve_template key publisher attempt t =
     (let (m, pending, peak) = reserve_flat (t_templates t) key publisher attempt (t_counts t)
      in t\<lparr>t_templates := m, t_pending := pending, t_peak_pending := peak\<rparr>)"

definition query_template ::
    "'t reservation_table \<Rightarrow> stable_interface_declaration_id \<Rightarrow> nat \<Rightarrow> reservation_lookup" where
  "query_template t key k = query_flat (t_templates t) key k"

definition reserve_method ::
    "interface_member_instantiation_key \<Rightarrow> nat \<Rightarrow> u64 \<Rightarrow> 't reservation_table \<Rightarrow> 't reservation_table"
where
  "reserve_method key publisher attempt t =
     (let (m, pending, peak) = reserve_flat (t_methods t) key publisher attempt (t_counts t)
      in t\<lparr>t_methods := m, t_pending := pending, t_peak_pending := peak\<rparr>)"

definition query_method ::
    "'t reservation_table \<Rightarrow> interface_member_instantiation_key \<Rightarrow> nat \<Rightarrow> reservation_lookup" where
  "query_method t key k = query_flat (t_methods t) key k"

definition reserve_overload ::
    "interface_overload_instantiation_key \<Rightarrow> nat \<Rightarrow> u64 \<Rightarrow> 't reservation_table \<Rightarrow> 't reservation_table"
where
  "reserve_overload key publisher attempt t =
     (let (m, pending, peak) = reserve_flat (t_overloads t) key publisher attempt (t_counts t)
      in t\<lparr>t_overloads := m, t_pending := pending, t_peak_pending := peak\<rparr>)"

definition query_overload ::
    "'t reservation_table \<Rightarrow> interface_overload_instantiation_key \<Rightarrow> nat \<Rightarrow> reservation_lookup" where
  "query_overload t key k = query_flat (t_overloads t) key k"

definition transition ::
    "nat \<Rightarrow> reservation_state \<Rightarrow> u64 \<Rightarrow> 't reservation_table \<Rightarrow> 't reservation_table" where
  "transition publisher to version t =
     (let (g, p1) = transition_bucketed (t_generic t) publisher to version (t_pending t);
          (i, p2) = transition_bucketed (t_instantiations t) publisher to version p1;
          (ph, p3) = transition_flat (t_physical t) publisher to version p2;
          (te, p4) = transition_flat (t_templates t) publisher to version p3;
          (me, p5) = transition_flat (t_methods t) publisher to version p4;
          (ov, p6) = transition_flat (t_overloads t) publisher to version p5
      in t\<lparr>t_generic := g, t_instantiations := i, t_physical := ph, t_templates := te,
           t_methods := me, t_overloads := ov, t_pending := p6\<rparr>)"

definition finalize :: "nat \<Rightarrow> u64 \<Rightarrow> 't reservation_table \<Rightarrow> 't reservation_table" where
  "finalize publisher version t = transition publisher Ready version t"

definition cancel :: "nat \<Rightarrow> 't reservation_table \<Rightarrow> 't reservation_table" where
  "cancel publisher t = transition publisher Cancelled 0 t"

definition clear_table :: "'t reservation_table \<Rightarrow> 't reservation_table" where
  "clear_table t = t\<lparr>t_generic := [], t_instantiations := [], t_physical := [], t_templates := [],
     t_methods := [], t_overloads := [], t_pending := 0, t_peak_pending := 0\<rparr>"

end
