(* ===== verification/Sessions.thy ===== *)
theory Sessions
  imports Reservations
begin

text \<open>
  One worker's speculative view of the six caches
  (\<open>crates/surge-ts-checker/src/speculative/session.rs\<close> and \<open>file_log.rs\<close>): the private overlay,
  the transaction log of the file being checked, and every cache operation of \<open>CheckSession\<close>.

  \<^item> A base read returns the contents of the base at that moment: the immutable snapshot of a
    worker, or the live maps of a recheck or replay. Each operation takes a \<open>session_env\<close>, the base
    contents and, for a deferring replay, the reservation table and the position, as it finds them;
    \<open>instantiation_intern\<close> takes two, because it reads the base twice.
  \<^item> \<open>worker_overlay\<close> carries two values the source keeps beside it: \<open>o_max_deferred\<close>, the
    \<open>max_deferred\<close> of the deferral context (\<open>-1\<close> before any deferral), and \<open>o_capped\<close>, the
    session's share of the counters \<open>generic_type_cache_capped_count\<close> and
    \<open>instantiation_intern_capped_count\<close>. The remaining counters are measurement only.
\<close>

record ('t, 'f) file_cache_log =
  l_file_index :: nat
  l_misses :: "u64 set"
  l_overlay_deps :: "nat set"
  l_generic_inserts :: "(declaration_resolution_key \<times> 't generic_entry \<times> u64) list"
  l_instantiation_inserts :: "(declaration_resolution_key \<times> 't inst_entry \<times> u64) list"
  l_physical_inserts :: "(interface_instantiation_key \<times> 't \<times> u64) list"
  l_template_inserts :: "(stable_interface_declaration_id \<times> interface_declaration_template \<times> u64) list"
  l_method_inserts :: "(interface_member_instantiation_key \<times> 'f \<times> u64) list"
  l_overload_inserts :: "(interface_overload_instantiation_key \<times> 'f \<times> u64) list"

definition empty_log :: "nat \<Rightarrow> ('t, 'f) file_cache_log" where
  "empty_log file_index = \<lparr>l_file_index = file_index, l_misses = {}, l_overlay_deps = {},
     l_generic_inserts = [], l_instantiation_inserts = [], l_physical_inserts = [],
     l_template_inserts = [], l_method_inserts = [], l_overload_inserts = []\<rparr>"

definition reserve_into ::
    "('t, 'f) file_cache_log \<Rightarrow> nat \<Rightarrow> u64 \<Rightarrow> 't reservation_table \<Rightarrow> 't reservation_table" where
  "reserve_into log publisher attempt t =
     (let t1 = fold (\<lambda>(key, entry, _). reserve_generic key (generic_arguments entry) publisher attempt)
                 (l_generic_inserts log) t;
          t2 = fold (\<lambda>(key, entry, _). reserve_instantiation key (inst_arguments entry) publisher attempt)
                 (l_instantiation_inserts log) t1;
          t3 = fold (\<lambda>(key, _, _). reserve_physical key publisher attempt) (l_physical_inserts log) t2;
          t4 = fold (\<lambda>(key, _, _). reserve_template key publisher attempt) (l_template_inserts log) t3;
          t5 = fold (\<lambda>(key, _, _). reserve_method key publisher attempt) (l_method_inserts log) t4
      in fold (\<lambda>(key, _, _). reserve_overload key publisher attempt) (l_overload_inserts log) t5)"

definition insert_digests :: "('t, 'f) file_cache_log \<Rightarrow> u64 list" where
  "insert_digests log =
     map (snd \<circ> snd) (l_generic_inserts log) @ map (snd \<circ> snd) (l_instantiation_inserts log)
     @ map (snd \<circ> snd) (l_physical_inserts log) @ map (snd \<circ> snd) (l_template_inserts log)
     @ map (snd \<circ> snd) (l_method_inserts log) @ map (snd \<circ> snd) (l_overload_inserts log)"

record ('t, 'f) worker_overlay =
  o_generic :: "declaration_resolution_key \<Rightarrow> (nat \<times> 't generic_entry) list"
  o_instantiations :: "declaration_resolution_key \<Rightarrow> (nat \<times> 't inst_entry) list"
  o_physical :: "interface_instantiation_key \<rightharpoonup> nat \<times> 't"
  o_templates :: "stable_interface_declaration_id \<rightharpoonup> nat \<times> interface_declaration_template"
  o_methods :: "interface_member_instantiation_key \<rightharpoonup> nat \<times> 'f"
  o_overloads :: "interface_overload_instantiation_key \<rightharpoonup> nat \<times> 'f"
  o_deferred_once :: "u64 set"
  o_current :: "('t, 'f) file_cache_log"
  o_current_active :: bool
  o_finished :: "('t, 'f) file_cache_log list"
  o_max_deferred :: int
  o_capped :: nat

definition new_overlay :: "('t, 'f) worker_overlay" where
  "new_overlay = \<lparr>o_generic = (\<lambda>_. []), o_instantiations = (\<lambda>_. []), o_physical = Map.empty,
     o_templates = Map.empty, o_methods = Map.empty, o_overloads = Map.empty, o_deferred_once = {},
     o_current = empty_log 0, o_current_active = False, o_finished = [], o_max_deferred = -1,
     o_capped = 0\<rparr>"

definition record_dep :: "nat \<Rightarrow> ('t, 'f) worker_overlay \<Rightarrow> ('t, 'f) worker_overlay" where
  "record_dep inserting_file s =
     (if inserting_file \<noteq> l_file_index (o_current s)
      then s\<lparr>o_current := (o_current s)\<lparr>l_overlay_deps := insert inserting_file (l_overlay_deps (o_current s))\<rparr>\<rparr>
      else s)"

definition record_miss :: "u64 \<Rightarrow> ('t, 'f) worker_overlay \<Rightarrow> ('t, 'f) worker_overlay" where
  "record_miss digest s =
     s\<lparr>o_current := (o_current s)\<lparr>l_misses := insert digest (l_misses (o_current s))\<rparr>\<rparr>"

record ('t, 'f) session_env =
  e_base :: "('t, 'f) caches"
  e_defer :: "('t reservation_table \<times> nat) option"

definition defer_check ::
    "('t reservation_table \<Rightarrow> nat \<Rightarrow> reservation_lookup) \<Rightarrow> ('t, 'f) session_env
      \<Rightarrow> ('t, 'f) worker_overlay \<Rightarrow> nat option \<times> ('t, 'f) worker_overlay" where
  "defer_check query env s =
     (case e_defer env of
        None \<Rightarrow> (None, s)
      | Some (table, position) \<Rightarrow>
          (case query table position of
             Deferred publisher attempt \<Rightarrow>
               (Some publisher, s\<lparr>o_max_deferred := max (o_max_deferred s) (int publisher)\<rparr>)
           | NoReservation \<Rightarrow> (None, s)))"

definition deferred_until :: "('t, 'f) worker_overlay \<Rightarrow> nat option" where
  "deferred_until s = (if 0 \<le> o_max_deferred s then Some (nat (o_max_deferred s)) else None)"

definition begin_file :: "nat \<Rightarrow> ('t, 'f) worker_overlay \<Rightarrow> ('t, 'f) worker_overlay" where
  "begin_file file_index s =
     (let s' = (if o_current_active s then s\<lparr>o_finished := o_finished s @ [o_current s]\<rparr> else s)
      in s'\<lparr>o_current := empty_log file_index, o_current_active := True\<rparr>)"

definition take_file_logs ::
    "('t, 'f) worker_overlay \<Rightarrow> ('t, 'f) file_cache_log list \<times> ('t, 'f) worker_overlay" where
  "take_file_logs s =
     (let s' = (if o_current_active s
                then s\<lparr>o_finished := o_finished s @ [o_current s], o_current := empty_log 0,
                       o_current_active := False\<rparr>
                else s)
      in (o_finished s', s'\<lparr>o_finished := []\<rparr>))"

section \<open>Base reads\<close>

definition base_generic_hit ::
    "('t, 'f) session_env \<Rightarrow> declaration_resolution_key \<Rightarrow> 't list \<Rightarrow> ('t \<times> bool) option" where
  "base_generic_hit env key arguments =
     map_option (\<lambda>e. (generic_ty e, generic_had_error e))
       (find_generic arguments (c_generic (e_base env) key))"

definition base_generic_probe ::
    "('t, 'f) session_env \<Rightarrow> declaration_resolution_key \<Rightarrow> 't list \<Rightarrow> bool \<times> nat" where
  "base_generic_probe env key arguments =
     (let bucket = c_generic (e_base env) key
      in (\<exists>e \<in> set bucket. generic_arguments e = arguments, length bucket))"

definition base_instantiation_entry ::
    "('t, 'f) session_env \<Rightarrow> declaration_resolution_key \<Rightarrow> 't list \<Rightarrow> 't inst_entry option" where
  "base_instantiation_entry env key arguments =
     find_inst arguments (c_instantiations (e_base env) key)"

definition base_instantiation_len :: "('t, 'f) session_env \<Rightarrow> declaration_resolution_key \<Rightarrow> nat" where
  "base_instantiation_len env key = length (c_instantiations (e_base env) key)"

definition base_physical :: "('t, 'f) session_env \<Rightarrow> interface_instantiation_key \<Rightarrow> 't option" where
  "base_physical env key = c_physical (e_base env) key"

definition base_template ::
    "('t, 'f) session_env \<Rightarrow> stable_interface_declaration_id \<Rightarrow> interface_declaration_template option" where
  "base_template env key = c_templates (e_base env) key"

definition base_method ::
    "('t, 'f) session_env \<Rightarrow> interface_member_instantiation_key \<Rightarrow> 'f option" where
  "base_method env key = c_methods (e_base env) key"

definition base_overload ::
    "('t, 'f) session_env \<Rightarrow> interface_overload_instantiation_key \<Rightarrow> 'f option" where
  "base_overload env key = c_overloads (e_base env) key"

section \<open>Bucketed caches\<close>

definition generic_lookup ::
    "('t \<Rightarrow> u64) \<Rightarrow> ('t, 'f) session_env \<Rightarrow> declaration_resolution_key \<Rightarrow> 't list
      \<Rightarrow> ('t, 'f) worker_overlay \<Rightarrow> ('t \<times> bool) option \<times> ('t, 'f) worker_overlay" where
  "generic_lookup tcd env key arguments s =
     (case base_generic_hit env key arguments of
        Some hit \<Rightarrow> (Some hit, s)
      | None \<Rightarrow>
          (case List.find (\<lambda>(_, e). generic_arguments e = arguments) (o_generic s key) of
             Some (file, e) \<Rightarrow> (Some (generic_ty e, generic_had_error e), record_dep file s)
           | None \<Rightarrow>
               (let digest = digest_bucket tcd TAG_GENERIC key arguments;
                    s1 = record_miss digest s
                in (None, snd (defer_check (\<lambda>t k. query_generic t key arguments k) env s1)))))"

definition generic_insert ::
    "('t \<Rightarrow> u64) \<Rightarrow> nat \<Rightarrow> ('t, 'f) session_env \<Rightarrow> declaration_resolution_key \<Rightarrow> 't list \<Rightarrow> 't \<Rightarrow> bool
      \<Rightarrow> ('t, 'f) worker_overlay \<Rightarrow> ('t, 'f) worker_overlay" where
  "generic_insert tcd cap env key arguments ty had_error s =
     (let (base_exists, base_len) = base_generic_probe env key arguments
      in if base_exists then s
         else if \<exists>(_, e) \<in> set (o_generic s key). generic_arguments e = arguments then s
         else
           (let digest = digest_bucket tcd TAG_GENERIC key arguments;
                s1 = record_miss digest s;
                overlay_len = length (o_generic s1 key)
            in if cap \<le> base_len + overlay_len then s1\<lparr>o_capped := o_capped s1 + 1\<rparr>
               else
                 (let e = \<lparr>generic_arguments = arguments, generic_ty = ty,
                           generic_had_error = had_error\<rparr>;
                      file_index = l_file_index (o_current s1)
                  in s1\<lparr>o_current := (o_current s1)\<lparr>l_generic_inserts :=
                            l_generic_inserts (o_current s1) @ [(key, e, digest)]\<rparr>,
                         o_generic := push_at key (file_index, e) (o_generic s1)\<rparr>)))"

definition instantiation_intern ::
    "('t \<Rightarrow> u64) \<Rightarrow> nat \<Rightarrow> ('t, 'f) session_env \<Rightarrow> ('t, 'f) session_env \<Rightarrow> declaration_resolution_key
      \<Rightarrow> 't list \<Rightarrow> 't \<Rightarrow> ('t, 'f) worker_overlay \<Rightarrow> 't \<times> ('t, 'f) worker_overlay" where
  "instantiation_intern tcd cap env env' key arguments structural s =
     (case base_instantiation_entry env key arguments of
        Some e \<Rightarrow> (inst_resolved e, s)
      | None \<Rightarrow>
          (let base_len = base_instantiation_len env' key
           in case List.find (\<lambda>(_, e). inst_arguments e = arguments) (o_instantiations s key) of
                Some (file, e) \<Rightarrow> (inst_resolved e, record_dep file s)
              | None \<Rightarrow>
                  (let digest = digest_bucket tcd TAG_INSTANTIATION key arguments;
                       s1 = record_miss digest s;
                       overlay_len = length (o_instantiations s1 key)
                   in if base_len + overlay_len < cap
                      then (let e = \<lparr>inst_arguments = arguments, inst_resolved = structural\<rparr>;
                                file_index = l_file_index (o_current s1)
                            in (structural,
                                s1\<lparr>o_current := (o_current s1)\<lparr>l_instantiation_inserts :=
                                      l_instantiation_inserts (o_current s1) @ [(key, e, digest)]\<rparr>,
                                   o_instantiations := push_at key (file_index, e) (o_instantiations s1)\<rparr>))
                      else (structural, s1\<lparr>o_capped := o_capped s1 + 1\<rparr>))))"

definition instantiation_probe ::
    "('t \<Rightarrow> u64) \<Rightarrow> ('t, 'f) session_env \<Rightarrow> declaration_resolution_key \<Rightarrow> 't list
      \<Rightarrow> ('t, 'f) worker_overlay \<Rightarrow> 't instantiation_probe_result \<times> ('t, 'f) worker_overlay" where
  "instantiation_probe tcd env key arguments s =
     (case base_instantiation_entry env key arguments of
        Some e \<Rightarrow> (ProbeHit e, s)
      | None \<Rightarrow>
          (case List.find (\<lambda>(_, e). inst_arguments e = arguments) (o_instantiations s key) of
             Some (file, e) \<Rightarrow> (ProbeHit e, record_dep file s)
           | None \<Rightarrow>
               (let digest = digest_bucket tcd TAG_INSTANTIATION key arguments;
                    s1 = record_miss digest s
                in if digest \<in> o_deferred_once s1 then (ProbeMiss, s1)
                   else (case defer_check (\<lambda>t k. query_instantiation t key arguments k) env s1 of
                           (Some _, s2) \<Rightarrow>
                             (ProbeDeferred, s2\<lparr>o_deferred_once := insert digest (o_deferred_once s2)\<rparr>)
                         | (None, s2) \<Rightarrow> (ProbeMiss, s2)))))"

definition instantiation_lookup ::
    "('t \<Rightarrow> u64) \<Rightarrow> ('t, 'f) session_env \<Rightarrow> declaration_resolution_key \<Rightarrow> 't list
      \<Rightarrow> ('t, 'f) worker_overlay \<Rightarrow> 't inst_entry option \<times> ('t, 'f) worker_overlay" where
  "instantiation_lookup tcd env key arguments s =
     (case instantiation_probe tcd env key arguments s of
        (ProbeHit e, s') \<Rightarrow> (Some e, s')
      | (ProbeMiss, s') \<Rightarrow> (None, s')
      | (ProbeDeferred, s') \<Rightarrow> (None, s'))"

section \<open>Flat caches\<close>

definition physical_lookup ::
    "('t, 'f) session_env \<Rightarrow> interface_instantiation_key \<Rightarrow> ('t, 'f) worker_overlay
      \<Rightarrow> 't option \<times> ('t, 'f) worker_overlay" where
  "physical_lookup env key s =
     (case base_physical env key of
        Some resolved \<Rightarrow> (Some resolved, s)
      | None \<Rightarrow>
          (case o_physical s key of
             Some (file, resolved) \<Rightarrow> (Some resolved, record_dep file s)
           | None \<Rightarrow>
               (let s1 = record_miss (digest_flat hash_instantiation_key TAG_PHYSICAL key) s
                in (None, snd (defer_check (\<lambda>t k. query_physical t key k) env s1)))))"

definition physical_intern ::
    "('t, 'f) session_env \<Rightarrow> interface_instantiation_key \<Rightarrow> 't \<Rightarrow> ('t, 'f) worker_overlay
      \<Rightarrow> 't \<times> ('t, 'f) worker_overlay" where
  "physical_intern env key resolved s =
     (case base_physical env key of
        Some existing \<Rightarrow> (existing, s)
      | None \<Rightarrow>
          (case o_physical s key of
             Some (file, existing) \<Rightarrow> (existing, record_dep file s)
           | None \<Rightarrow>
               (let digest = digest_flat hash_instantiation_key TAG_PHYSICAL key;
                    s1 = record_miss digest s;
                    file_index = l_file_index (o_current s1)
                in (resolved,
                    s1\<lparr>o_current := (o_current s1)\<lparr>l_physical_inserts :=
                          l_physical_inserts (o_current s1) @ [(key, resolved, digest)]\<rparr>,
                       o_physical := (o_physical s1)(key \<mapsto> (file_index, resolved))\<rparr>))))"

definition template_lookup ::
    "('t, 'f) session_env \<Rightarrow> stable_interface_declaration_id \<Rightarrow> ('t, 'f) worker_overlay
      \<Rightarrow> interface_declaration_template option \<times> ('t, 'f) worker_overlay" where
  "template_lookup env key s =
     (case base_template env key of
        Some template \<Rightarrow> (Some template, s)
      | None \<Rightarrow>
          (case o_templates s key of
             Some (file, template) \<Rightarrow> (Some template, record_dep file s)
           | None \<Rightarrow>
               (let s1 = record_miss (digest_flat hash_declaration_id TAG_TEMPLATE key) s
                in (None, snd (defer_check (\<lambda>t k. query_template t key k) env s1)))))"

definition template_intern ::
    "('t, 'f) session_env \<Rightarrow> stable_interface_declaration_id \<Rightarrow> interface_declaration_template
      \<Rightarrow> ('t, 'f) worker_overlay \<Rightarrow> interface_declaration_template \<times> ('t, 'f) worker_overlay" where
  "template_intern env key template s =
     (case base_template env key of
        Some existing \<Rightarrow> (existing, s)
      | None \<Rightarrow>
          (case o_templates s key of
             Some (file, existing) \<Rightarrow> (existing, record_dep file s)
           | None \<Rightarrow>
               (let digest = digest_flat hash_declaration_id TAG_TEMPLATE key;
                    s1 = record_miss digest s;
                    file_index = l_file_index (o_current s1)
                in (template,
                    s1\<lparr>o_current := (o_current s1)\<lparr>l_template_inserts :=
                          l_template_inserts (o_current s1) @ [(key, template, digest)]\<rparr>,
                       o_templates := (o_templates s1)(key \<mapsto> (file_index, template))\<rparr>))))"

definition method_lookup ::
    "('t, 'f) session_env \<Rightarrow> interface_member_instantiation_key \<Rightarrow> ('t, 'f) worker_overlay
      \<Rightarrow> 'f option \<times> ('t, 'f) worker_overlay" where
  "method_lookup env key s =
     (case base_method env key of
        Some function \<Rightarrow> (Some function, s)
      | None \<Rightarrow>
          (case o_methods s key of
             Some (file, function) \<Rightarrow> (Some function, record_dep file s)
           | None \<Rightarrow>
               (let s1 = record_miss (digest_flat hash_member_key TAG_METHOD key) s
                in (None, snd (defer_check (\<lambda>t k. query_method t key k) env s1)))))"

definition method_intern ::
    "('t, 'f) session_env \<Rightarrow> interface_member_instantiation_key \<Rightarrow> 'f \<Rightarrow> ('t, 'f) worker_overlay
      \<Rightarrow> 'f \<times> ('t, 'f) worker_overlay" where
  "method_intern env key function s =
     (case base_method env key of
        Some existing \<Rightarrow> (existing, s)
      | None \<Rightarrow>
          (case o_methods s key of
             Some (file, existing) \<Rightarrow> (existing, record_dep file s)
           | None \<Rightarrow>
               (let digest = digest_flat hash_member_key TAG_METHOD key;
                    s1 = record_miss digest s;
                    file_index = l_file_index (o_current s1)
                in (function,
                    s1\<lparr>o_current := (o_current s1)\<lparr>l_method_inserts :=
                          l_method_inserts (o_current s1) @ [(key, function, digest)]\<rparr>,
                       o_methods := (o_methods s1)(key \<mapsto> (file_index, function))\<rparr>))))"

definition overload_lookup ::
    "('t, 'f) session_env \<Rightarrow> interface_overload_instantiation_key \<Rightarrow> ('t, 'f) worker_overlay
      \<Rightarrow> 'f option \<times> ('t, 'f) worker_overlay" where
  "overload_lookup env key s =
     (case base_overload env key of
        Some function \<Rightarrow> (Some function, s)
      | None \<Rightarrow>
          (case o_overloads s key of
             Some (file, function) \<Rightarrow> (Some function, record_dep file s)
           | None \<Rightarrow>
               (let s1 = record_miss (digest_flat hash_overload_key TAG_OVERLOAD key) s
                in (None, snd (defer_check (\<lambda>t k. query_overload t key k) env s1)))))"

definition overload_intern ::
    "('t, 'f) session_env \<Rightarrow> interface_overload_instantiation_key \<Rightarrow> 'f \<Rightarrow> ('t, 'f) worker_overlay
      \<Rightarrow> 'f \<times> ('t, 'f) worker_overlay" where
  "overload_intern env key function s =
     (case base_overload env key of
        Some existing \<Rightarrow> (existing, s)
      | None \<Rightarrow>
          (case o_overloads s key of
             Some (file, existing) \<Rightarrow> (existing, record_dep file s)
           | None \<Rightarrow>
               (let digest = digest_flat hash_overload_key TAG_OVERLOAD key;
                    s1 = record_miss digest s;
                    file_index = l_file_index (o_current s1)
                in (function,
                    s1\<lparr>o_current := (o_current s1)\<lparr>l_overload_inserts :=
                          l_overload_inserts (o_current s1) @ [(key, function, digest)]\<rparr>,
                       o_overloads := (o_overloads s1)(key \<mapsto> (file_index, function))\<rparr>))))"

end
