(* ===== verification/Commit.thy ===== *)
theory Commit
  imports Sessions
begin

text \<open>
  Validation and publication of the file logs
  (\<open>crates/surge-ts-checker/src/speculative/commit.rs\<close>), and the two scheduling hints computed from
  the worker logs, \<open>predict_conflicts\<close> and \<open>compute_submit_schedule\<close>.

  A \<open>usize::MAX\<close> entry of the submit schedule (\<open>not pre-replayed\<close>) is \<open>None\<close>. The digest sets of
  the source are HOL sets; \<open>FxHashMap<u64, usize>\<close> is a partial map.
\<close>

record stc_commit_stats =
  s_files :: nat
  s_clean_commits :: nat
  s_miss_conflicts :: nat
  s_dependency_conflicts :: nat
  s_published_entries :: nat
  s_merge_skipped_existing :: nat
  s_merge_cap_blocked :: nat

definition zero_stats :: stc_commit_stats where
  "zero_stats = \<lparr>s_files = 0, s_clean_commits = 0, s_miss_conflicts = 0, s_dependency_conflicts = 0,
     s_published_entries = 0, s_merge_skipped_existing = 0, s_merge_cap_blocked = 0\<rparr>"

datatype commit_verdict = Clean | MissConflict | DependencyConflict

section \<open>Publication\<close>

text \<open>The loop state shared by the six publication loops: the published digests, the statistics
  and whether every insertion so far was published.\<close>

record merge_state =
  m_published :: "u64 set"
  m_stats :: stc_commit_stats
  m_complete :: bool

definition merge_skip :: "merge_state \<Rightarrow> merge_state" where
  "merge_skip a = a\<lparr>m_stats := (m_stats a)\<lparr>s_merge_skipped_existing := s_merge_skipped_existing (m_stats a) + 1\<rparr>,
     m_complete := False\<rparr>"

definition merge_cap :: "merge_state \<Rightarrow> merge_state" where
  "merge_cap a = a\<lparr>m_stats := (m_stats a)\<lparr>s_merge_cap_blocked := s_merge_cap_blocked (m_stats a) + 1\<rparr>,
     m_complete := False\<rparr>"

definition merge_publish :: "u64 \<Rightarrow> merge_state \<Rightarrow> merge_state" where
  "merge_publish digest a =
     a\<lparr>m_published := insert digest (m_published a),
       m_stats := (m_stats a)\<lparr>s_published_entries := s_published_entries (m_stats a) + 1\<rparr>\<rparr>"

fun merge_bucketed ::
    "('e \<Rightarrow> 't list) \<Rightarrow> nat \<Rightarrow> ('k \<times> 'e \<times> u64) list \<Rightarrow> ('k \<Rightarrow> 'e list) \<Rightarrow> merge_state
      \<Rightarrow> ('k \<Rightarrow> 'e list) \<times> merge_state" where
  "merge_bucketed args cap [] cache a = (cache, a)"
| "merge_bucketed args cap ((key, entry, digest) # inserts) cache a =
     (if \<exists>existing \<in> set (cache key). args existing = args entry
      then merge_bucketed args cap inserts cache (merge_skip a)
      else if cap \<le> length (cache key)
      then merge_bucketed args cap inserts cache (merge_cap a)
      else merge_bucketed args cap inserts (push_at key entry cache) (merge_publish digest a))"

fun merge_flat ::
    "('k \<times> 'v \<times> u64) list \<Rightarrow> ('k \<rightharpoonup> 'v) \<Rightarrow> merge_state \<Rightarrow> ('k \<rightharpoonup> 'v) \<times> merge_state" where
  "merge_flat [] cache a = (cache, a)"
| "merge_flat ((key, v, digest) # inserts) cache a =
     (if cache key \<noteq> None then merge_flat inserts cache (merge_skip a)
      else merge_flat inserts (cache(key \<mapsto> v)) (merge_publish digest a))"

definition apply_file_log ::
    "nat \<Rightarrow> ('t, 'f) file_cache_log \<Rightarrow> ('t, 'f) caches \<Rightarrow> u64 set \<Rightarrow> stc_commit_stats
      \<Rightarrow> bool \<times> ('t, 'f) caches \<times> u64 set \<times> stc_commit_stats" where
  "apply_file_log cap log live published stats =
     (let a0 = \<lparr>m_published = published, m_stats = stats, m_complete = True\<rparr>;
          (g, a1) = merge_bucketed generic_arguments cap (l_generic_inserts log) (c_generic live) a0;
          (i, a2) = merge_bucketed inst_arguments cap (l_instantiation_inserts log)
                      (c_instantiations live) a1;
          (ph, a3) = merge_flat (l_physical_inserts log) (c_physical live) a2;
          (te, a4) = merge_flat (l_template_inserts log) (c_templates live) a3;
          (me, a5) = merge_flat (l_method_inserts log) (c_methods live) a4;
          (ov, a6) = merge_flat (l_overload_inserts log) (c_overloads live) a5
      in (m_complete a6,
          \<lparr>c_generic = g, c_instantiations = i, c_physical = ph, c_templates = te, c_methods = me,
           c_overloads = ov\<rparr>,
          m_published a6, m_stats a6))"

definition commit_file_log ::
    "nat \<Rightarrow> ('t, 'f) file_cache_log \<Rightarrow> nat set \<Rightarrow> ('t, 'f) caches \<Rightarrow> u64 set \<Rightarrow> stc_commit_stats
      \<Rightarrow> commit_verdict \<times> ('t, 'f) caches \<times> u64 set \<times> stc_commit_stats" where
  "commit_file_log cap log dirty_files live published stats =
     (let stats1 = stats\<lparr>s_files := s_files stats + 1\<rparr>
      in if l_misses log \<inter> published \<noteq> {}
         then (MissConflict, live, published,
               stats1\<lparr>s_miss_conflicts := s_miss_conflicts stats1 + 1\<rparr>)
         else if \<exists>file \<in> l_overlay_deps log. file \<in> dirty_files
         then (DependencyConflict, live, published,
               stats1\<lparr>s_dependency_conflicts := s_dependency_conflicts stats1 + 1\<rparr>)
         else
           (let (_, live', published', stats2) = apply_file_log cap log live published stats1
            in (Clean, live', published',
                stats2\<lparr>s_clean_commits := s_clean_commits stats2 + 1\<rparr>)))"

definition commit_replay_log ::
    "nat \<Rightarrow> ('t, 'f) file_cache_log \<Rightarrow> ('t, 'f) caches \<Rightarrow> u64 set \<Rightarrow> stc_commit_stats
      \<Rightarrow> bool \<times> ('t, 'f) caches \<times> u64 set \<times> stc_commit_stats" where
  "commit_replay_log cap log live published stats =
     (if l_misses log \<inter> published \<noteq> {} then (False, live, published, stats)
      else (let (_, live', published', stats') = apply_file_log cap log live published stats
            in (True, live', published', stats')))"

section \<open>Scheduling hints\<close>

fun predict_loop ::
    "nat \<Rightarrow> bool list \<Rightarrow> u64 set \<Rightarrow> ('t, 'f) file_cache_log option list \<Rightarrow> bool list" where
  "predict_loop index predicted earlier_inserts [] = predicted"
| "predict_loop index predicted earlier_inserts (None # logs) =
     predict_loop (index + 1) predicted earlier_inserts logs"
| "predict_loop index predicted earlier_inserts (Some log # logs) =
     (let miss_conflict = l_misses log \<inter> earlier_inserts \<noteq> {};
          dep_conflict = (\<exists>file \<in> l_overlay_deps log. predicted ! file)
      in predict_loop (index + 1) (predicted[index := miss_conflict \<or> dep_conflict])
           (earlier_inserts \<union> set (insert_digests log)) logs)"

definition predict_conflicts :: "('t, 'f) file_cache_log option list \<Rightarrow> bool list" where
  "predict_conflicts logs = predict_loop 0 (replicate (length logs) False) {} logs"

definition record_first_writer :: "nat \<Rightarrow> u64 \<Rightarrow> (u64 \<rightharpoonup> nat) \<Rightarrow> u64 \<rightharpoonup> nat" where
  "record_first_writer index digest first_writer =
     (if first_writer digest = None then first_writer(digest \<mapsto> index) else first_writer)"

text \<open>The producers of a position: the first writers of the digests it missed and its overlay
  producers, as far as they are earlier positions (\<open>set\<close> of \<open>compute_conflict_deps\<close>).\<close>

definition conflict_producers ::
    "nat \<Rightarrow> (u64 \<rightharpoonup> nat) \<Rightarrow> ('t, 'f) file_cache_log \<Rightarrow> nat set" where
  "conflict_producers index first_writer log =
     {producer \<in> (\<Union>digest \<in> l_misses log. set_option (first_writer digest)) \<union> l_overlay_deps log.
        producer < index}"

fun submit_loop ::
    "bool list \<Rightarrow> nat \<Rightarrow> nat option list \<Rightarrow> (u64 \<rightharpoonup> nat) \<Rightarrow> ('t, 'f) file_cache_log option list
      \<Rightarrow> nat option list" where
  "submit_loop predicted index submit_at first_writer [] = submit_at"
| "submit_loop predicted index submit_at first_writer (None # logs) =
     submit_loop predicted (index + 1) submit_at first_writer logs"
| "submit_loop predicted index submit_at first_writer (Some log # logs) =
     (let producers = conflict_producers index first_writer log;
          submit_at' =
            (if predicted ! index \<and> \<not> (\<exists>producer \<in> producers. predicted ! producer)
             then submit_at[index := Some (if producers = {} then 0 else Max producers + 1)]
             else submit_at)
      in submit_loop predicted (index + 1) submit_at'
           (fold (record_first_writer index) (insert_digests log) first_writer) logs)"

definition compute_submit_schedule :: "('t, 'f) file_cache_log option list \<Rightarrow> nat option list" where
  "compute_submit_schedule logs =
     submit_loop (predict_conflicts logs) 0 (replicate (length logs) None) Map.empty logs"

fun deps_loop ::
    "bool list \<Rightarrow> nat \<Rightarrow> nat set list \<Rightarrow> (u64 \<rightharpoonup> nat) \<Rightarrow> ('t, 'f) file_cache_log option list
      \<Rightarrow> nat set list" where
  "deps_loop predicted index deps first_writer [] = deps"
| "deps_loop predicted index deps first_writer (None # logs) =
     deps_loop predicted (index + 1) deps first_writer logs"
| "deps_loop predicted index deps first_writer (Some log # logs) =
     deps_loop predicted (index + 1)
       (if predicted ! index then deps[index := conflict_producers index first_writer log] else deps)
       (fold (record_first_writer index) (insert_digests log) first_writer) logs"

definition compute_conflict_deps :: "('t, 'f) file_cache_log option list \<Rightarrow> nat set list" where
  "compute_conflict_deps logs =
     deps_loop (predict_conflicts logs) 0 (replicate (length logs) {}) Map.empty logs"

end
