(* ===== verification/Checking.thy ===== *)
theory Checking
  imports Commit
begin

text \<open>
  Serial and speculative parallel checking of a program's files
  (\<open>crates/surge-ts-checker/src/program/check_files.rs\<close>, \<open>replay.rs\<close>).

  \<^item> The check of one file, \<open>check_program_file\<close>, is a \<open>prog\<close>: a tree whose nodes are the calls
    it makes on the six caches and whose branches are indexed by the answers it gets. Everything
    else it computes is a function of those answers.
  \<^item> \<open>serial_run\<close> answers the calls from the shared maps, \<open>session_run\<close> from a check session.
    The environment of a session is a function of time: each base read sees the base as it is at
    that moment, so every interleaving of a replay with the coordinator is a choice of it.
  \<^item> \<open>check_program_files_parallel\<close> is the whole parallel phase: the worker pass, in which \<open>assign\<close>
    says which worker's \<open>fetch_add\<close> obtained each file, and the commit walk in serial order.
    \<open>reads\<close> gives, for a base read of a replay, the number of positions committed when it happens.
    A cache call reads one map, and \<open>apply_file_log\<close> holds a map's lock for the whole of its merge,
    so what a call sees of a map is that map after a whole number of positions, although two calls
    that read different maps may see different numbers.
\<close>

section \<open>The check of one file\<close>

datatype ('t, 'f, 'r) prog =
    Done 'r
  | GenericLookup declaration_resolution_key "'t list" "('t \<times> bool) option \<Rightarrow> ('t, 'f, 'r) prog"
  | GenericInsert declaration_resolution_key "'t list" 't bool "('t, 'f, 'r) prog"
  | InstIntern declaration_resolution_key "'t list" 't "'t \<Rightarrow> ('t, 'f, 'r) prog"
  | InstLookup declaration_resolution_key "'t list" "'t inst_entry option \<Rightarrow> ('t, 'f, 'r) prog"
  | InstProbe declaration_resolution_key "'t list"
      "'t instantiation_probe_result \<Rightarrow> ('t, 'f, 'r) prog"
  | PhysicalLookup interface_instantiation_key "'t option \<Rightarrow> ('t, 'f, 'r) prog"
  | PhysicalIntern interface_instantiation_key 't "'t \<Rightarrow> ('t, 'f, 'r) prog"
  | TemplateLookup stable_interface_declaration_id
      "interface_declaration_template option \<Rightarrow> ('t, 'f, 'r) prog"
  | TemplateIntern stable_interface_declaration_id interface_declaration_template
      "interface_declaration_template \<Rightarrow> ('t, 'f, 'r) prog"
  | MethodLookup interface_member_instantiation_key "'f option \<Rightarrow> ('t, 'f, 'r) prog"
  | MethodIntern interface_member_instantiation_key 'f "'f \<Rightarrow> ('t, 'f, 'r) prog"
  | OverloadLookup interface_overload_instantiation_key "'f option \<Rightarrow> ('t, 'f, 'r) prog"
  | OverloadIntern interface_overload_instantiation_key 'f "'f \<Rightarrow> ('t, 'f, 'r) prog"

primrec serial_run ::
    "('t \<Rightarrow> (rstr \<times> 't list) option) \<Rightarrow> nat \<Rightarrow> ('t, 'f, 'r) prog \<Rightarrow> ('t, 'f) caches
      \<Rightarrow> 'r \<times> ('t, 'f) caches" where
  "serial_run ar cap (Done r) c = (r, c)"
| "serial_run ar cap (GenericLookup k a f) c =
     serial_run ar cap (f (get_persistent_generic_resolution c k a)) c"
| "serial_run ar cap (GenericInsert k a ty err p) c =
     serial_run ar cap p (cache_persistent_generic_resolution cap k a ty err c)"
| "serial_run ar cap (InstIntern k a ty f) c =
     (let (x, c') = intern_instantiation ar cap k a ty c in serial_run ar cap (f x) c')"
| "serial_run ar cap (InstLookup k a f) c = serial_run ar cap (f (lookup_instantiation c k a)) c"
| "serial_run ar cap (InstProbe k a f) c = serial_run ar cap (f (lookup_instantiation_probe c k a)) c"
| "serial_run ar cap (PhysicalLookup k f) c =
     serial_run ar cap (f (lookup_physical_interface_instantiation c k)) c"
| "serial_run ar cap (PhysicalIntern k v f) c =
     (let (x, c') = intern_physical_interface_instantiation k v c in serial_run ar cap (f x) c')"
| "serial_run ar cap (TemplateLookup k f) c = serial_run ar cap (f (lookup_interface_template c k)) c"
| "serial_run ar cap (TemplateIntern k v f) c =
     (let (x, c') = intern_interface_template k v c in serial_run ar cap (f x) c')"
| "serial_run ar cap (MethodLookup k f) c =
     serial_run ar cap (f (lookup_physical_interface_method c k)) c"
| "serial_run ar cap (MethodIntern k v f) c =
     (let (x, c') = intern_physical_interface_method k v c in serial_run ar cap (f x) c')"
| "serial_run ar cap (OverloadLookup k f) c =
     serial_run ar cap (f (lookup_physical_interface_overload c k)) c"
| "serial_run ar cap (OverloadIntern k v f) c =
     (let (x, c') = intern_physical_interface_overload k v c in serial_run ar cap (f x) c')"

text \<open>With an active session the same entry points route through it; the self-reference guard of
  \<open>intern_instantiation\<close> precedes the routing.\<close>

primrec session_run ::
    "('t \<Rightarrow> u64) \<Rightarrow> ('t \<Rightarrow> (rstr \<times> 't list) option) \<Rightarrow> nat \<Rightarrow> (nat \<Rightarrow> ('t, 'f) session_env)
      \<Rightarrow> ('t, 'f, 'r) prog \<Rightarrow> nat \<Rightarrow> ('t, 'f) worker_overlay \<Rightarrow> 'r \<times> ('t, 'f) worker_overlay" where
  "session_run tcd ar cap env (Done r) t s = (r, s)"
| "session_run tcd ar cap env (GenericLookup k a f) t s =
     (let (x, s') = generic_lookup tcd (env t) k a s in session_run tcd ar cap env (f x) (t + 1) s')"
| "session_run tcd ar cap env (GenericInsert k a ty err p) t s =
     session_run tcd ar cap env p (t + 1) (generic_insert tcd cap (env t) k a ty err s)"
| "session_run tcd ar cap env (InstIntern k a ty f) t s =
     (let (x, s') = (if self_reference ar k a ty then (ty, s)
                     else instantiation_intern tcd cap (env t) (env (t + 1)) k a ty s)
      in session_run tcd ar cap env (f x) (t + 2) s')"
| "session_run tcd ar cap env (InstLookup k a f) t s =
     (let (x, s') = instantiation_lookup tcd (env t) k a s
      in session_run tcd ar cap env (f x) (t + 1) s')"
| "session_run tcd ar cap env (InstProbe k a f) t s =
     (let (x, s') = instantiation_probe tcd (env t) k a s
      in session_run tcd ar cap env (f x) (t + 1) s')"
| "session_run tcd ar cap env (PhysicalLookup k f) t s =
     (let (x, s') = physical_lookup (env t) k s in session_run tcd ar cap env (f x) (t + 1) s')"
| "session_run tcd ar cap env (PhysicalIntern k v f) t s =
     (let (x, s') = physical_intern (env t) k v s in session_run tcd ar cap env (f x) (t + 1) s')"
| "session_run tcd ar cap env (TemplateLookup k f) t s =
     (let (x, s') = template_lookup (env t) k s in session_run tcd ar cap env (f x) (t + 1) s')"
| "session_run tcd ar cap env (TemplateIntern k v f) t s =
     (let (x, s') = template_intern (env t) k v s in session_run tcd ar cap env (f x) (t + 1) s')"
| "session_run tcd ar cap env (MethodLookup k f) t s =
     (let (x, s') = method_lookup (env t) k s in session_run tcd ar cap env (f x) (t + 1) s')"
| "session_run tcd ar cap env (MethodIntern k v f) t s =
     (let (x, s') = method_intern (env t) k v s in session_run tcd ar cap env (f x) (t + 1) s')"
| "session_run tcd ar cap env (OverloadLookup k f) t s =
     (let (x, s') = overload_lookup (env t) k s in session_run tcd ar cap env (f x) (t + 1) s')"
| "session_run tcd ar cap env (OverloadIntern k v f) t s =
     (let (x, s') = overload_intern (env t) k v s in session_run tcd ar cap env (f x) (t + 1) s')"

text \<open>The resolver consults the persistent generic cache before it fills it
  (\<open>infer/types/resolve/named.rs\<close>, lines 823 and 1133): every \<open>generic_insert\<close> of a check follows
  a \<open>generic_lookup\<close> of the same key and arguments.\<close>

primrec looks_before_inserting ::
    "(declaration_resolution_key \<times> 't list) set \<Rightarrow> ('t, 'f, 'r) prog \<Rightarrow> bool" where
  "looks_before_inserting seen (Done r) = True"
| "looks_before_inserting seen (GenericLookup k a f) =
     (\<forall>x. looks_before_inserting (insert (k, a) seen) (f x))"
| "looks_before_inserting seen (GenericInsert k a ty err p) =
     ((k, a) \<in> seen \<and> looks_before_inserting seen p)"
| "looks_before_inserting seen (InstIntern k a ty f) = (\<forall>x. looks_before_inserting seen (f x))"
| "looks_before_inserting seen (InstLookup k a f) = (\<forall>x. looks_before_inserting seen (f x))"
| "looks_before_inserting seen (InstProbe k a f) = (\<forall>x. looks_before_inserting seen (f x))"
| "looks_before_inserting seen (PhysicalLookup k f) = (\<forall>x. looks_before_inserting seen (f x))"
| "looks_before_inserting seen (PhysicalIntern k v f) = (\<forall>x. looks_before_inserting seen (f x))"
| "looks_before_inserting seen (TemplateLookup k f) = (\<forall>x. looks_before_inserting seen (f x))"
| "looks_before_inserting seen (TemplateIntern k v f) = (\<forall>x. looks_before_inserting seen (f x))"
| "looks_before_inserting seen (MethodLookup k f) = (\<forall>x. looks_before_inserting seen (f x))"
| "looks_before_inserting seen (MethodIntern k v f) = (\<forall>x. looks_before_inserting seen (f x))"
| "looks_before_inserting seen (OverloadLookup k f) = (\<forall>x. looks_before_inserting seen (f x))"
| "looks_before_inserting seen (OverloadIntern k v f) = (\<forall>x. looks_before_inserting seen (f x))"

section \<open>Serial checking\<close>

fun check_files_serial ::
    "('t \<Rightarrow> (rstr \<times> 't list) option) \<Rightarrow> nat \<Rightarrow> ('t, 'f, 'r) prog list \<Rightarrow> ('t, 'f) caches
      \<Rightarrow> 'r list \<times> ('t, 'f) caches" where
  "check_files_serial ar cap [] c = ([], c)"
| "check_files_serial ar cap (p # ps) c =
     (let (r, c1) = serial_run ar cap p c; (rs, c2) = check_files_serial ar cap ps c1
      in (r # rs, c2))"

section \<open>The worker pass\<close>

fun run_worker ::
    "('t \<Rightarrow> u64) \<Rightarrow> ('t \<Rightarrow> (rstr \<times> 't list) option) \<Rightarrow> nat \<Rightarrow> ('t, 'f) caches
      \<Rightarrow> ('t, 'f, 'r) prog list \<Rightarrow> nat list \<Rightarrow> ('t, 'f) worker_overlay
      \<Rightarrow> (nat \<times> 'r) list \<times> ('t, 'f) worker_overlay" where
  "run_worker tcd ar cap snapshot progs [] s = ([], s)"
| "run_worker tcd ar cap snapshot progs (i # is) s =
     (let (r, s1) = session_run tcd ar cap (\<lambda>_. \<lparr>e_base = snapshot, e_defer = None\<rparr>) (progs ! i) 0
                      (begin_file i s);
          (rs, s2) = run_worker tcd ar cap snapshot progs is s1
      in ((i, r) # rs, s2))"

definition worker_files :: "(nat \<Rightarrow> nat) \<Rightarrow> nat \<Rightarrow> nat \<Rightarrow> nat list" where
  "worker_files assign n w = filter (\<lambda>i. assign i = w) [0..<n]"

text \<open>One worker: its results, its file logs and its share of the capped counters.\<close>

definition worker_pass ::
    "('t \<Rightarrow> u64) \<Rightarrow> ('t \<Rightarrow> (rstr \<times> 't list) option) \<Rightarrow> nat \<Rightarrow> ('t, 'f) caches
      \<Rightarrow> ('t, 'f, 'r) prog list \<Rightarrow> nat list
      \<Rightarrow> (nat \<times> 'r) list \<times> ('t, 'f) file_cache_log list \<times> nat" where
  "worker_pass tcd ar cap snapshot progs files =
     (let (rs, s) = run_worker tcd ar cap snapshot progs files new_overlay;
          (logs, s') = take_file_logs s
      in (rs, logs, o_capped s'))"

section \<open>The commit walk\<close>

record ('t, 'f, 'r) walk =
  w_live :: "('t, 'f) caches"
  w_published :: "u64 set"
  w_dirty :: "nat set"
  w_stats :: stc_commit_stats
  w_slots :: "'r option list"
  w_logs :: "('t, 'f) file_cache_log option list"
  w_history :: "('t, 'f) caches list"
  w_capped :: nat

text \<open>\<open>w_history\<close> lists the committed states after \<open>0, 1, \<dots>\<close> positions, what a concurrent replay
  can read; \<open>w_capped\<close> is the total of the capped counters.\<close>

definition replay_env ::
    "('t, 'f) caches list \<Rightarrow> (nat \<Rightarrow> nat) \<Rightarrow> (nat \<Rightarrow> ('t reservation_table \<times> nat) option) \<Rightarrow> nat
      \<Rightarrow> ('t, 'f) session_env" where
  "replay_env history reads defers t =
     \<lparr>e_base = history ! min (reads t) (length history - 1), e_defer = defers t\<rparr>"

text \<open>A replay of position \<open>i\<close> on a pool thread: a fresh live-reading session. A deferred attempt
  is discarded (\<open>Delivered::Deferred\<close>), so the coordinator sees no replay.\<close>

definition replay_one ::
    "('t \<Rightarrow> u64) \<Rightarrow> ('t \<Rightarrow> (rstr \<times> 't list) option) \<Rightarrow> nat \<Rightarrow> (nat \<Rightarrow> ('t, 'f) session_env)
      \<Rightarrow> ('t, 'f, 'r) prog \<Rightarrow> nat \<Rightarrow> ('r \<times> ('t, 'f) file_cache_log \<times> nat) option" where
  "replay_one tcd ar cap env p i =
     (let (r, s) = session_run tcd ar cap env p 0 (begin_file i new_overlay)
      in case deferred_until s of
           Some publisher \<Rightarrow> None
         | None \<Rightarrow> (case rev (fst (take_file_logs s)) of
                       log # _ \<Rightarrow> Some (r, log, o_capped s)
                     | [] \<Rightarrow> Some (r, empty_log 0, o_capped s)))"

text \<open>The inline recheck against the live maps, and the publication of its logs.\<close>

definition apply_logs ::
    "nat \<Rightarrow> ('t, 'f) file_cache_log list \<Rightarrow> ('t, 'f) caches \<Rightarrow> u64 set \<Rightarrow> stc_commit_stats
      \<Rightarrow> ('t, 'f) caches \<times> u64 set \<times> stc_commit_stats" where
  "apply_logs cap logs live published stats =
     fold (\<lambda>log (live, published, stats). snd (apply_file_log cap log live published stats))
       logs (live, published, stats)"

definition recheck ::
    "('t \<Rightarrow> u64) \<Rightarrow> ('t \<Rightarrow> (rstr \<times> 't list) option) \<Rightarrow> nat \<Rightarrow> ('t, 'f, 'r) prog \<Rightarrow> nat
      \<Rightarrow> ('t, 'f, 'r) walk \<Rightarrow> ('t, 'f, 'r) walk" where
  "recheck tcd ar cap p i w =
     (let (r, s) = session_run tcd ar cap (\<lambda>_. \<lparr>e_base = w_live w, e_defer = None\<rparr>) p 0
                     (begin_file i new_overlay);
          (live, published, stats) =
            apply_logs cap (fst (take_file_logs s)) (w_live w) (w_published w) (w_stats w)
      in w\<lparr>w_live := live, w_published := published, w_stats := stats,
           w_slots := (w_slots w)[i := Some r], w_logs := (w_logs w)[i := None],
           w_capped := w_capped w + o_capped s\<rparr>)"

text \<open>The coordinator's step at the frontier position \<open>i\<close>: publish the worker's log if it
  validates; otherwise mark the position dirty and publish the replay if there is one and it
  validates, else recheck inline.\<close>

definition commit_conflicted ::
    "('t \<Rightarrow> u64) \<Rightarrow> ('t \<Rightarrow> (rstr \<times> 't list) option) \<Rightarrow> nat \<Rightarrow> ('t, 'f, 'r) prog \<Rightarrow> nat
      \<Rightarrow> ('r \<times> ('t, 'f) file_cache_log \<times> nat) option \<Rightarrow> ('t, 'f, 'r) walk \<Rightarrow> ('t, 'f, 'r) walk" where
  "commit_conflicted tcd ar cap p i replay w =
     (let w2 = w\<lparr>w_dirty := insert i (w_dirty w)\<rparr>
      in case replay of
           None \<Rightarrow> recheck tcd ar cap p i w2
         | Some (r, log, capped) \<Rightarrow>
             (let (ok, live, published, stats) =
                    commit_replay_log cap log (w_live w2) (w_published w2) (w_stats w2)
              in if ok
                 then w2\<lparr>w_live := live, w_published := published, w_stats := stats,
                         w_logs := (w_logs w2)[i := None],
                         w_slots := (w_slots w2)[i := Some r],
                         w_capped := w_capped w2 + capped\<rparr>
                 else recheck tcd ar cap p i w2))"

definition commit_position ::
    "('t \<Rightarrow> u64) \<Rightarrow> ('t \<Rightarrow> (rstr \<times> 't list) option) \<Rightarrow> nat \<Rightarrow> ('t, 'f, 'r) prog \<Rightarrow> nat
      \<Rightarrow> ('r \<times> ('t, 'f) file_cache_log \<times> nat) option \<Rightarrow> ('t, 'f, 'r) walk \<Rightarrow> ('t, 'f, 'r) walk" where
  "commit_position tcd ar cap p i replay w =
     (case w_logs w ! i of
        None \<Rightarrow> commit_conflicted tcd ar cap p i replay w
      | Some log \<Rightarrow>
          (let (verdict, live, published, stats) =
                 commit_file_log cap log (w_dirty w) (w_live w) (w_published w) (w_stats w);
               w1 = w\<lparr>w_logs := (w_logs w)[i := None], w_live := live, w_published := published,
                      w_stats := stats\<rparr>
           in if verdict = Clean then w1 else commit_conflicted tcd ar cap p i replay w1))"

record ('t, 'f) schedule_choice =
  ch_submitted :: "nat \<Rightarrow> bool"
  ch_reads :: "nat \<Rightarrow> nat \<Rightarrow> nat"
  ch_defers :: "nat \<Rightarrow> nat \<Rightarrow> ('t reservation_table \<times> nat) option"

definition frontier_step ::
    "('t \<Rightarrow> u64) \<Rightarrow> ('t \<Rightarrow> (rstr \<times> 't list) option) \<Rightarrow> nat \<Rightarrow> ('t, 'f, 'r) prog list
      \<Rightarrow> ('t, 'f) schedule_choice \<Rightarrow> nat \<Rightarrow> ('t, 'f, 'r) walk \<Rightarrow> ('t, 'f, 'r) walk" where
  "frontier_step tcd ar cap progs ch i w =
     (let replay = (if ch_submitted ch i
                    then replay_one tcd ar cap (replay_env (w_history w) (ch_reads ch i) (ch_defers ch i))
                           (progs ! i) i
                    else None);
          w' = commit_position tcd ar cap (progs ! i) i replay w
      in w'\<lparr>w_history := w_history w' @ [w_live w']\<rparr>)"

definition fill_slots :: "(nat \<times> 'a) list \<Rightarrow> 'a option list \<Rightarrow> 'a option list" where
  "fill_slots rs slots = fold (\<lambda>(i, r) sl. sl[i := Some r]) rs slots"

definition start_walk ::
    "('t \<Rightarrow> u64) \<Rightarrow> ('t \<Rightarrow> (rstr \<times> 't list) option) \<Rightarrow> nat \<Rightarrow> ('t, 'f, 'r) prog list \<Rightarrow> nat
      \<Rightarrow> (nat \<Rightarrow> nat) \<Rightarrow> ('t, 'f) caches \<Rightarrow> ('t, 'f, 'r) walk" where
  "start_walk tcd ar cap progs worker_count assign live =
     (let n = length progs;
          outputs = map (\<lambda>w. worker_pass tcd ar cap live progs (worker_files assign n w)) [0..<worker_count]
      in \<lparr>w_live = live, w_published = {}, w_dirty = {}, w_stats = zero_stats,
          w_slots = fold (\<lambda>(rs, _, _). fill_slots rs) outputs (replicate n None),
          w_logs = fold (\<lambda>(_, logs, _). fill_slots (map (\<lambda>l. (l_file_index l, l)) logs)) outputs
                     (replicate n None),
          w_history = [live],
          w_capped = sum_list (map (\<lambda>(_, _, capped). capped) outputs)\<rparr>)"

definition check_program_files_parallel ::
    "('t \<Rightarrow> u64) \<Rightarrow> ('t \<Rightarrow> (rstr \<times> 't list) option) \<Rightarrow> nat \<Rightarrow> ('t, 'f, 'r) prog list \<Rightarrow> nat
      \<Rightarrow> (nat \<Rightarrow> nat) \<Rightarrow> ('t, 'f) schedule_choice \<Rightarrow> ('t, 'f) caches \<Rightarrow> ('t, 'f, 'r) walk" where
  "check_program_files_parallel tcd ar cap progs worker_count assign ch live =
     fold (frontier_step tcd ar cap progs ch) [0..<length progs]
       (start_walk tcd ar cap progs worker_count assign live)"

end
