(* ===== verification/Cache_Simulation.thy ===== *)
theory Cache_Simulation
  imports Checking
begin

text \<open>
  The simulation between a check session and the serial caches, one cache at a time.

  For the file \<open>i\<close> being checked, \<open>flat_sim\<close> and \<open>bucket_sim\<close> relate the committed cache \<open>live\<close> at
  the file's position, the overlay \<open>ov0\<close> the session started the file with, the insertions logged
  so far, the current overlay \<open>ov\<close> and the cache \<open>S\<close> of a serial run started from \<open>live\<close>: \<open>S\<close> is
  \<open>live\<close> extended by the logged insertions, the overlay is \<open>ov0\<close> extended by the same insertions,
  the insertions are new with respect to \<open>live\<close> and to each other, and no bucket exceeds the cap.
  \<open>flat_ok\<close> and \<open>bucket_ok\<close> say that every entry of \<open>ov0\<close> inserted by a file that is not dirty is
  committed. The published digests are \<open>P\<close>.
\<close>

named_theorems sim_simps

section \<open>Flat caches\<close>

definition flat_own :: "('k \<times> 'v \<times> u64) list \<Rightarrow> 'k \<rightharpoonup> 'v" where
  "flat_own inserts = map_of (map (\<lambda>(k, v, d). (k, v)) inserts)"

definition flat_sim ::
    "nat \<Rightarrow> ('k \<rightharpoonup> 'v) \<Rightarrow> ('k \<rightharpoonup> nat \<times> 'v) \<Rightarrow> ('k \<Rightarrow> u64) \<Rightarrow> ('k \<times> 'v \<times> u64) list
      \<Rightarrow> ('k \<rightharpoonup> nat \<times> 'v) \<Rightarrow> ('k \<rightharpoonup> 'v) \<Rightarrow> bool" where
  "flat_sim i live ov0 dig inserts ov S \<longleftrightarrow>
     distinct (map fst inserts)
     \<and> (\<forall>(k, v, d) \<in> set inserts. live k = None \<and> d = dig k)
     \<and> S = live ++ flat_own inserts
     \<and> ov = ov0 ++ (\<lambda>k. map_option (Pair i) (flat_own inserts k))"

definition flat_ok :: "nat \<Rightarrow> nat set \<Rightarrow> ('k \<rightharpoonup> 'v) \<Rightarrow> ('k \<rightharpoonup> nat \<times> 'v) \<Rightarrow> bool" where
  "flat_ok i dirty live ov0 \<longleftrightarrow>
     (\<forall>k j v. ov0 k = Some (j, v) \<longrightarrow> j \<noteq> i \<and> (j \<notin> dirty \<longrightarrow> live k = Some v))"

lemma flat_own_Nil [simp]: "flat_own [] = Map.empty"
  by (simp add: flat_own_def)

lemma flat_own_append: "flat_own (xs @ ys) = flat_own ys ++ flat_own xs"
  by (simp add: flat_own_def)

lemma flat_own_single [simp]: "flat_own [(k, v, d)] = [k \<mapsto> v]"
  by (simp add: flat_own_def)

lemma flat_own_dom: "dom (flat_own inserts) = fst ` set inserts"
  by (force simp: flat_own_def dom_map_of_conv_image_fst image_iff)

lemma flat_own_SomeD: "flat_own inserts k = Some v \<Longrightarrow> \<exists>d. (k, v, d) \<in> set inserts"
  by (auto simp: flat_own_def dest!: map_of_SomeD)

lemma flat_own_None: "flat_own inserts k = None \<longleftrightarrow> k \<notin> fst ` set inserts"
  using flat_own_dom[of inserts] by (auto simp: domIff)

lemma flat_sim_fresh:
  "flat_sim i live ov0 dig inserts ov S \<Longrightarrow> flat_own inserts k \<noteq> None \<Longrightarrow> live k = None"
  by (auto simp: flat_sim_def dest!: flat_own_SomeD)

lemma flat_sim_start: "flat_sim i live ov0 dig [] ov0 live"
  by (simp add: flat_sim_def map_add_def)

lemma flat_read_base:
  assumes "flat_sim i live ov0 dig inserts ov S" "base \<subseteq>\<^sub>m live" "base k = Some v"
  shows "S k = Some v"
proof -
  have "live k = Some v" using assms(2,3) by (metis domI map_le_def)
  then have "flat_own inserts k = None" using flat_sim_fresh[OF assms(1), of k] by (cases "flat_own inserts k") auto
  then show ?thesis using \<open>live k = Some v\<close> assms(1) by (simp add: flat_sim_def map_add_def)
qed

lemma flat_read_overlay:
  assumes "flat_sim i live ov0 dig inserts ov S" "flat_ok i dirty live ov0"
    and "ov k = Some (j, v)" "j \<noteq> i \<longrightarrow> j \<notin> dirty"
  shows "S k = Some v"
  using assms by (cases "flat_own inserts k") (auto simp: flat_sim_def flat_ok_def map_add_def)

lemma flat_read_miss:
  assumes "flat_sim i live ov0 dig inserts ov S" "ov k = None" "live k = None"
  shows "S k = None"
  using assms by (auto simp: flat_sim_def map_add_def split: option.splits)

lemma flat_push:
  assumes "flat_sim i live ov0 dig inserts ov S" "ov k = None" "live k = None"
  shows "flat_sim i live ov0 dig (inserts @ [(k, v, dig k)]) (ov(k \<mapsto> (i, v))) (S(k \<mapsto> v))"
proof -
  have "flat_own inserts k = None"
    using assms by (auto simp: flat_sim_def map_add_def split: option.splits)
  then have "k \<notin> fst ` set inserts" by (simp add: flat_own_None)
  then show ?thesis
    using assms \<open>flat_own inserts k = None\<close>
    by (auto simp: flat_sim_def flat_own_append map_add_def fun_eq_iff split: option.splits)
qed

section \<open>Bucketed caches\<close>

definition bucket_own :: "('k \<times> 'e \<times> u64) list \<Rightarrow> 'k \<Rightarrow> 'e list" where
  "bucket_own inserts k = map (fst \<circ> snd) (filter (\<lambda>x. fst x = k) inserts)"

definition find_arg :: "('e \<Rightarrow> 'a) \<Rightarrow> 'a \<Rightarrow> 'e list \<Rightarrow> 'e option" where
  "find_arg args a b = List.find (\<lambda>e. args e = a) b"

definition bucket_sim ::
    "('e \<Rightarrow> 't list) \<Rightarrow> nat \<Rightarrow> nat \<Rightarrow> ('k \<Rightarrow> 'e list) \<Rightarrow> ('k \<Rightarrow> (nat \<times> 'e) list) \<Rightarrow> ('k \<Rightarrow> 't list \<Rightarrow> u64)
      \<Rightarrow> ('k \<times> 'e \<times> u64) list \<Rightarrow> ('k \<Rightarrow> (nat \<times> 'e) list) \<Rightarrow> ('k \<Rightarrow> 'e list) \<Rightarrow> bool" where
  "bucket_sim args cap i live ov0 dig inserts ov S \<longleftrightarrow>
     (\<forall>k. distinct (map args (bucket_own inserts k)))
     \<and> (\<forall>(k, e, d) \<in> set inserts. find_arg args (args e) (live k) = None \<and> d = dig k (args e))
     \<and> (\<forall>k. bucket_own inserts k \<noteq> [] \<longrightarrow> length (live k) + length (bucket_own inserts k) \<le> cap)
     \<and> S = (\<lambda>k. live k @ bucket_own inserts k)
     \<and> ov = (\<lambda>k. ov0 k @ map (Pair i) (bucket_own inserts k))"

definition bucket_ok ::
    "('e \<Rightarrow> 't list) \<Rightarrow> nat \<Rightarrow> nat set \<Rightarrow> ('k \<Rightarrow> 'e list) \<Rightarrow> ('k \<Rightarrow> (nat \<times> 'e) list) \<Rightarrow> bool" where
  "bucket_ok args i dirty live ov0 \<longleftrightarrow>
     (\<forall>k j e. (j, e) \<in> set (ov0 k) \<longrightarrow>
        j \<noteq> i \<and> (j \<notin> dirty \<longrightarrow> find_arg args (args e) (live k) = Some e))"

lemma find_arg_append:
  "find_arg args a (xs @ ys) = (case find_arg args a xs of Some e \<Rightarrow> Some e | None \<Rightarrow> find_arg args a ys)"
  by (induction xs) (auto simp: find_arg_def)

lemma find_arg_Nil [simp]: "find_arg args a [] = None"
  by (simp add: find_arg_def)

lemma find_arg_None: "find_arg args a b = None \<longleftrightarrow> a \<notin> args ` set b"
  by (auto simp: find_arg_def find_None_iff)

lemma find_arg_SomeD: "find_arg args a b = Some e \<Longrightarrow> e \<in> set b \<and> args e = a"
  by (auto simp: find_arg_def find_Some_iff)

lemma find_arg_prefix:
  "prefix xs ys \<Longrightarrow> find_arg args a xs = Some e \<Longrightarrow> find_arg args a ys = Some e"
  by (auto simp: prefix_def find_arg_append)

lemma find_arg_tagged: "find_arg (args \<circ> snd) a (map (Pair i) b) = map_option (Pair i) (find_arg args a b)"
  by (induction b) (auto simp: find_arg_def)

lemma bucket_own_Nil [simp]: "bucket_own [] k = []"
  by (simp add: bucket_own_def)

lemma bucket_own_append: "bucket_own (xs @ ys) k = bucket_own xs k @ bucket_own ys k"
  by (simp add: bucket_own_def)

lemma bucket_own_single: "bucket_own [(k', e, d)] k = (if k' = k then [e] else [])"
  by (simp add: bucket_own_def)

lemma bucket_own_set: "set (bucket_own inserts k) = {e. \<exists>d. (k, e, d) \<in> set inserts}"
  by (force simp: bucket_own_def)

lemma bucket_sim_start: "bucket_sim args cap i live ov0 dig [] ov0 live"
  by (simp add: bucket_sim_def)

lemma bucket_sim_fresh:
  assumes "bucket_sim args cap i live ov0 dig inserts ov S" "find_arg args a (live k) \<noteq> None"
  shows "find_arg args a (bucket_own inserts k) = None"
proof (rule ccontr)
  assume "find_arg args a (bucket_own inserts k) \<noteq> None"
  then obtain e where "e \<in> set (bucket_own inserts k)" "args e = a"
    by (auto dest: find_arg_SomeD)
  then show False using assms by (fastforce simp: bucket_sim_def bucket_own_set)
qed

lemma bucket_read_base:
  assumes "bucket_sim args cap i live ov0 dig inserts ov S" "prefix (base k) (live k)"
    and "find_arg args a (base k) = Some e"
  shows "find_arg args a (S k) = Some e"
  using assms find_arg_prefix[OF assms(2,3)] by (simp add: bucket_sim_def find_arg_append)

lemma bucket_read_overlay:
  assumes sim: "bucket_sim args cap i live ov0 dig inserts ov S" and ok: "bucket_ok args i dirty live ov0"
    and hit: "find_arg (args \<circ> snd) a (ov k) = Some (j, e)" and dep: "j \<noteq> i \<longrightarrow> j \<notin> dirty"
  shows "find_arg args a (S k) = Some e"
proof (cases "find_arg (args \<circ> snd) a (ov0 k)")
  case None
  then have own: "find_arg args a (bucket_own inserts k) = Some e"
    using sim hit by (auto simp: bucket_sim_def find_arg_append find_arg_tagged)
  then have "find_arg args a (live k) = None"
    using bucket_sim_fresh[OF sim, of a k] by (cases "find_arg args a (live k)") auto
  then show ?thesis using own sim by (simp add: bucket_sim_def find_arg_append)
next
  case (Some x)
  then have "x = (j, e)" using sim hit by (simp add: bucket_sim_def find_arg_append)
  then have "(j, e) \<in> set (ov0 k)" "args e = a" using Some by (auto dest: find_arg_SomeD)
  then have "find_arg args a (live k) = Some e" using ok dep by (auto simp: bucket_ok_def)
  then show ?thesis using sim by (simp add: bucket_sim_def find_arg_append)
qed

lemma bucket_read_miss:
  assumes "bucket_sim args cap i live ov0 dig inserts ov S"
    and "find_arg (args \<circ> snd) a (ov k) = None" "find_arg args a (live k) = None"
  shows "find_arg args a (S k) = None"
  using assms by (auto simp: bucket_sim_def find_arg_append find_arg_tagged split: option.splits)

lemma bucket_push:
  assumes sim: "bucket_sim args cap i live ov0 dig inserts ov S"
    and "find_arg (args \<circ> snd) (args e) (ov k) = None" "find_arg args (args e) (live k) = None"
    and room: "length (S k) < cap"
  shows "bucket_sim args cap i live ov0 dig (inserts @ [(k, e, dig k (args e))])
           (push_at k (i, e) ov) (push_at k e S)"
proof -
  have fresh: "args e \<notin> args ` set (bucket_own inserts k)"
    using assms(1,2)
    by (auto simp: bucket_sim_def find_arg_append find_arg_tagged find_arg_None[symmetric]
        split: option.splits)
  show ?thesis
    using assms fresh
    by (auto simp: bucket_sim_def bucket_own_append bucket_own_single push_at_def fun_eq_iff)
qed

section \<open>Publication of a simulated log\<close>

definition publish_all :: "u64 list \<Rightarrow> merge_state \<Rightarrow> merge_state" where
  "publish_all digests a =
     a\<lparr>m_published := m_published a \<union> set digests,
       m_stats := (m_stats a)\<lparr>s_published_entries := s_published_entries (m_stats a) + length digests\<rparr>\<rparr>"

lemma publish_all_Nil [simp]: "publish_all [] a = a"
  by (simp add: publish_all_def)

lemma publish_all_Cons: "publish_all (d # ds) a = publish_all ds (merge_publish d a)"
  by (simp add: publish_all_def merge_publish_def)

lemma publish_all_append: "publish_all ds (publish_all ds' a) = publish_all (ds' @ ds) a"
  by (induction ds' arbitrary: a) (simp_all add: publish_all_Cons)

lemma merge_flat_fresh:
  assumes "distinct (map fst inserts)" "\<forall>(k, v, d) \<in> set inserts. cache k = None"
  shows "merge_flat inserts cache a = (cache ++ flat_own inserts, publish_all (map (snd \<circ> snd) inserts) a)"
  using assms
proof (induction inserts arbitrary: cache a)
  case (Cons x inserts)
  obtain k v d where x: "x = (k, v, d)" by (cases x)
  have own: "flat_own (x # inserts) = flat_own inserts ++ [k \<mapsto> v]"
    using flat_own_append[of "[x]" inserts] by (simp add: x)
  have k: "flat_own inserts k = None" using Cons.prems by (simp add: x flat_own_None)
  have "\<forall>(k', v', d') \<in> set inserts. (cache(k \<mapsto> v)) k' = None"
    using Cons.prems by (auto simp: x rev_image_eqI)
  then have IH: "merge_flat inserts (cache(k \<mapsto> v)) (merge_publish d a) =
      (cache(k \<mapsto> v) ++ flat_own inserts, publish_all (map (snd \<circ> snd) inserts) (merge_publish d a))"
    by (rule Cons.IH[rotated]) (use Cons.prems(1) in simp)
  have "cache(k \<mapsto> v) ++ flat_own inserts = cache ++ flat_own (x # inserts)"
    using k by (auto simp: own map_add_def fun_eq_iff split: option.splits)
  with IH show ?case using Cons.prems(2) by (simp add: x publish_all_Cons comp_def)
qed simp

lemma merge_flat_sim:
  "flat_sim i live ov0 dig inserts ov S \<Longrightarrow>
   merge_flat inserts live a = (S, publish_all (map (snd \<circ> snd) inserts) a)"
  by (subst merge_flat_fresh) (auto simp: flat_sim_def)

lemma bucket_own_Cons: "bucket_own ((k', e, d) # xs) k = (if k' = k then e # bucket_own xs k else bucket_own xs k)"
  by (simp add: bucket_own_def)

lemma merge_bucketed_fresh:
  assumes "\<forall>k. distinct (map args (bucket_own inserts k))"
    and "\<forall>(k, e, d) \<in> set inserts. find_arg args (args e) (cache k) = None"
    and "\<forall>k. bucket_own inserts k \<noteq> [] \<longrightarrow> length (cache k) + length (bucket_own inserts k) \<le> cap"
  shows "merge_bucketed args cap inserts cache a =
           (\<lambda>k. cache k @ bucket_own inserts k, publish_all (map (snd \<circ> snd) inserts) a)"
  using assms
proof (induction inserts arbitrary: cache a)
  case (Cons x inserts)
  obtain k e d where x: "x = (k, e, d)" by (cases x)
  let ?c = "push_at k e cache"
  have d1: "distinct (map args (bucket_own inserts k'))" for k'
    using Cons.prems(1)[rule_format, of k'] by (auto simp: x bucket_own_Cons split: if_splits)
  have ne: "args e \<notin> args ` set (bucket_own inserts k)"
    using Cons.prems(1)[rule_format, of k] by (simp add: x bucket_own_Cons)
  have d2: "\<forall>(k', e', d') \<in> set inserts. find_arg args (args e') (?c k') = None"
  proof clarify
    fix k' e' d' assume mem: "(k', e', d') \<in> set inserts"
    have "args e' \<noteq> args e" if "k' = k"
    proof
      assume "args e' = args e"
      have "e' \<in> set (bucket_own inserts k)" using mem that by (auto simp: bucket_own_set)
      then show False using ne \<open>args e' = args e\<close> by (metis image_eqI)
    qed
    moreover have "find_arg args (args e') (cache k') = None" using Cons.prems(2) mem by auto
    ultimately show "find_arg args (args e') (?c k') = None"
      by (auto simp: push_at_def find_arg_append find_arg_None)
  qed
  have d3: "bucket_own inserts k' \<noteq> [] \<longrightarrow> length (?c k') + length (bucket_own inserts k') \<le> cap" for k'
    using Cons.prems(3)[rule_format, of k'] by (cases "k = k'") (simp_all add: x bucket_own_Cons push_at_def)
  have room: "length (cache k) < cap"
    using Cons.prems(3)[rule_format, of k] by (simp add: x bucket_own_Cons)
  have fresh: "\<not> (\<exists>existing \<in> set (cache k). args existing = args e)"
    using Cons.prems(2) by (auto simp: x find_arg_None image_iff)
  have IH: "merge_bucketed args cap inserts ?c (merge_publish d a) =
      (\<lambda>k'. ?c k' @ bucket_own inserts k', publish_all (map (snd \<circ> snd) inserts) (merge_publish d a))"
    by (rule Cons.IH) (use d1 d2 d3 in simp_all)
  have "(\<lambda>k'. ?c k' @ bucket_own inserts k') = (\<lambda>k'. cache k' @ bucket_own (x # inserts) k')"
    by (simp add: x push_at_def bucket_own_Cons fun_eq_iff)
  with IH show ?case using room fresh by (simp add: x publish_all_Cons comp_def)
qed simp

lemma merge_bucketed_sim:
  "bucket_sim args cap i live ov0 dig inserts ov S \<Longrightarrow>
   merge_bucketed args cap inserts live a = (S, publish_all (map (snd \<circ> snd) inserts) a)"
  by (subst merge_bucketed_fresh) (auto simp: bucket_sim_def)

lemma merge_bucketed_append:
  "merge_bucketed args cap (xs @ ys) cache a =
     (case merge_bucketed args cap xs cache a of (c, b) \<Rightarrow> merge_bucketed args cap ys c b)"
  by (induction xs arbitrary: cache a) auto

abbreviation cap_blocked :: "merge_state \<Rightarrow> nat" where
  "cap_blocked a \<equiv> s_merge_cap_blocked (m_stats a)"

lemma cap_blocked_step [simp]:
  "cap_blocked (merge_skip a) = cap_blocked a" "cap_blocked (merge_cap a) = Suc (cap_blocked a)"
  "cap_blocked (merge_publish d a) = cap_blocked a" "cap_blocked (publish_all ds a) = cap_blocked a"
  by (simp_all add: merge_skip_def merge_cap_def merge_publish_def publish_all_def)

lemma merge_bucketed_blocked_mono:
  "cap_blocked a \<le> cap_blocked (snd (merge_bucketed args cap inserts cache a))"
proof (induction inserts arbitrary: cache a)
  case (Cons x inserts)
  then show ?case by (cases x) (auto intro: le_trans[OF _ Cons] le_trans[OF le_SucI[OF le_refl]]
        simp: le_trans[OF _ Cons])
qed simp

lemma merge_flat_blocked: "cap_blocked (snd (merge_flat inserts cache a)) = cap_blocked a"
proof (induction inserts arbitrary: cache a)
  case (Cons x inserts)
  then show ?case by (cases x) simp
qed simp

text \<open>If no insertion of a log is blocked by the cap at publication, the serial run has room for
  each of them.\<close>

lemma room_if_unblocked:
  assumes sim: "bucket_sim args cap i live ov0 dig inserts ov S"
    and fresh: "find_arg args (args e) (S k) = None"
    and ext: "prefix (inserts @ [(k, e, d)]) all_inserts"
    and unblocked: "cap_blocked (snd (merge_bucketed args cap all_inserts live a)) = cap_blocked a"
  shows "length (S k) < cap"
proof (rule ccontr)
  assume full: "\<not> length (S k) < cap"
  obtain rest where all: "all_inserts = inserts @ (k, e, d) # rest"
    using ext by (auto simp: prefix_def)
  let ?b = "publish_all (map (snd \<circ> snd) inserts) a"
  have "merge_bucketed args cap all_inserts live a = merge_bucketed args cap rest S (merge_cap ?b)"
    using full fresh by (auto simp: all merge_bucketed_append merge_bucketed_sim[OF sim] find_arg_None image_iff)
  then have "Suc (cap_blocked a) \<le> cap_blocked a"
    using merge_bucketed_blocked_mono[of "merge_cap ?b" args cap rest S] unblocked by simp
  then show False by simp
qed

end
