(* ===== verification/Session_Simulation.thy ===== *)
theory Session_Simulation
  imports Cache_Simulation
begin

text \<open>
  Every operation of a check session simulates the serial operation it mirrors.

  \<^item> \<open>sim\<close> relates a session in the middle of file \<open>i\<close> with the caches of a serial run of the same
    file from the committed state \<open>live\<close>; it combines the per-cache relations.
  \<^item> \<open>run_ok\<close> states what a base read relies on: the base lies below \<open>live\<close>, every key committed
    above the base has its digest in \<open>P\<close>, and the overlay entries of clean files are committed.
  \<^item> \<open>session_le\<close> orders session states by what they have recorded.
  \<^item> The locale \<open>flat_cache\<close> is the interface the four flat caches share; it is interpreted for the
    physical, template, method and overload operations. The two bucketed caches follow it.
\<close>

section \<open>The relations\<close>

definition caches_le :: "('t, 'f) caches \<Rightarrow> ('t, 'f) caches \<Rightarrow> bool" where
  "caches_le b c \<longleftrightarrow>
     (\<forall>k. prefix (c_generic b k) (c_generic c k))
     \<and> (\<forall>k. prefix (c_instantiations b k) (c_instantiations c k))
     \<and> c_physical b \<subseteq>\<^sub>m c_physical c \<and> c_templates b \<subseteq>\<^sub>m c_templates c
     \<and> c_methods b \<subseteq>\<^sub>m c_methods c \<and> c_overloads b \<subseteq>\<^sub>m c_overloads c"

definition covered :: "('t \<Rightarrow> u64) \<Rightarrow> u64 set \<Rightarrow> ('t, 'f) caches \<Rightarrow> ('t, 'f) caches \<Rightarrow> bool" where
  "covered tcd P base live \<longleftrightarrow>
     (\<forall>K. cached live K \<noteq> None \<longrightarrow> cached base K \<noteq> None \<or> cache_digest tcd K \<in> P)"

definition overlay_ok :: "nat \<Rightarrow> nat set \<Rightarrow> ('t, 'f) caches \<Rightarrow> ('t, 'f) worker_overlay \<Rightarrow> bool" where
  "overlay_ok i dirty live s \<longleftrightarrow>
     bucket_ok generic_arguments i dirty (c_generic live) (o_generic s)
     \<and> bucket_ok inst_arguments i dirty (c_instantiations live) (o_instantiations s)
     \<and> flat_ok i dirty (c_physical live) (o_physical s)
     \<and> flat_ok i dirty (c_templates live) (o_templates s)
     \<and> flat_ok i dirty (c_methods live) (o_methods s)
     \<and> flat_ok i dirty (c_overloads live) (o_overloads s)"

definition run_ok ::
    "('t \<Rightarrow> u64) \<Rightarrow> nat \<Rightarrow> u64 set \<Rightarrow> nat set \<Rightarrow> ('t, 'f) caches \<Rightarrow> ('t, 'f) worker_overlay
      \<Rightarrow> ('t, 'f) caches \<Rightarrow> bool" where
  "run_ok tcd i P dirty live s0 base \<longleftrightarrow>
     caches_le base live \<and> covered tcd P base live \<and> overlay_ok i dirty live s0"

definition sim ::
    "('t \<Rightarrow> u64) \<Rightarrow> nat \<Rightarrow> nat \<Rightarrow> ('t, 'f) caches \<Rightarrow> ('t, 'f) worker_overlay \<Rightarrow> ('t, 'f) worker_overlay
      \<Rightarrow> ('t, 'f) caches \<Rightarrow> bool" where
  "sim tcd cap i live s0 s S \<longleftrightarrow>
     l_file_index (o_current s) = i
     \<and> bucket_sim generic_arguments cap i (c_generic live) (o_generic s0) (digest_bucket tcd TAG_GENERIC)
         (l_generic_inserts (o_current s)) (o_generic s) (c_generic S)
     \<and> bucket_sim inst_arguments cap i (c_instantiations live) (o_instantiations s0)
         (digest_bucket tcd TAG_INSTANTIATION)
         (l_instantiation_inserts (o_current s)) (o_instantiations s) (c_instantiations S)
     \<and> flat_sim i (c_physical live) (o_physical s0) (digest_flat hash_instantiation_key TAG_PHYSICAL)
         (l_physical_inserts (o_current s)) (o_physical s) (c_physical S)
     \<and> flat_sim i (c_templates live) (o_templates s0) (digest_flat hash_declaration_id TAG_TEMPLATE)
         (l_template_inserts (o_current s)) (o_templates s) (c_templates S)
     \<and> flat_sim i (c_methods live) (o_methods s0) (digest_flat hash_member_key TAG_METHOD)
         (l_method_inserts (o_current s)) (o_methods s) (c_methods S)
     \<and> flat_sim i (c_overloads live) (o_overloads s0) (digest_flat hash_overload_key TAG_OVERLOAD)
         (l_overload_inserts (o_current s)) (o_overloads s) (c_overloads S)"

definition session_le :: "('t, 'f) worker_overlay \<Rightarrow> ('t, 'f) worker_overlay \<Rightarrow> bool" where
  "session_le s s' \<longleftrightarrow>
     l_misses (o_current s) \<subseteq> l_misses (o_current s')
     \<and> l_overlay_deps (o_current s) \<subseteq> l_overlay_deps (o_current s')
     \<and> o_capped s \<le> o_capped s' \<and> o_max_deferred s \<le> o_max_deferred s'
     \<and> prefix (l_generic_inserts (o_current s)) (l_generic_inserts (o_current s'))
     \<and> prefix (l_instantiation_inserts (o_current s)) (l_instantiation_inserts (o_current s'))"

lemma session_le_refl [simp]: "session_le s s"
  by (simp add: session_le_def)

lemma session_le_trans [trans]: "session_le a b \<Longrightarrow> session_le b c \<Longrightarrow> session_le a c"
  by (auto simp: session_le_def intro: prefix_order.trans)

text \<open>What a finished session must satisfy for its log to be accepted.\<close>

definition accepted :: "u64 set \<Rightarrow> nat set \<Rightarrow> ('t, 'f) worker_overlay \<Rightarrow> bool" where
  "accepted P dirty s \<longleftrightarrow> l_misses (o_current s) \<inter> P = {} \<and> l_overlay_deps (o_current s) \<inter> dirty = {}"

lemma accepted_mono: "session_le s s' \<Longrightarrow> accepted P dirty s' \<Longrightarrow> accepted P dirty s"
  by (auto simp: session_le_def accepted_def)

section \<open>Bookkeeping steps\<close>

lemma record_miss_le [simp]: "session_le s (record_miss d s)"
  by (auto simp: session_le_def record_miss_def)

lemma record_dep_le [simp]: "session_le s (record_dep j s)"
  by (auto simp: session_le_def record_dep_def)

lemma defer_check_le [simp]: "session_le s (snd (defer_check q env s))"
  by (auto simp: session_le_def defer_check_def split: option.split reservation_lookup.split)

lemma miss_check_le [simp]: "session_le s (snd (defer_check q env (record_miss d s)))"
  by (rule session_le_trans[OF record_miss_le defer_check_le])

lemma sim_record_miss [simp]: "sim tcd cap i live s0 (record_miss d s) S = sim tcd cap i live s0 s S"
  by (simp add: sim_def record_miss_def)

lemma sim_record_dep [simp]: "sim tcd cap i live s0 (record_dep j s) S = sim tcd cap i live s0 s S"
  by (simp add: sim_def record_dep_def)

lemma sim_defer_check [simp]:
  "sim tcd cap i live s0 (snd (defer_check q env s)) S = sim tcd cap i live s0 s S"
  by (simp add: sim_def defer_check_def split: option.split reservation_lookup.split)

lemma sim_capped [simp]: "sim tcd cap i live s0 (s\<lparr>o_capped := n\<rparr>) S = sim tcd cap i live s0 s S"
  by (simp add: sim_def)

lemma sim_deferred_once [simp]:
  "sim tcd cap i live s0 (s\<lparr>o_deferred_once := n\<rparr>) S = sim tcd cap i live s0 s S"
  by (simp add: sim_def)

lemma sim_file_index: "sim tcd cap i live s0 s S \<Longrightarrow> l_file_index (o_current s) = i"
  by (simp add: sim_def)

lemma defer_check_misses [simp]:
  "o_current (snd (defer_check q env s)) = o_current s"
  by (simp add: defer_check_def split: option.split reservation_lookup.split)

lemma record_miss_accepted: "accepted P dirty (record_miss d s) \<Longrightarrow> d \<notin> P"
  by (auto simp: accepted_def record_miss_def)

lemma record_dep_accepted:
  "accepted P dirty (record_dep j s) \<Longrightarrow> j \<noteq> l_file_index (o_current s) \<longrightarrow> j \<notin> dirty"
  by (auto simp: accepted_def record_dep_def)

lemma accepted_defer_check [simp]: "accepted P dirty (snd (defer_check q env s)) = accepted P dirty s"
  by (simp add: accepted_def)

section \<open>The interface of a flat cache\<close>

locale flat_cache =
  fixes get_c :: "('t, 'f) caches \<Rightarrow> 'k \<rightharpoonup> 'v"
    and put_c :: "'k \<Rightarrow> 'v \<Rightarrow> ('t, 'f) caches \<Rightarrow> ('t, 'f) caches"
    and get_o :: "('t, 'f) worker_overlay \<Rightarrow> 'k \<rightharpoonup> nat \<times> 'v"
    and get_l :: "('t, 'f) worker_overlay \<Rightarrow> ('k \<times> 'v \<times> u64) list"
    and put_s :: "'k \<Rightarrow> 'v \<Rightarrow> ('t, 'f) worker_overlay \<Rightarrow> ('t, 'f) worker_overlay"
    and dig :: "'k \<Rightarrow> u64"
    and key :: "'k \<Rightarrow> 't cache_key"
    and qry :: "'k \<Rightarrow> 't reservation_table \<Rightarrow> nat \<Rightarrow> reservation_lookup"
    and look :: "('t, 'f) session_env \<Rightarrow> 'k \<Rightarrow> ('t, 'f) worker_overlay \<Rightarrow> 'v option \<times> ('t, 'f) worker_overlay"
    and intern :: "('t, 'f) session_env \<Rightarrow> 'k \<Rightarrow> 'v \<Rightarrow> ('t, 'f) worker_overlay \<Rightarrow> 'v \<times> ('t, 'f) worker_overlay"
    and serial_look :: "('t, 'f) caches \<Rightarrow> 'k \<Rightarrow> 'v option"
    and serial_intern :: "'k \<Rightarrow> 'v \<Rightarrow> ('t, 'f) caches \<Rightarrow> 'v \<times> ('t, 'f) caches"
  assumes look_eq: "look env k s =
      (case get_c (e_base env) k of
         Some v \<Rightarrow> (Some v, s)
       | None \<Rightarrow> (case get_o s k of
                     Some (j, v) \<Rightarrow> (Some v, record_dep j s)
                   | None \<Rightarrow> (None, snd (defer_check (qry k) env (record_miss (dig k) s)))))"
    and intern_eq: "intern env k v s =
      (case get_c (e_base env) k of
         Some x \<Rightarrow> (x, s)
       | None \<Rightarrow> (case get_o s k of
                     Some (j, x) \<Rightarrow> (x, record_dep j s)
                   | None \<Rightarrow> (v, put_s k v (record_miss (dig k) s))))"
    and serial_look_eq: "serial_look c k = get_c c k"
    and serial_intern_eq: "serial_intern k v c =
      (case get_c c k of Some x \<Rightarrow> (x, c) | None \<Rightarrow> (v, put_c k v c))"
    and put_s_le: "session_le s (put_s k v s)"
    and put_s_log: "l_misses (o_current (put_s k v s)) = l_misses (o_current s)"
      "l_overlay_deps (o_current (put_s k v s)) = l_overlay_deps (o_current s)"
    and sim_get: "sim tcd cap i live s0 s S \<Longrightarrow>
      flat_sim i (get_c live) (get_o s0) dig (get_l s) (get_o s) (get_c S)"
    and sim_put: "sim tcd cap i live s0 s S \<Longrightarrow>
      flat_sim i (get_c live) (get_o s0) dig (get_l s @ [(k, v, dig k)])
        ((get_o s)(k \<mapsto> (i, v))) ((get_c S)(k \<mapsto> v)) \<Longrightarrow>
      sim tcd cap i live s0 (put_s k v s) (put_c k v S)"
    and caches_le_get: "caches_le b c \<Longrightarrow> get_c b \<subseteq>\<^sub>m get_c c"
    and overlay_ok_get: "overlay_ok i dirty live s0 \<Longrightarrow> flat_ok i dirty (get_c live) (get_o s0)"
    and cached_key: "cached c (key k) = None \<longleftrightarrow> get_c c k = None"
    and digest_key: "cache_digest tcd (key k) = dig k"
    and get_o_miss: "get_o (record_miss d s) = get_o s" "get_l (record_miss d s) = get_l s"
begin

lemma look_le: "session_le s (snd (look env k s))"
  by (auto simp: look_eq intro: session_le_trans split: option.split)

lemma intern_le: "session_le s (snd (intern env k v s))"
  by (auto simp: intern_eq intro: session_le_trans[OF record_miss_le put_s_le] split: option.split)

lemma miss_is_miss:
  assumes "run_ok tcd i P dirty live s0 base" "get_c base k = None" "dig k \<notin> P"
  shows "get_c live k = None"
proof -
  have "cached base (key k) = None" using assms(2) by (simp add: cached_key)
  then have "cached live (key k) = None"
    using assms(1,3) by (auto simp: run_ok_def covered_def digest_key[symmetric, of _ tcd])
  then show ?thesis by (simp add: cached_key)
qed

lemma answer:
  assumes ok: "run_ok tcd i P dirty live s0 (e_base env)" and sim: "sim tcd cap i live s0 s S"
  shows answer_base: "get_c (e_base env) k = Some v \<Longrightarrow> get_c S k = Some v"
    and answer_overlay: "get_c (e_base env) k = None \<Longrightarrow> get_o s k = Some (j, v) \<Longrightarrow>
      accepted P dirty (record_dep j s) \<Longrightarrow> get_c S k = Some v"
    and answer_miss: "get_c (e_base env) k = None \<Longrightarrow> get_o s k = None \<Longrightarrow> dig k \<notin> P \<Longrightarrow>
      get_c S k = None \<and> get_c live k = None"
proof -
  have le: "get_c (e_base env) \<subseteq>\<^sub>m get_c live" and fok: "flat_ok i dirty (get_c live) (get_o s0)"
    using ok by (auto simp: run_ok_def caches_le_get overlay_ok_get)
  note fs = sim_get[OF sim]
  show "get_c (e_base env) k = Some v \<Longrightarrow> get_c S k = Some v"
    by (rule flat_read_base[OF fs le])
  show "get_c S k = Some v" if "get_o s k = Some (j, v)" "accepted P dirty (record_dep j s)"
    using flat_read_overlay[OF fs fok that(1)] record_dep_accepted[OF that(2)] sim_file_index[OF sim]
    by simp
  show "get_c S k = None \<and> get_c live k = None"
    if "get_c (e_base env) k = None" "get_o s k = None" "dig k \<notin> P"
    using miss_is_miss[OF ok that(1,3)] flat_read_miss[OF fs that(2)] by simp
qed

lemma look_sim:
  assumes ok: "run_ok tcd i P dirty live s0 (e_base env)" and sim: "sim tcd cap i live s0 s S"
    and step: "look env k s = (x, s')" and acc: "accepted P dirty s'"
  shows "x = serial_look S k \<and> sim tcd cap i live s0 s' S"
proof (cases "get_c (e_base env) k")
  case base: None
  show ?thesis
  proof (cases "get_o s k")
    case None
    then have s': "x = None" "s' = snd (defer_check (qry k) env (record_miss (dig k) s))"
      using step base by (auto simp: look_eq)
    then have "dig k \<notin> P" using acc by (auto dest: record_miss_accepted)
    then show ?thesis using answer_miss[OF ok sim base None] sim by (simp add: s' serial_look_eq)
  next
    case (Some y)
    then have y: "get_o s k = Some (fst y, snd y)" by simp
    then have s': "x = Some (snd y)" "s' = record_dep (fst y) s"
      using step base by (auto simp: look_eq split: prod.splits)
    then show ?thesis using answer_overlay[OF ok sim base y] acc sim by (simp add: serial_look_eq)
  qed
next
  case (Some v)
  then show ?thesis using step sim answer_base[OF ok sim Some] by (simp add: look_eq serial_look_eq)
qed

lemma put_accepted: "accepted P dirty (put_s k v s) = accepted P dirty s"
  by (simp add: accepted_def put_s_log)

lemma intern_sim:
  assumes ok: "run_ok tcd i P dirty live s0 (e_base env)" and sim: "sim tcd cap i live s0 s S"
    and step: "intern env k v s = (x, s')" and acc: "accepted P dirty s'"
  shows "\<exists>S'. serial_intern k v S = (x, S') \<and> sim tcd cap i live s0 s' S'"
proof (cases "get_c (e_base env) k = None \<and> get_o s k = None")
  case True
  then have s': "x = v" "s' = put_s k v (record_miss (dig k) s)" using step by (auto simp: intern_eq)
  then have "dig k \<notin> P" using acc by (auto simp: put_accepted dest: record_miss_accepted)
  then have none: "get_c S k = None" "get_c live k = None"
    using answer_miss[OF ok sim] True by auto
  have "sim tcd cap i live s0 s' (put_c k v S)"
    unfolding s' by (rule sim_put) (use sim True none in \<open>simp_all add: get_o_miss flat_push[OF sim_get[OF sim]]\<close>)
  then show ?thesis using none s' by (simp add: serial_intern_eq)
next
  case False
  then show ?thesis
    using step acc sim answer_base[OF ok sim, of k] answer_overlay[OF ok sim, of k]
    by (auto simp: intern_eq serial_intern_eq split: option.splits)
qed

end

section \<open>The four flat caches\<close>

lemmas flat_interp_simps =
  session_le_def sim_def caches_le_def overlay_ok_def record_miss_def

interpretation phys: flat_cache c_physical "\<lambda>k v c. c\<lparr>c_physical := (c_physical c)(k \<mapsto> v)\<rparr>"
  o_physical "\<lambda>s. l_physical_inserts (o_current s)"
  "\<lambda>k v s. s\<lparr>o_current := (o_current s)\<lparr>l_physical_inserts :=
       l_physical_inserts (o_current s) @ [(k, v, digest_flat hash_instantiation_key TAG_PHYSICAL k)]\<rparr>,
     o_physical := (o_physical s)(k \<mapsto> (l_file_index (o_current s), v))\<rparr>"
  "digest_flat hash_instantiation_key TAG_PHYSICAL" KPhysical "\<lambda>k t. query_physical t k"
  physical_lookup physical_intern lookup_physical_interface_instantiation intern_physical_interface_instantiation
  by unfold_locales
    (simp_all add: flat_interp_simps physical_lookup_def physical_intern_def base_physical_def
       lookup_physical_interface_instantiation_def intern_physical_interface_instantiation_def Let_def cong: option.case_cong split: option.splits)

interpretation tmpl: flat_cache c_templates "\<lambda>k v c. c\<lparr>c_templates := (c_templates c)(k \<mapsto> v)\<rparr>"
  o_templates "\<lambda>s. l_template_inserts (o_current s)"
  "\<lambda>k v s. s\<lparr>o_current := (o_current s)\<lparr>l_template_inserts :=
       l_template_inserts (o_current s) @ [(k, v, digest_flat hash_declaration_id TAG_TEMPLATE k)]\<rparr>,
     o_templates := (o_templates s)(k \<mapsto> (l_file_index (o_current s), v))\<rparr>"
  "digest_flat hash_declaration_id TAG_TEMPLATE" KTemplate "\<lambda>k t. query_template t k"
  template_lookup template_intern lookup_interface_template intern_interface_template
  by unfold_locales
    (simp_all add: flat_interp_simps template_lookup_def template_intern_def base_template_def
       lookup_interface_template_def intern_interface_template_def Let_def cong: option.case_cong split: option.splits)

interpretation meth: flat_cache c_methods "\<lambda>k v c. c\<lparr>c_methods := (c_methods c)(k \<mapsto> v)\<rparr>"
  o_methods "\<lambda>s. l_method_inserts (o_current s)"
  "\<lambda>k v s. s\<lparr>o_current := (o_current s)\<lparr>l_method_inserts :=
       l_method_inserts (o_current s) @ [(k, v, digest_flat hash_member_key TAG_METHOD k)]\<rparr>,
     o_methods := (o_methods s)(k \<mapsto> (l_file_index (o_current s), v))\<rparr>"
  "digest_flat hash_member_key TAG_METHOD" KMethod "\<lambda>k t. query_method t k"
  method_lookup method_intern lookup_physical_interface_method intern_physical_interface_method
  by unfold_locales
    (simp_all add: flat_interp_simps method_lookup_def method_intern_def base_method_def
       lookup_physical_interface_method_def intern_physical_interface_method_def Let_def cong: option.case_cong split: option.splits)

interpretation over: flat_cache c_overloads "\<lambda>k v c. c\<lparr>c_overloads := (c_overloads c)(k \<mapsto> v)\<rparr>"
  o_overloads "\<lambda>s. l_overload_inserts (o_current s)"
  "\<lambda>k v s. s\<lparr>o_current := (o_current s)\<lparr>l_overload_inserts :=
       l_overload_inserts (o_current s) @ [(k, v, digest_flat hash_overload_key TAG_OVERLOAD k)]\<rparr>,
     o_overloads := (o_overloads s)(k \<mapsto> (l_file_index (o_current s), v))\<rparr>"
  "digest_flat hash_overload_key TAG_OVERLOAD" KOverload "\<lambda>k t. query_overload t k"
  overload_lookup overload_intern lookup_physical_interface_overload intern_physical_interface_overload
  by unfold_locales
    (simp_all add: flat_interp_simps overload_lookup_def overload_intern_def base_overload_def
       lookup_physical_interface_overload_def intern_physical_interface_overload_def Let_def cong: option.case_cong split: option.splits)

section \<open>The interface of a bucketed cache\<close>

locale bucket_cache =
  fixes args :: "'e \<Rightarrow> 't list"
    and get_c :: "('t, 'f) caches \<Rightarrow> declaration_resolution_key \<Rightarrow> 'e list"
    and put_c :: "declaration_resolution_key \<Rightarrow> 'e \<Rightarrow> ('t, 'f) caches \<Rightarrow> ('t, 'f) caches"
    and get_o :: "('t, 'f) worker_overlay \<Rightarrow> declaration_resolution_key \<Rightarrow> (nat \<times> 'e) list"
    and get_l :: "('t, 'f) worker_overlay \<Rightarrow> (declaration_resolution_key \<times> 'e \<times> u64) list"
    and put_s :: "u64 \<Rightarrow> declaration_resolution_key \<Rightarrow> 'e \<Rightarrow> ('t, 'f) worker_overlay \<Rightarrow> ('t, 'f) worker_overlay"
    and dig :: "('t \<Rightarrow> u64) \<Rightarrow> declaration_resolution_key \<Rightarrow> 't list \<Rightarrow> u64"
    and key :: "declaration_resolution_key \<Rightarrow> 't list \<Rightarrow> 't cache_key"
  assumes put_s_le: "session_le s (put_s d k e s)"
    and put_s_log: "l_misses (o_current (put_s d k e s)) = l_misses (o_current s)"
      "l_overlay_deps (o_current (put_s d k e s)) = l_overlay_deps (o_current s)"
    and put_s_get: "get_l (put_s d k e s) = get_l s @ [(k, e, d)]"
    and sim_get: "sim tcd cap i live s0 s S \<Longrightarrow>
      bucket_sim args cap i (get_c live) (get_o s0) (dig tcd) (get_l s) (get_o s) (get_c S)"
    and sim_put: "sim tcd cap i live s0 s S \<Longrightarrow>
      bucket_sim args cap i (get_c live) (get_o s0) (dig tcd) (get_l s @ [(k, e, dig tcd k (args e))])
        (push_at k (i, e) (get_o s)) (push_at k e (get_c S)) \<Longrightarrow>
      sim tcd cap i live s0 (put_s (dig tcd k (args e)) k e s) (put_c k e S)"
    and caches_le_get: "caches_le b c \<Longrightarrow> prefix (get_c b k) (get_c c k)"
    and overlay_ok_get: "overlay_ok i dirty live s0 \<Longrightarrow> bucket_ok args i dirty (get_c live) (get_o s0)"
    and cached_key: "cached c (key k a) = None \<longleftrightarrow> find_arg args a (get_c c k) = None"
    and digest_key: "cache_digest tcd (key k a) = dig tcd k a"
    and get_o_miss: "get_o (record_miss d s) = get_o s" "get_l (record_miss d s) = get_l s"
    and get_l_le: "session_le s s' \<Longrightarrow> prefix (get_l s) (get_l s')"
begin

lemma miss_is_miss:
  assumes "run_ok tcd i P dirty live s0 base" "find_arg args a (get_c base k) = None" "dig tcd k a \<notin> P"
  shows "find_arg args a (get_c live k) = None"
proof -
  have "cached base (key k a) = None" using assms(2) by (simp add: cached_key)
  then have "cached live (key k a) = None"
    using assms(1,3) by (auto simp: run_ok_def covered_def digest_key[symmetric, of tcd])
  then show ?thesis by (simp add: cached_key)
qed

lemma answer:
  assumes ok: "run_ok tcd i P dirty live s0 (e_base env)" and sim: "sim tcd cap i live s0 s S"
  shows answer_base: "find_arg args a (get_c (e_base env) k) = Some e \<Longrightarrow>
      find_arg args a (get_c S k) = Some e"
    and answer_overlay: "find_arg (args \<circ> snd) a (get_o s k) = Some (j, e) \<Longrightarrow>
      accepted P dirty (record_dep j s) \<Longrightarrow> find_arg args a (get_c S k) = Some e"
    and answer_miss: "find_arg args a (get_c (e_base env) k) = None \<Longrightarrow>
      find_arg (args \<circ> snd) a (get_o s k) = None \<Longrightarrow> dig tcd k a \<notin> P \<Longrightarrow>
      find_arg args a (get_c S k) = None \<and> find_arg args a (get_c live k) = None"
proof -
  have le: "prefix (get_c (e_base env) k) (get_c live k)"
    and bok: "bucket_ok args i dirty (get_c live) (get_o s0)"
    using ok by (auto simp: run_ok_def caches_le_get overlay_ok_get)
  note bs = sim_get[OF sim]
  show "find_arg args a (get_c (e_base env) k) = Some e \<Longrightarrow> find_arg args a (get_c S k) = Some e"
    by (rule bucket_read_base[where base = "get_c (e_base env)", OF bs le])
  show "find_arg args a (get_c S k) = Some e"
    if "find_arg (args \<circ> snd) a (get_o s k) = Some (j, e)" "accepted P dirty (record_dep j s)"
    using bucket_read_overlay[OF bs bok that(1)] record_dep_accepted[OF that(2)] sim_file_index[OF sim]
    by simp
  show "find_arg args a (get_c S k) = None \<and> find_arg args a (get_c live k) = None"
    if "find_arg args a (get_c (e_base env) k) = None" "find_arg (args \<circ> snd) a (get_o s k) = None"
      "dig tcd k a \<notin> P"
    using miss_is_miss[OF ok that(1,3)] bucket_read_miss[OF bs that(2)] by simp
qed

lemma put_accepted: "accepted P dirty (put_s d k e s) = accepted P dirty s"
  by (simp add: accepted_def put_s_log)

lemma push_sim:
  assumes sim: "sim tcd cap i live s0 s S"
    and "find_arg (args \<circ> snd) (args e) (get_o s k) = None" "find_arg args (args e) (get_c live k) = None"
    and "length (get_c S k) < cap"
  shows "sim tcd cap i live s0 (put_s (dig tcd k (args e)) k e (record_miss d s)) (put_c k e S)"
  by (rule sim_put) (use assms in \<open>simp_all add: get_o_miss bucket_push[OF sim_get[OF sim]]\<close>)

text \<open>The cap decision of the session and of the serial run agree, either because the session
  reads exactly the committed bucket, or because neither ever blocks an insertion.\<close>

lemma exact_length:
  "sim tcd cap i live s0 s S \<Longrightarrow> get_o s0 k = [] \<Longrightarrow>
   length (get_c live k) + length (get_o s k) = length (get_c S k)"
  using sim_get[of tcd cap i live s0 s S] by (simp add: bucket_sim_def)

lemma unblocked_room:
  assumes sim: "sim tcd cap i live s0 s S" and fresh: "find_arg args (args e) (get_c S k) = None"
    and le: "session_le (put_s d k e (record_miss d' s)) sf"
    and "cap_blocked (snd (merge_bucketed args cap (get_l sf) (get_c live) a)) = cap_blocked a"
  shows "length (get_c S k) < cap"
proof (rule room_if_unblocked[OF sim_get[OF sim] fresh])
  show "prefix (get_l s @ [(k, e, d)]) (get_l sf)"
    using get_l_le[OF le] by (simp add: put_s_get get_o_miss)
qed (rule assms)

end

interpretation gen: bucket_cache generic_arguments c_generic
  "\<lambda>k e c. c\<lparr>c_generic := push_at k e (c_generic c)\<rparr>" o_generic "\<lambda>s. l_generic_inserts (o_current s)"
  "\<lambda>d k e s. s\<lparr>o_current := (o_current s)\<lparr>l_generic_inserts := l_generic_inserts (o_current s) @ [(k, e, d)]\<rparr>,
     o_generic := push_at k (l_file_index (o_current s), e) (o_generic s)\<rparr>"
  "\<lambda>tcd. digest_bucket tcd TAG_GENERIC" KGeneric
  by unfold_locales (simp_all add: flat_interp_simps find_arg_def)

interpretation inst: bucket_cache inst_arguments c_instantiations
  "\<lambda>k e c. c\<lparr>c_instantiations := push_at k e (c_instantiations c)\<rparr>" o_instantiations
  "\<lambda>s. l_instantiation_inserts (o_current s)"
  "\<lambda>d k e s. s\<lparr>o_current := (o_current s)\<lparr>l_instantiation_inserts :=
       l_instantiation_inserts (o_current s) @ [(k, e, d)]\<rparr>,
     o_instantiations := push_at k (l_file_index (o_current s), e) (o_instantiations s)\<rparr>"
  "\<lambda>tcd. digest_bucket tcd TAG_INSTANTIATION" KInst
  by unfold_locales (simp_all add: flat_interp_simps find_arg_def)

section \<open>The bucketed operations\<close>

lemma find_generic_arg: "find_generic a b = find_arg generic_arguments a b"
  by (simp add: find_arg_def)

lemma find_inst_arg: "find_inst a b = find_arg inst_arguments a b"
  by (simp add: find_arg_def)

lemma find_tagged_arg: "List.find (\<lambda>(_, e). args e = a) b = find_arg (args \<circ> snd) a b"
  by (simp add: find_arg_def case_prod_beta')

lemma ex_find_arg: "(\<exists>e \<in> set b. args e = a) \<longleftrightarrow> find_arg args a b \<noteq> None"
  by (auto simp: find_arg_None image_iff)

lemma ex_find_tagged: "(\<exists>(_, e) \<in> set b. args e = a) \<longleftrightarrow> find_arg (args \<circ> snd) a b \<noteq> None"
  by (auto simp: find_arg_None image_iff case_prod_beta')

lemmas find_simps = find_generic_arg find_inst_arg find_tagged_arg

lemma generic_lookup_le: "session_le s (snd (generic_lookup tcd env k a s))"
  by (auto simp: generic_lookup_def Let_def split: option.split)

lemma generic_insert_le: "session_le s (generic_insert tcd cap env k a ty err s)"
  by (auto simp: generic_insert_def Let_def base_generic_probe_def session_le_def record_miss_def)

lemma instantiation_intern_le: "session_le s (snd (instantiation_intern tcd cap env env' k a ty s))"
  by (auto simp: instantiation_intern_def Let_def session_le_def record_miss_def record_dep_def
      split: option.split)

lemma deferred_once_le: "session_le s t \<Longrightarrow> session_le s (t\<lparr>o_deferred_once := n\<rparr>)"
  by (simp add: session_le_def)

lemma instantiation_probe_le: "session_le s (snd (instantiation_probe tcd env k a s))"
proof -
  let ?s1 = "record_miss (digest_bucket tcd TAG_INSTANTIATION k a) s"
  obtain x s2 where d: "defer_check (\<lambda>t n. query_instantiation t k a n) env ?s1 = (x, s2)"
    by fastforce
  then have "session_le s s2"
    using miss_check_le[of s "\<lambda>t n. query_instantiation t k a n" env] by (metis snd_conv)
  then show ?thesis
    by (auto simp: instantiation_probe_def Let_def d deferred_once_le split: option.split)
qed

lemma instantiation_lookup_le: "session_le s (snd (instantiation_lookup tcd env k a s))"
  using instantiation_probe_le[of s tcd env k a]
  by (auto simp: instantiation_lookup_def split: prod.split instantiation_probe_result.split)

lemma generic_lookup_sim:
  assumes ok: "run_ok tcd i P dirty live s0 (e_base env)" and sim: "sim tcd cap i live s0 s S"
    and step: "generic_lookup tcd env k a s = (x, s')" and acc: "accepted P dirty s'"
  shows "x = get_persistent_generic_resolution S k a \<and> sim tcd cap i live s0 s' S"
proof (cases "find_arg generic_arguments a (c_generic (e_base env) k)")
  case base: None
  show ?thesis
  proof (cases "find_arg (generic_arguments \<circ> snd) a (o_generic s k)")
    case None
    then have s': "x = None"
        "s' = snd (defer_check (\<lambda>t n. query_generic t k a n) env
                (record_miss (digest_bucket tcd TAG_GENERIC k a) s))"
      using step base by (auto simp: generic_lookup_def base_generic_hit_def find_simps Let_def)
    then have "digest_bucket tcd TAG_GENERIC k a \<notin> P" using acc by (auto dest: record_miss_accepted)
    then show ?thesis using gen.answer_miss[OF ok sim base None] sim
      by (simp add: s' get_persistent_generic_resolution_def find_simps)
  next
    case (Some y)
    then have y: "find_arg (generic_arguments \<circ> snd) a (o_generic s k) = Some (fst y, snd y)" by simp
    then have s': "x = Some (generic_ty (snd y), generic_had_error (snd y))" "s' = record_dep (fst y) s"
      using step base by (auto simp: generic_lookup_def base_generic_hit_def find_simps split: prod.splits)
    then show ?thesis using gen.answer_overlay[OF ok sim y] acc sim
      by (simp add: get_persistent_generic_resolution_def find_simps)
  qed
next
  case (Some e)
  then show ?thesis using step sim gen.answer_base[OF ok sim Some]
    by (auto simp: generic_lookup_def base_generic_hit_def find_simps
        get_persistent_generic_resolution_def)
qed

lemma generic_insert_sim:
  assumes ok: "run_ok tcd i P dirty live s0 (e_base env)" and sim: "sim tcd cap i live s0 s S"
    and step: "s' = generic_insert tcd cap env k a ty err s" and acc: "accepted P dirty s'"
    and looked: "find_arg (generic_arguments \<circ> snd) a (o_generic s0 k) \<noteq> None \<longrightarrow>
      find_arg generic_arguments a (c_generic S k) \<noteq> None"
    and room: "find_arg generic_arguments a (c_generic (e_base env) k) = None \<Longrightarrow>
      find_arg (generic_arguments \<circ> snd) a (o_generic s k) = None \<Longrightarrow>
      find_arg generic_arguments a (c_generic S k) = None \<Longrightarrow>
      (cap \<le> length (c_generic (e_base env) k) + length (o_generic s k) \<longleftrightarrow> cap \<le> length (c_generic S k))"
  shows "sim tcd cap i live s0 s' (cache_persistent_generic_resolution cap k a ty err S)"
proof (cases "find_arg generic_arguments a (c_generic (e_base env) k) = None
    \<and> find_arg (generic_arguments \<circ> snd) a (o_generic s k) = None")
  case True
  let ?d = "digest_bucket tcd TAG_GENERIC k a"
  let ?e = "\<lparr>generic_arguments = a, generic_ty = ty, generic_had_error = err\<rparr>"
  have "accepted P dirty (record_miss ?d s)"
    using acc True unfolding step
    by (auto simp: generic_insert_def base_generic_probe_def ex_find_arg ex_find_tagged Let_def
        accepted_def record_miss_def split: if_splits)
  then have none: "find_arg generic_arguments a (c_generic S k) = None"
      "find_arg generic_arguments a (c_generic live k) = None"
    using gen.answer_miss[OF ok sim, of a k] record_miss_accepted True by auto
  show ?thesis
  proof (cases "cap \<le> length (c_generic S k)")
    case full: True
    then show ?thesis using True none room sim
      by (auto simp: step generic_insert_def base_generic_probe_def ex_find_arg ex_find_tagged Let_def
          cache_persistent_generic_resolution_def find_simps record_miss_def sim_def)
  next
    case False
    then have "sim tcd cap i live s0
        ((record_miss ?d s)\<lparr>o_current := (o_current (record_miss ?d s))\<lparr>l_generic_inserts :=
             l_generic_inserts (o_current (record_miss ?d s)) @ [(k, ?e, ?d)]\<rparr>,
           o_generic := push_at k (l_file_index (o_current (record_miss ?d s)), ?e)
             (o_generic (record_miss ?d s))\<rparr>)
        (S\<lparr>c_generic := push_at k ?e (c_generic S)\<rparr>)"
      using gen.push_sim[OF sim, where e = ?e and k = k and d = ?d] True none by simp
    then show ?thesis using True none room False
      by (simp add: step generic_insert_def base_generic_probe_def ex_find_arg ex_find_tagged Let_def
          cache_persistent_generic_resolution_def find_simps gen.get_o_miss)
  qed
next
  case False
  have "find_arg generic_arguments a (c_generic S k) \<noteq> None"
  proof (cases "find_arg generic_arguments a (c_generic (e_base env) k)")
    case None
    then obtain j e where hit: "find_arg (generic_arguments \<circ> snd) a (o_generic s k) = Some (j, e)"
      using False by auto
    show ?thesis
    proof (cases "find_arg (generic_arguments \<circ> snd) a (o_generic s0 k)")
      case None
      then have "find_arg generic_arguments a (bucket_own (l_generic_inserts (o_current s)) k) \<noteq> None"
        using hit gen.sim_get[OF sim] by (auto simp: bucket_sim_def find_arg_append find_arg_tagged)
      then show ?thesis using gen.sim_get[OF sim]
        by (auto simp: bucket_sim_def find_arg_append split: option.split)
    qed (use looked in simp)
  qed (use gen.answer_base[OF ok sim] in auto)
  then show ?thesis using False sim
    by (auto simp: step generic_insert_def base_generic_probe_def ex_find_arg ex_find_tagged Let_def
        cache_persistent_generic_resolution_def find_simps)
qed

lemma instantiation_intern_sim:
  assumes ok: "run_ok tcd i P dirty live s0 (e_base env)" and sim: "sim tcd cap i live s0 s S"
    and step: "instantiation_intern tcd cap env env' k a ty s = (x, s')" and acc: "accepted P dirty s'"
    and nref: "\<not> self_reference ar k a ty"
    and room: "find_arg inst_arguments a (c_instantiations (e_base env) k) = None \<Longrightarrow>
      find_arg (inst_arguments \<circ> snd) a (o_instantiations s k) = None \<Longrightarrow>
      find_arg inst_arguments a (c_instantiations S k) = None \<Longrightarrow>
      (cap \<le> length (c_instantiations (e_base env') k) + length (o_instantiations s k)
        \<longleftrightarrow> cap \<le> length (c_instantiations S k))"
  shows "\<exists>S'. intern_instantiation ar cap k a ty S = (x, S') \<and> sim tcd cap i live s0 s' S'"
proof (cases "find_arg inst_arguments a (c_instantiations (e_base env) k)")
  case base: None
  let ?d = "digest_bucket tcd TAG_INSTANTIATION k a"
  let ?e = "\<lparr>inst_arguments = a, inst_resolved = ty\<rparr>"
  show ?thesis
  proof (cases "find_arg (inst_arguments \<circ> snd) a (o_instantiations s k)")
    case None
    have "accepted P dirty (record_miss ?d s)"
      using acc step base None
      by (auto simp: instantiation_intern_def base_instantiation_entry_def find_simps Let_def
          accepted_def record_miss_def split: if_splits)
    then have none: "find_arg inst_arguments a (c_instantiations S k) = None"
        "find_arg inst_arguments a (c_instantiations live k) = None"
      using inst.answer_miss[OF ok sim base None] record_miss_accepted by auto
    show ?thesis
    proof (cases "cap \<le> length (c_instantiations S k)")
      case True
      then have "x = ty" "s' = (record_miss ?d s)\<lparr>o_capped := o_capped (record_miss ?d s) + 1\<rparr>"
        using step base None none room
        by (auto simp: instantiation_intern_def base_instantiation_entry_def base_instantiation_len_def
            find_simps Let_def inst.get_o_miss)
      then show ?thesis using True none sim nref by (simp add: intern_instantiation_def find_simps)
    next
      case False
      have "sim tcd cap i live s0
          ((record_miss ?d s)\<lparr>o_current := (o_current (record_miss ?d s))\<lparr>l_instantiation_inserts :=
               l_instantiation_inserts (o_current (record_miss ?d s)) @ [(k, ?e, ?d)]\<rparr>,
             o_instantiations := push_at k (l_file_index (o_current (record_miss ?d s)), ?e)
               (o_instantiations (record_miss ?d s))\<rparr>)
          (S\<lparr>c_instantiations := push_at k ?e (c_instantiations S)\<rparr>)"
        using inst.push_sim[OF sim, where e = ?e and k = k and d = ?d] None none False by simp
      moreover have "x = ty \<and> s' = (record_miss ?d s)\<lparr>o_current := (o_current (record_miss ?d s))\<lparr>l_instantiation_inserts :=
               l_instantiation_inserts (o_current (record_miss ?d s)) @ [(k, ?e, ?d)]\<rparr>,
             o_instantiations := push_at k (l_file_index (o_current (record_miss ?d s)), ?e)
               (o_instantiations (record_miss ?d s))\<rparr>"
        using step base None none room False
        by (auto simp: instantiation_intern_def base_instantiation_entry_def base_instantiation_len_def
            find_simps Let_def inst.get_o_miss)
      ultimately show ?thesis using none False nref by (simp add: intern_instantiation_def find_simps)
    qed
  next
    case (Some y)
    then have y: "find_arg (inst_arguments \<circ> snd) a (o_instantiations s k) = Some (fst y, snd y)" by simp
    then have s': "x = inst_resolved (snd y)" "s' = record_dep (fst y) s"
      using step base by (auto simp: instantiation_intern_def base_instantiation_entry_def find_simps
          Let_def split: prod.splits)
    then show ?thesis using inst.answer_overlay[OF ok sim y] acc sim nref
      by (simp add: intern_instantiation_def find_simps)
  qed
next
  case (Some e)
  then show ?thesis using step sim inst.answer_base[OF ok sim Some] nref
    by (auto simp: instantiation_intern_def base_instantiation_entry_def find_simps
        intern_instantiation_def)
qed

lemma defer_check_Some:
  "defer_check q env s = (Some p, s') \<Longrightarrow> 0 \<le> o_max_deferred s'"
  by (auto simp: defer_check_def split: option.splits reservation_lookup.splits prod.splits)

lemma instantiation_probe_sim:
  assumes ok: "run_ok tcd i P dirty live s0 (e_base env)" and sim: "sim tcd cap i live s0 s S"
    and step: "instantiation_probe tcd env k a s = (x, s')" and acc: "accepted P dirty s'"
    and valid: "o_max_deferred s' < 0"
  shows "x = lookup_instantiation_probe S k a \<and> sim tcd cap i live s0 s' S"
proof (cases "find_arg inst_arguments a (c_instantiations (e_base env) k)")
  case base: None
  show ?thesis
  proof (cases "find_arg (inst_arguments \<circ> snd) a (o_instantiations s k)")
    case None
    let ?s1 = "record_miss (digest_bucket tcd TAG_INSTANTIATION k a) s"
    obtain y s2 where d: "defer_check (\<lambda>t n. query_instantiation t k a n) env ?s1 = (y, s2)"
      by fastforce
    then have s2: "sim tcd cap i live s0 s2 S" "accepted P dirty s2 = accepted P dirty ?s1"
      using sim sim_defer_check[of tcd cap i live s0 _ env ?s1 S]
        accepted_defer_check[of P dirty _ env ?s1] by (metis sim_record_miss snd_conv)+
    have s': "x = ProbeMiss \<and> (s' = ?s1 \<or> s' = s2)"
      using step base None d valid
      by (auto dest!: defer_check_Some simp: instantiation_probe_def base_instantiation_entry_def find_simps Let_def
          split: if_splits option.splits)
    then have "accepted P dirty ?s1" using acc s2(2) by auto
    note digest = record_miss_accepted[OF this]
    show ?thesis using s' inst.answer_miss[OF ok sim base None digest] sim s2(1)
      by (auto simp: lookup_instantiation_probe_def find_simps)
  next
    case (Some y)
    then have y: "find_arg (inst_arguments \<circ> snd) a (o_instantiations s k) = Some (fst y, snd y)" by simp
    then have s': "x = ProbeHit (snd y)" "s' = record_dep (fst y) s"
      using step base by (auto simp: instantiation_probe_def base_instantiation_entry_def find_simps
          split: prod.splits)
    then show ?thesis using inst.answer_overlay[OF ok sim y] acc sim
      by (simp add: lookup_instantiation_probe_def find_simps)
  qed
next
  case (Some e)
  then show ?thesis using step sim inst.answer_base[OF ok sim Some]
    by (auto simp: instantiation_probe_def base_instantiation_entry_def find_simps
        lookup_instantiation_probe_def)
qed

lemma instantiation_lookup_sim:
  assumes "run_ok tcd i P dirty live s0 (e_base env)" "sim tcd cap i live s0 s S"
    and "instantiation_lookup tcd env k a s = (x, s')" "accepted P dirty s'" "o_max_deferred s' < 0"
  shows "x = lookup_instantiation S k a \<and> sim tcd cap i live s0 s' S"
proof -
  obtain y where y: "instantiation_probe tcd env k a s = (y, s')"
    and x: "x = (case y of ProbeHit e \<Rightarrow> Some e | _ \<Rightarrow> None)"
    using assms(3) by (cases "instantiation_probe tcd env k a s")
      (auto simp: instantiation_lookup_def split: instantiation_probe_result.splits)
  show ?thesis using instantiation_probe_sim[OF assms(1,2) y assms(4,5)] x
    by (auto simp: lookup_instantiation_def lookup_instantiation_probe_def split: option.split)
qed

end
