(* ===== verification/Serial_Equivalence.thy ===== *)
theory Serial_Equivalence
  imports Session_Simulation
begin

text \<open>
  Speculative checking is serial-equivalent: an accepted session run gives the result and the cache
  contents of the serial run at its position, and so does the whole commit walk for every
  assignment of files to workers and every interleaving of the replays.
\<close>

section \<open>Relations kept by every session operation\<close>

text \<open>A reflexive and transitive relation that every cache operation of a session keeps is kept by
  the whole check of a file. \<open>good\<close> restricts the environments the operations run in.\<close>

locale session_relation =
  fixes R :: "('t, 'f) worker_overlay \<Rightarrow> ('t, 'f) worker_overlay \<Rightarrow> bool"
    and good :: "('t, 'f) session_env \<Rightarrow> bool"
  assumes R_refl: "R s s"
    and R_trans: "R a b \<Longrightarrow> R b c \<Longrightarrow> R a c"
    and R_generic_lookup: "good env \<Longrightarrow> R s (snd (generic_lookup tcd env dk args s))"
    and R_generic_insert: "good env \<Longrightarrow> R s (generic_insert tcd cap env dk args ty err s)"
    and R_intern: "good env \<Longrightarrow> good env' \<Longrightarrow> R s (snd (instantiation_intern tcd cap env env' dk args ty s))"
    and R_probe: "good env \<Longrightarrow> R s (snd (instantiation_probe tcd env dk args s))"
    and R_physical_lookup: "good env \<Longrightarrow> R s (snd (physical_lookup env ik s))"
    and R_physical_intern: "good env \<Longrightarrow> R s (snd (physical_intern env ik ty s))"
    and R_template_lookup: "good env \<Longrightarrow> R s (snd (template_lookup env tk s))"
    and R_template_intern: "good env \<Longrightarrow> R s (snd (template_intern env tk template s))"
    and R_method_lookup: "good env \<Longrightarrow> R s (snd (method_lookup env mk s))"
    and R_method_intern: "good env \<Longrightarrow> R s (snd (method_intern env mk function s))"
    and R_overload_lookup: "good env \<Longrightarrow> R s (snd (overload_lookup env ok s))"
    and R_overload_intern: "good env \<Longrightarrow> R s (snd (overload_intern env ok function s))"
begin

lemma R_lookup: "good env \<Longrightarrow> R s (snd (instantiation_lookup tcd env dk args s))"
  using R_probe[of env s tcd dk args]
  by (auto simp: instantiation_lookup_def split: prod.split instantiation_probe_result.split)

lemma step:
  assumes "R s (snd y)" and "\<And>q t s. q \<in> range f \<Longrightarrow> R s (snd (session_run tcd ar cap env q t s))"
  shows "R s (snd (let (x, s') = y in session_run tcd ar cap env (f x) t s'))"
  using assms by (auto simp: Let_def split_beta intro: R_trans)

lemmas R_ops = R_generic_lookup R_intern R_probe R_lookup R_physical_lookup R_physical_intern
  R_template_lookup R_template_intern R_method_lookup R_method_intern R_overload_lookup
  R_overload_intern

lemma run:
  assumes good: "\<And>t. good (env t)"
  shows "R s (snd (session_run tcd ar cap env p t s))"
proof (induction p arbitrary: t s)
  case (GenericInsert k a ty err p)
  show ?case using R_trans[OF R_generic_insert[OF good] GenericInsert.IH] by simp
next
  case (InstIntern k a ty f)
  show ?case unfolding session_run.simps
    by (rule step) (auto simp: R_ops R_refl good InstIntern.IH)
next
  case (Done r)
  show ?case by (simp add: R_refl)
qed (unfold session_run.simps, (rule step, simp add: R_ops good, blast)+)

end

lemmas session_op_defs = generic_lookup_def generic_insert_def instantiation_intern_def
  instantiation_probe_def physical_lookup_def physical_intern_def template_lookup_def
  template_intern_def method_lookup_def method_intern_def overload_lookup_def overload_intern_def
  base_generic_probe_def record_miss_def record_dep_def Let_def

interpretation recorded: session_relation session_le "\<lambda>_. True"
  by unfold_locales
    (auto intro: session_le_trans generic_lookup_le generic_insert_le instantiation_intern_le
      instantiation_probe_le phys.look_le phys.intern_le tmpl.look_le tmpl.intern_le
      meth.look_le meth.intern_le over.look_le over.intern_le)

lemma session_run_le: "session_le s (snd (session_run tcd ar cap env p t s))"
  by (rule recorded.run) simp

text \<open>A session without a deferral context never defers.\<close>

interpretation undeferred: session_relation
  "\<lambda>s s'. o_max_deferred s' = o_max_deferred s" "\<lambda>env. e_defer env = None"
  by unfold_locales (auto simp: session_op_defs defer_check_def split: option.split)

text \<open>What a check leaves alone: the file index, the finished logs, and the overlay entries of
  other files.\<close>

definition session_frame :: "('t, 'f) worker_overlay \<Rightarrow> ('t, 'f) worker_overlay \<Rightarrow> bool" where
  "session_frame s s' \<longleftrightarrow>
     l_file_index (o_current s') = l_file_index (o_current s)
     \<and> o_finished s' = o_finished s \<and> o_current_active s' = o_current_active s
     \<and> (\<forall>k x. x \<in> set (o_generic s' k) \<longrightarrow> x \<in> set (o_generic s k) \<or> fst x = l_file_index (o_current s))
     \<and> (\<forall>k x. x \<in> set (o_instantiations s' k) \<longrightarrow>
          x \<in> set (o_instantiations s k) \<or> fst x = l_file_index (o_current s))
     \<and> (\<forall>k x. o_physical s' k = Some x \<longrightarrow> o_physical s k = Some x \<or> fst x = l_file_index (o_current s))
     \<and> (\<forall>k x. o_templates s' k = Some x \<longrightarrow> o_templates s k = Some x \<or> fst x = l_file_index (o_current s))
     \<and> (\<forall>k x. o_methods s' k = Some x \<longrightarrow> o_methods s k = Some x \<or> fst x = l_file_index (o_current s))
     \<and> (\<forall>k x. o_overloads s' k = Some x \<longrightarrow> o_overloads s k = Some x \<or> fst x = l_file_index (o_current s))"

lemma session_frame_trans: "session_frame a b \<Longrightarrow> session_frame b c \<Longrightarrow> session_frame a c"
  unfolding session_frame_def by (elim conjE, intro conjI allI impI) metis+

interpretation framed: session_relation session_frame "\<lambda>_. True"
proof unfold_locales
  show "session_frame a b \<Longrightarrow> session_frame b c \<Longrightarrow> session_frame a c"
    for a b c :: "('a, 'b) worker_overlay"
    by (rule session_frame_trans)
qed (auto simp: session_frame_def session_op_defs push_at_def defer_check_def
      split: option.split reservation_lookup.split prod.split if_splits)

section \<open>The check of one file\<close>

text \<open>The bucket cap acts alike in the session and in the serial run, either because the session
  reads exactly the committed buckets and started with an empty overlay, or because no insertion
  met the cap, neither in the session nor at publication.\<close>

definition unblocked :: "('e \<Rightarrow> 't list) \<Rightarrow> nat \<Rightarrow> ('k \<times> 'e \<times> u64) list \<Rightarrow> ('k \<Rightarrow> 'e list) \<Rightarrow> bool" where
  "unblocked args cap inserts cache \<longleftrightarrow>
     (\<exists>a. cap_blocked (snd (merge_bucketed args cap inserts cache a)) = cap_blocked a)"

definition caps_agree ::
    "nat \<Rightarrow> ('t, 'f) caches \<Rightarrow> ('t, 'f) worker_overlay \<Rightarrow> (nat \<Rightarrow> ('t, 'f) session_env)
      \<Rightarrow> ('t, 'f) worker_overlay \<Rightarrow> bool" where
  "caps_agree cap live s0 env sf \<longleftrightarrow>
     (\<forall>t. e_base (env t) = live) \<and> (\<forall>k. o_generic s0 k = []) \<and> (\<forall>k. o_instantiations s0 k = [])
     \<or> o_capped sf = 0
       \<and> unblocked generic_arguments cap (l_generic_inserts (o_current sf)) (c_generic live)
       \<and> unblocked inst_arguments cap (l_instantiation_inserts (o_current sf)) (c_instantiations live)"

lemma generic_room:
  assumes sim: "sim tcd cap i live s0 s S" and caps: "caps_agree cap live s0 env sf"
    and base: "find_arg generic_arguments a (c_generic (e_base (env t)) k) = None"
    and ov: "find_arg (generic_arguments \<circ> snd) a (o_generic s k) = None"
    and fresh: "find_arg generic_arguments a (c_generic S k) = None"
    and le: "session_le (generic_insert tcd cap (env t) k a ty err s) sf"
  shows "cap \<le> length (c_generic (e_base (env t)) k) + length (o_generic s k) \<longleftrightarrow> cap \<le> length (c_generic S k)"
  using caps unfolding caps_agree_def
proof (elim disjE conjE)
  assume "\<forall>t. e_base (env t) = live" "\<forall>k. o_generic s0 k = []"
  then show ?thesis using gen.exact_length[OF sim, of k] by simp
next
  assume capped: "o_capped sf = 0"
    and unblocked: "unblocked generic_arguments cap (l_generic_inserts (o_current sf)) (c_generic live)"
  let ?d = "digest_bucket tcd TAG_GENERIC k a"
  let ?e = "\<lparr>generic_arguments = a, generic_ty = ty, generic_had_error = err\<rparr>"
  note step = generic_insert_def base_generic_probe_def ex_find_arg ex_find_tagged Let_def
  have free: "\<not> cap \<le> length (c_generic (e_base (env t)) k) + length (o_generic s k)"
  proof
    assume "cap \<le> length (c_generic (e_base (env t)) k) + length (o_generic s k)"
    then have "o_capped (generic_insert tcd cap (env t) k a ty err s) = Suc (o_capped s)"
      using base ov by (simp add: step record_miss_def)
    then show False using le capped by (simp add: session_le_def)
  qed
  then have "session_le ((record_miss ?d s)\<lparr>o_current := (o_current (record_miss ?d s))\<lparr>l_generic_inserts :=
       l_generic_inserts (o_current (record_miss ?d s)) @ [(k, ?e, ?d)]\<rparr>,
     o_generic := push_at k (l_file_index (o_current (record_miss ?d s)), ?e) (o_generic (record_miss ?d s))\<rparr>) sf"
    using le base ov by (simp add: step gen.get_o_miss)
  then have "length (c_generic S k) < cap"
    using gen.unblocked_room[OF sim, where e = ?e and k = k and d = ?d and d' = ?d] unblocked fresh
    by (auto simp: unblocked_def)
  then show ?thesis using free by simp
qed

lemma inst_room:
  assumes sim: "sim tcd cap i live s0 s S" and caps: "caps_agree cap live s0 env sf"
    and base: "find_arg inst_arguments a (c_instantiations (e_base (env t)) k) = None"
    and ov: "find_arg (inst_arguments \<circ> snd) a (o_instantiations s k) = None"
    and fresh: "find_arg inst_arguments a (c_instantiations S k) = None"
    and le: "session_le (snd (instantiation_intern tcd cap (env t) (env t') k a ty s)) sf"
  shows "cap \<le> length (c_instantiations (e_base (env t')) k) + length (o_instantiations s k)
    \<longleftrightarrow> cap \<le> length (c_instantiations S k)"
  using caps unfolding caps_agree_def
proof (elim disjE conjE)
  assume "\<forall>t. e_base (env t) = live" "\<forall>k. o_instantiations s0 k = []"
  then show ?thesis using inst.exact_length[OF sim, of k] by simp
next
  assume capped: "o_capped sf = 0"
    and unblocked: "unblocked inst_arguments cap (l_instantiation_inserts (o_current sf)) (c_instantiations live)"
  let ?d = "digest_bucket tcd TAG_INSTANTIATION k a"
  let ?e = "\<lparr>inst_arguments = a, inst_resolved = ty\<rparr>"
  note step = instantiation_intern_def base_instantiation_entry_def base_instantiation_len_def
    find_simps Let_def
  have free: "length (c_instantiations (e_base (env t')) k) + length (o_instantiations s k) < cap"
  proof (rule ccontr)
    assume "\<not> length (c_instantiations (e_base (env t')) k) + length (o_instantiations s k) < cap"
    then have "o_capped (snd (instantiation_intern tcd cap (env t) (env t') k a ty s)) = Suc (o_capped s)"
      using base ov by (simp add: step record_miss_def)
    then show False using le capped by (simp add: session_le_def)
  qed
  then have "session_le ((record_miss ?d s)\<lparr>o_current := (o_current (record_miss ?d s))\<lparr>l_instantiation_inserts :=
       l_instantiation_inserts (o_current (record_miss ?d s)) @ [(k, ?e, ?d)]\<rparr>,
     o_instantiations := push_at k (l_file_index (o_current (record_miss ?d s)), ?e)
       (o_instantiations (record_miss ?d s))\<rparr>) sf"
    using le base ov by (simp add: step inst.get_o_miss)
  then have "length (c_instantiations S k) < cap"
    using inst.unblocked_room[OF sim, where e = ?e and k = k and d = ?d and d' = ?d] unblocked fresh
    by (auto simp: unblocked_def)
  then show ?thesis using free by simp
qed

text \<open>The lookup-before-insert discipline, and what it has established so far: an argument vector
  that was looked up and that an earlier file left in the overlay is committed.\<close>

definition looked_ok ::
    "('t, 'f) worker_overlay \<Rightarrow> (declaration_resolution_key \<times> 't list) set \<Rightarrow> ('t, 'f) caches
      \<Rightarrow> ('t, 'f, 'r) prog \<Rightarrow> bool" where
  "looked_ok s0 seen S p \<longleftrightarrow>
     (\<forall>k. o_generic s0 k = [])
     \<or> looks_before_inserting seen p
       \<and> (\<forall>(k, a) \<in> seen. find_arg (generic_arguments \<circ> snd) a (o_generic s0 k) \<noteq> None \<longrightarrow>
            find_arg generic_arguments a (c_generic S k) \<noteq> None)"

lemma serial_intern_generic [simp]:
  "intern_instantiation ar cap k a ty c = (x, c') \<Longrightarrow> c_generic c' = c_generic c"
  by (auto simp: intern_instantiation_def split: if_splits option.splits)

lemma serial_flat_generic [simp]:
  "intern_physical_interface_instantiation k v c = (x, c') \<Longrightarrow> c_generic c' = c_generic c"
  "intern_interface_template k2 v2 c = (x2, c') \<Longrightarrow> c_generic c' = c_generic c"
  "intern_physical_interface_method k3 v3 c = (x3, c') \<Longrightarrow> c_generic c' = c_generic c"
  "intern_physical_interface_overload k4 v4 c = (x4, c') \<Longrightarrow> c_generic c' = c_generic c"
  by (auto simp: intern_physical_interface_instantiation_def intern_interface_template_def
      intern_physical_interface_method_def intern_physical_interface_overload_def split: option.splits)

lemma looked_ok_cong:
  "looked_ok s0 seen S p \<Longrightarrow> c_generic S' = c_generic S \<Longrightarrow>
   (looks_before_inserting seen p \<Longrightarrow> looks_before_inserting seen q) \<Longrightarrow> looked_ok s0 seen S' q"
  by (auto simp: looked_ok_def)

lemma looked_ok_lookup:
  assumes ok: "run_ok tcd i P dirty live s0 (e_base env)" and sim: "sim tcd cap i live s0 s S"
    and step: "generic_lookup tcd env k a s = (x, s')" and acc: "accepted P dirty s'"
    and looked: "looked_ok s0 seen S (GenericLookup k a f)"
  shows "looked_ok s0 (insert (k, a) seen) S (f x)"
proof -
  have x: "x = get_persistent_generic_resolution S k a"
    using generic_lookup_sim[OF ok sim step acc] by simp
  have "find_arg (generic_arguments \<circ> snd) a (o_generic s0 k) = None" if "x = None"
  proof -
    have "find_arg (generic_arguments \<circ> snd) a (o_generic s k) = None"
      using step that by (auto simp: generic_lookup_def find_simps Let_def split: option.splits)
    then show ?thesis using gen.sim_get[OF sim] by (auto simp: bucket_sim_def find_arg_append split: option.splits)
  qed
  then have "find_arg (generic_arguments \<circ> snd) a (o_generic s0 k) \<noteq> None \<longrightarrow>
      find_arg generic_arguments a (c_generic S k) \<noteq> None"
    using x by (cases "find_arg generic_arguments a (c_generic S k)")
      (auto simp: get_persistent_generic_resolution_def find_simps)
  then show ?thesis using looked by (auto simp: looked_ok_def simp del: not_None_eq)
qed

lemma looked_ok_insert:
  assumes "looked_ok s0 seen S (GenericInsert k a ty err p)"
  shows "looked_ok s0 seen (cache_persistent_generic_resolution cap k a ty err S) p"
    and "find_arg (generic_arguments \<circ> snd) a (o_generic s0 k) \<noteq> None \<longrightarrow>
      find_arg generic_arguments a (c_generic S k) \<noteq> None"
proof -
  have keep: "find_arg generic_arguments a' (c_generic S k') \<noteq> None \<Longrightarrow>
      find_arg generic_arguments a' (c_generic (cache_persistent_generic_resolution cap k a ty err S) k') \<noteq> None"
    for a' k'
    by (auto simp: cache_persistent_generic_resolution_def push_at_def find_arg_append)
  show "looked_ok s0 seen (cache_persistent_generic_resolution cap k a ty err S) p"
    using assms keep unfolding looked_ok_def by (fastforce simp del: not_None_eq)
  show "find_arg (generic_arguments \<circ> snd) a (o_generic s0 k) \<noteq> None \<longrightarrow>
      find_arg generic_arguments a (c_generic S k) \<noteq> None"
    using assms by (auto simp: looked_ok_def)
qed

lemma session_run_sim:
  assumes ok: "\<And>t. run_ok tcd i P dirty live s0 (e_base (env t))"
    and caps: "caps_agree cap live s0 env sf" and acc: "accepted P dirty sf" and valid: "o_max_deferred sf < 0"
  shows "sim tcd cap i live s0 s S \<Longrightarrow> session_run tcd ar cap env p t s = (r, sf) \<Longrightarrow>
    looked_ok s0 seen S p \<Longrightarrow> \<exists>Sf. serial_run ar cap p S = (r, Sf) \<and> sim tcd cap i live s0 sf Sf"
proof (induction p arbitrary: t s S seen)
  case (Done x)
  then show ?case by auto
next
  case (GenericInsert k a ty err p)
  let ?s' = "generic_insert tcd cap (env t) k a ty err s"
  let ?S' = "cache_persistent_generic_resolution cap k a ty err S"
  have run: "session_run tcd ar cap env p (t + 1) ?s' = (r, sf)" using GenericInsert.prems(2) by simp
  then have le: "session_le ?s' sf" using session_run_le by (metis snd_conv)
  have "sim tcd cap i live s0 ?s' ?S'"
    by (rule generic_insert_sim[OF ok GenericInsert.prems(1) refl accepted_mono[OF le acc]
          looked_ok_insert(2)[OF GenericInsert.prems(3)]])
      (rule generic_room[OF GenericInsert.prems(1) caps _ _ _ le])
  from GenericInsert.IH[OF this run looked_ok_insert(1)[OF GenericInsert.prems(3)]]
  show ?case by simp
next
  case (GenericLookup k a f)
  obtain x s' where st: "generic_lookup tcd (env t) k a s = (x, s')" by fastforce
  have run: "session_run tcd ar cap env (f x) (t + 1) s' = (r, sf)" using GenericLookup.prems(2) st by simp
  then have acc': "accepted P dirty s'" using session_run_le accepted_mono acc by (metis snd_conv)
  note sim' = generic_lookup_sim[OF ok GenericLookup.prems(1) st acc']
  from GenericLookup.IH[OF rangeI sim'[THEN conjunct2] run
      looked_ok_lookup[OF ok GenericLookup.prems(1) st acc' GenericLookup.prems(3)]]
  show ?case using sim' by simp
next
  case (InstIntern k a ty f)
  show ?case
  proof (cases "self_reference ar k a ty")
    case True
    have run: "session_run tcd ar cap env (f ty) (t + 2) s = (r, sf)" using InstIntern.prems(2) True by simp
    have "looked_ok s0 seen S (f ty)" by (rule looked_ok_cong[OF InstIntern.prems(3)]) simp_all
    from InstIntern.IH[OF rangeI InstIntern.prems(1) run this]
    show ?thesis using True by (simp add: intern_instantiation_def)
  next
    case False
    obtain x s' where st: "instantiation_intern tcd cap (env t) (env (t + 1)) k a ty s = (x, s')" by fastforce
    have run: "session_run tcd ar cap env (f x) (t + 2) s' = (r, sf)"
      using InstIntern.prems(2) st False by simp
    then have le: "session_le s' sf" using session_run_le by (metis snd_conv)
    then have le': "session_le (snd (instantiation_intern tcd cap (env t) (env (t + 1)) k a ty s)) sf"
      unfolding st by simp
    obtain S' where S': "intern_instantiation ar cap k a ty S = (x, S')" "sim tcd cap i live s0 s' S'"
      using instantiation_intern_sim[OF ok InstIntern.prems(1) st accepted_mono[OF le acc] False
          inst_room[OF InstIntern.prems(1) caps _ _ _ le']] by blast
    have "looked_ok s0 seen S' (f x)" by (rule looked_ok_cong[OF InstIntern.prems(3)]) (use S' in simp_all)
    from InstIntern.IH[OF rangeI S'(2) run this]
    show ?thesis using S' by simp
  qed
next
  case (InstLookup k a f)
  obtain x s' where st: "instantiation_lookup tcd (env t) k a s = (x, s')" by fastforce
  have run: "session_run tcd ar cap env (f x) (t + 1) s' = (r, sf)" using InstLookup.prems(2) st by simp
  then have acc': "accepted P dirty s'" using session_run_le accepted_mono acc by (metis snd_conv)
  have valid': "o_max_deferred s' < 0"
    using run session_run_le[of s' tcd ar cap env "f x" "t + 1"] valid by (simp add: session_le_def)
  note sim' = instantiation_lookup_sim[OF ok InstLookup.prems(1) st acc' valid']
  have "looked_ok s0 seen S (f x)" by (rule looked_ok_cong[OF InstLookup.prems(3)]) simp_all
  from InstLookup.IH[OF rangeI sim'[THEN conjunct2] run this]
  show ?case using sim' by simp
next
  case (InstProbe k a f)
  obtain x s' where st: "instantiation_probe tcd (env t) k a s = (x, s')" by fastforce
  have run: "session_run tcd ar cap env (f x) (t + 1) s' = (r, sf)" using InstProbe.prems(2) st by simp
  then have acc': "accepted P dirty s'" using session_run_le accepted_mono acc by (metis snd_conv)
  have valid': "o_max_deferred s' < 0"
    using run session_run_le[of s' tcd ar cap env "f x" "t + 1"] valid by (simp add: session_le_def)
  note sim' = instantiation_probe_sim[OF ok InstProbe.prems(1) st acc' valid']
  have "looked_ok s0 seen S (f x)" by (rule looked_ok_cong[OF InstProbe.prems(3)]) simp_all
  from InstProbe.IH[OF rangeI sim'[THEN conjunct2] run this]
  show ?case using sim' by simp
next
  case (PhysicalLookup k f)
  obtain x s' where st: "physical_lookup (env t) k s = (x, s')" by fastforce
  have run: "session_run tcd ar cap env (f x) (t + 1) s' = (r, sf)" using PhysicalLookup.prems(2) st by simp
  then have acc': "accepted P dirty s'" using session_run_le accepted_mono acc by (metis snd_conv)
  note sim' = phys.look_sim[OF ok PhysicalLookup.prems(1) st acc']
  have "looked_ok s0 seen S (f x)" by (rule looked_ok_cong[OF PhysicalLookup.prems(3)]) simp_all
  from PhysicalLookup.IH[OF rangeI sim'[THEN conjunct2] run this]
  show ?case using sim' by simp
next
  case (TemplateLookup k f)
  obtain x s' where st: "template_lookup (env t) k s = (x, s')" by fastforce
  have run: "session_run tcd ar cap env (f x) (t + 1) s' = (r, sf)" using TemplateLookup.prems(2) st by simp
  then have acc': "accepted P dirty s'" using session_run_le accepted_mono acc by (metis snd_conv)
  note sim' = tmpl.look_sim[OF ok TemplateLookup.prems(1) st acc']
  have "looked_ok s0 seen S (f x)" by (rule looked_ok_cong[OF TemplateLookup.prems(3)]) simp_all
  from TemplateLookup.IH[OF rangeI sim'[THEN conjunct2] run this]
  show ?case using sim' by simp
next
  case (MethodLookup k f)
  obtain x s' where st: "method_lookup (env t) k s = (x, s')" by fastforce
  have run: "session_run tcd ar cap env (f x) (t + 1) s' = (r, sf)" using MethodLookup.prems(2) st by simp
  then have acc': "accepted P dirty s'" using session_run_le accepted_mono acc by (metis snd_conv)
  note sim' = meth.look_sim[OF ok MethodLookup.prems(1) st acc']
  have "looked_ok s0 seen S (f x)" by (rule looked_ok_cong[OF MethodLookup.prems(3)]) simp_all
  from MethodLookup.IH[OF rangeI sim'[THEN conjunct2] run this]
  show ?case using sim' by simp
next
  case (OverloadLookup k f)
  obtain x s' where st: "overload_lookup (env t) k s = (x, s')" by fastforce
  have run: "session_run tcd ar cap env (f x) (t + 1) s' = (r, sf)" using OverloadLookup.prems(2) st by simp
  then have acc': "accepted P dirty s'" using session_run_le accepted_mono acc by (metis snd_conv)
  note sim' = over.look_sim[OF ok OverloadLookup.prems(1) st acc']
  have "looked_ok s0 seen S (f x)" by (rule looked_ok_cong[OF OverloadLookup.prems(3)]) simp_all
  from OverloadLookup.IH[OF rangeI sim'[THEN conjunct2] run this]
  show ?case using sim' by simp
next
  case (PhysicalIntern k v f)
  obtain x s' where st: "physical_intern (env t) k v s = (x, s')" by fastforce
  have run: "session_run tcd ar cap env (f x) (t + 1) s' = (r, sf)" using PhysicalIntern.prems(2) st by simp
  then have acc': "accepted P dirty s'" using session_run_le accepted_mono acc by (metis snd_conv)
  from phys.intern_sim[OF ok PhysicalIntern.prems(1) st acc'] obtain S' where
    S': "intern_physical_interface_instantiation k v S = (x, S')" "sim tcd cap i live s0 s' S'" by blast
  have "looked_ok s0 seen S' (f x)" by (rule looked_ok_cong[OF PhysicalIntern.prems(3)]) (use S' in simp_all)
  from PhysicalIntern.IH[OF rangeI S'(2) run this]
  show ?case using S' by simp
next
  case (TemplateIntern k v f)
  obtain x s' where st: "template_intern (env t) k v s = (x, s')" by fastforce
  have run: "session_run tcd ar cap env (f x) (t + 1) s' = (r, sf)" using TemplateIntern.prems(2) st by simp
  then have acc': "accepted P dirty s'" using session_run_le accepted_mono acc by (metis snd_conv)
  from tmpl.intern_sim[OF ok TemplateIntern.prems(1) st acc'] obtain S' where
    S': "intern_interface_template k v S = (x, S')" "sim tcd cap i live s0 s' S'" by blast
  have "looked_ok s0 seen S' (f x)" by (rule looked_ok_cong[OF TemplateIntern.prems(3)]) (use S' in simp_all)
  from TemplateIntern.IH[OF rangeI S'(2) run this]
  show ?case using S' by simp
next
  case (MethodIntern k v f)
  obtain x s' where st: "method_intern (env t) k v s = (x, s')" by fastforce
  have run: "session_run tcd ar cap env (f x) (t + 1) s' = (r, sf)" using MethodIntern.prems(2) st by simp
  then have acc': "accepted P dirty s'" using session_run_le accepted_mono acc by (metis snd_conv)
  from meth.intern_sim[OF ok MethodIntern.prems(1) st acc'] obtain S' where
    S': "intern_physical_interface_method k v S = (x, S')" "sim tcd cap i live s0 s' S'" by blast
  have "looked_ok s0 seen S' (f x)" by (rule looked_ok_cong[OF MethodIntern.prems(3)]) (use S' in simp_all)
  from MethodIntern.IH[OF rangeI S'(2) run this]
  show ?case using S' by simp
next
  case (OverloadIntern k v f)
  obtain x s' where st: "overload_intern (env t) k v s = (x, s')" by fastforce
  have run: "session_run tcd ar cap env (f x) (t + 1) s' = (r, sf)" using OverloadIntern.prems(2) st by simp
  then have acc': "accepted P dirty s'" using session_run_le accepted_mono acc by (metis snd_conv)
  from over.intern_sim[OF ok OverloadIntern.prems(1) st acc'] obtain S' where
    S': "intern_physical_interface_overload k v S = (x, S')" "sim tcd cap i live s0 s' S'" by blast
  have "looked_ok s0 seen S' (f x)" by (rule looked_ok_cong[OF OverloadIntern.prems(3)]) (use S' in simp_all)
  from OverloadIntern.IH[OF rangeI S'(2) run this]
  show ?case using S' by simp
qed

end
