(* ===== verification/Commit_Walk.thy ===== *)
theory Commit_Walk
  imports Serial_Equivalence
begin

text \<open>
  The commit walk over all files: publication of accepted logs, the inline recheck, the worker
  pass, and the invariant of the walk from which the serial equivalence of the whole parallel
  phase follows.
\<close>

section \<open>Publishing an accepted log\<close>

lemma apply_sim:
  assumes "sim tcd cap i live s0 s S"
  shows "apply_file_log cap (o_current s) live published stats =
    (True, S, published \<union> set (insert_digests (o_current s)),
     stats\<lparr>s_published_entries := s_published_entries stats + length (insert_digests (o_current s))\<rparr>)"
proof -
  note parts = assms[unfolded sim_def]
  show ?thesis
    by (simp add: apply_file_log_def Let_def
        merge_bucketed_sim[OF parts[THEN conjunct2, THEN conjunct1]]
        merge_bucketed_sim[OF parts[THEN conjunct2, THEN conjunct2, THEN conjunct1]]
        merge_flat_sim[OF phys.sim_get[OF assms]] merge_flat_sim[OF tmpl.sim_get[OF assms]]
        merge_flat_sim[OF meth.sim_get[OF assms]] merge_flat_sim[OF over.sim_get[OF assms]]
        publish_all_append insert_digests_def)
      (simp add: publish_all_def Un_assoc)
qed

lemma apply_blocked_mono:
  assumes "apply_file_log cap log live published stats = (c, live', published', stats')"
  shows "s_merge_cap_blocked stats \<le> s_merge_cap_blocked stats'"
    and "s_merge_cap_blocked stats' = s_merge_cap_blocked stats \<Longrightarrow>
      unblocked generic_arguments cap (l_generic_inserts log) (c_generic live)
      \<and> unblocked inst_arguments cap (l_instantiation_inserts log) (c_instantiations live)"
proof -
  let ?a0 = "\<lparr>m_published = published, m_stats = stats, m_complete = True\<rparr>"
  let ?a1 = "snd (merge_bucketed generic_arguments cap (l_generic_inserts log) (c_generic live) ?a0)"
  let ?a2 = "snd (merge_bucketed inst_arguments cap (l_instantiation_inserts log) (c_instantiations live) ?a1)"
  have "s_merge_cap_blocked stats' = cap_blocked ?a2"
    using assms by (simp add: apply_file_log_def Let_def split_beta) (metis merge_flat_blocked)
  moreover have "cap_blocked ?a0 \<le> cap_blocked ?a1" "cap_blocked ?a1 \<le> cap_blocked ?a2"
    by (rule merge_bucketed_blocked_mono)+
  ultimately have le: "cap_blocked ?a0 \<le> cap_blocked ?a1" "cap_blocked ?a1 \<le> s_merge_cap_blocked stats'"
      "s_merge_cap_blocked stats' = cap_blocked ?a2" by simp_all
  then show "s_merge_cap_blocked stats \<le> s_merge_cap_blocked stats'" by simp
  assume "s_merge_cap_blocked stats' = s_merge_cap_blocked stats"
  then have "cap_blocked ?a1 = cap_blocked ?a0" "cap_blocked ?a2 = cap_blocked ?a1" using le by simp_all
  then show "unblocked generic_arguments cap (l_generic_inserts log) (c_generic live)
      \<and> unblocked inst_arguments cap (l_instantiation_inserts log) (c_instantiations live)"
    unfolding unblocked_def by blast
qed

lemma caches_le_refl [simp]: "caches_le c c"
  by (simp add: caches_le_def)

lemma caches_le_trans: "caches_le a b \<Longrightarrow> caches_le b c \<Longrightarrow> caches_le a c"
  by (auto simp: caches_le_def intro: prefix_order.trans map_le_trans)

lemma caches_le_cached:
  assumes le: "caches_le a b" and hit: "cached a K \<noteq> None"
  shows "cached b K = cached a K"
proof (cases K)
  case (KGeneric k args)
  then show ?thesis using hit find_arg_prefix[OF gen.caches_le_get[OF le], of generic_arguments args k]
    by (auto simp: find_simps)
next
  case (KInst k args)
  then show ?thesis using hit find_arg_prefix[OF inst.caches_le_get[OF le], of inst_arguments args k]
    by (auto simp: find_simps)
qed (use le hit in \<open>auto simp: caches_le_def map_le_def dom_def\<close>)

lemma sim_caches_le: "sim tcd cap i live s0 s S \<Longrightarrow> caches_le live S"
proof -
  assume sim: "sim tcd cap i live s0 s S"
  have flat: "live' \<subseteq>\<^sub>m S'" if "flat_sim i live' ov0 dig ins ov S'" for live' ov0 dig ins ov S'
    unfolding map_le_def
  proof
    fix k assume "k \<in> dom live'"
    then have "flat_own ins k = None" using flat_sim_fresh[OF that, of k] by (cases "flat_own ins k") auto
    then show "live' k = S' k" using that by (simp add: flat_sim_def map_add_def)
  qed
  show ?thesis
    using sim flat[OF phys.sim_get[OF sim]] flat[OF tmpl.sim_get[OF sim]] flat[OF meth.sim_get[OF sim]]
      flat[OF over.sim_get[OF sim]]
    by (simp add: caches_le_def sim_def bucket_sim_def)
qed

text \<open>Every key the run added is covered by the digests its log publishes.\<close>

lemma sim_covered:
  assumes sim: "sim tcd cap i live s0 s S" and cov: "covered tcd P base live"
  shows "covered tcd (P \<union> set (insert_digests (o_current s))) base S"
proof -
  have "cached live K \<noteq> None \<or> cache_digest tcd K \<in> set (insert_digests (o_current s))"
    if K: "cached S K \<noteq> None" for K
  proof -
    have bucket: "find_arg args a (live' k) \<noteq> None \<or> dig k a \<in> (snd \<circ> snd) ` set ins"
      if bs: "bucket_sim args cap i live' ov0 dig ins ov S'" and hit: "find_arg args a (S' k) \<noteq> None"
      for args :: "'e \<Rightarrow> 'a list" and a live' and k :: 'g and ov0 dig ins ov S'
    proof (cases "find_arg args a (live' k)")
      case None
      then obtain e where "find_arg args a (bucket_own ins k) = Some e"
        using bs hit by (auto simp: bucket_sim_def find_arg_append)
      then obtain d where "(k, e, d) \<in> set ins" "args e = a"
        by (auto dest!: find_arg_SomeD simp: bucket_own_set)
      then show ?thesis using bs by (force simp: bucket_sim_def)
    qed simp
    have flat: "live' k \<noteq> None \<or> dig k \<in> (snd \<circ> snd) ` set ins"
      if fs: "flat_sim i live' ov0 dig ins ov S'" and hit: "S' k \<noteq> None"
      for live' :: "'g \<rightharpoonup> 'h" and k ov0 dig ins ov S'
    proof (cases "flat_own ins k")
      case (Some v)
      then obtain d where "(k, v, d) \<in> set ins" by (auto dest: flat_own_SomeD)
      then show ?thesis using fs by (force simp: flat_sim_def)
    qed (use fs hit in \<open>simp add: flat_sim_def map_add_def\<close>)
    show ?thesis
    proof (cases K)
      case (KGeneric k a)
      then show ?thesis using bucket[OF gen.sim_get[OF sim], of a k] K
        by (auto simp: insert_digests_def find_simps)
    next
      case (KInst k a)
      then show ?thesis using bucket[OF inst.sim_get[OF sim], of a k] K
        by (auto simp: insert_digests_def find_simps)
    next
      case (KPhysical k)
      then show ?thesis using flat[OF phys.sim_get[OF sim], of k] K by (auto simp: insert_digests_def)
    next
      case (KTemplate k)
      then show ?thesis using flat[OF tmpl.sim_get[OF sim], of k] K by (auto simp: insert_digests_def)
    next
      case (KMethod k)
      then show ?thesis using flat[OF meth.sim_get[OF sim], of k] K by (auto simp: insert_digests_def)
    next
      case (KOverload k)
      then show ?thesis using flat[OF over.sim_get[OF sim], of k] K by (auto simp: insert_digests_def)
    qed
  qed
  then show ?thesis using cov by (auto simp: covered_def)
qed

lemma begin_file_overlay [simp]:
  "o_generic (begin_file i s) = o_generic s" "o_instantiations (begin_file i s) = o_instantiations s"
  "o_physical (begin_file i s) = o_physical s" "o_templates (begin_file i s) = o_templates s"
  "o_methods (begin_file i s) = o_methods s" "o_overloads (begin_file i s) = o_overloads s"
  "o_current (begin_file i s) = empty_log i" "o_max_deferred (begin_file i s) = o_max_deferred s"
  "o_capped (begin_file i s) = o_capped s" "o_current_active (begin_file i s)"
  by (simp_all add: begin_file_def Let_def)

lemma sim_begin: "sim tcd cap i live (begin_file i s) (begin_file i s) live"
  by (simp add: sim_def empty_log_def bucket_sim_start flat_sim_start)

section \<open>One position\<close>

lemma session_run_frame: "session_frame s (snd (session_run tcd ar cap env p t s))"
  by (rule framed.run) simp

lemma session_run_not_deferred:
  "(\<And>t. e_defer (env t) = None) \<Longrightarrow>
   o_max_deferred (snd (session_run tcd ar cap env p t s)) = o_max_deferred s"
  by (rule undeferred.run)

lemma new_overlay_simps [simp]:
  "o_generic new_overlay = (\<lambda>_. [])" "o_instantiations new_overlay = (\<lambda>_. [])"
  "o_physical new_overlay = Map.empty" "o_templates new_overlay = Map.empty"
  "o_methods new_overlay = Map.empty" "o_overloads new_overlay = Map.empty"
  "o_max_deferred new_overlay = -1" "o_capped new_overlay = 0" "o_finished new_overlay = []"
  "\<not> o_current_active new_overlay"
  by (simp_all add: new_overlay_def)

lemma overlay_ok_new: "overlay_ok i dirty live (begin_file i new_overlay)"
  by (simp add: overlay_ok_def bucket_ok_def flat_ok_def)

lemma begin_file_finished:
  "o_finished (begin_file i s) = o_finished s @ (if o_current_active s then [o_current s] else [])"
  by (simp add: begin_file_def Let_def)

lemma single_file_logs:
  assumes "session_run tcd ar cap env p t (begin_file i new_overlay) = (r, sf)"
  shows "fst (take_file_logs sf) = [o_current sf]"
  using session_run_frame[of "begin_file i new_overlay" tcd ar cap env p t] assms
  by (simp add: session_frame_def take_file_logs_def Let_def begin_file_finished)

text \<open>A run whose log is accepted agrees with the serial run from the committed state.\<close>

lemma accepted_run:
  assumes run: "session_run tcd ar cap env p 0 (begin_file i s) = (r, sf)"
    and base: "\<And>t. caches_le (e_base (env t)) live \<and> covered tcd P (e_base (env t)) live"
    and ov: "overlay_ok i dirty live (begin_file i s)" and acc: "accepted P dirty sf"
    and valid: "o_max_deferred sf < 0" and capped: "o_capped sf = 0"
    and unblocked: "unblocked generic_arguments cap (l_generic_inserts (o_current sf)) (c_generic live)
      \<and> unblocked inst_arguments cap (l_instantiation_inserts (o_current sf)) (c_instantiations live)"
    and look: "looks_before_inserting {} p"
  shows "\<exists>Sf. serial_run ar cap p live = (r, Sf) \<and> sim tcd cap i live (begin_file i s) sf Sf"
proof (rule session_run_sim[OF _ _ acc valid sim_begin run])
  show "run_ok tcd i P dirty live (begin_file i s) (e_base (env t))" for t
    using base ov by (simp add: run_ok_def)
  show "caps_agree cap live (begin_file i s) env sf"
    using capped unblocked by (simp add: caps_agree_def)
  show "looked_ok (begin_file i s) {} live p" using look by (simp add: looked_ok_def)
qed

text \<open>A live-reading session with a fresh overlay agrees with the serial run unconditionally.\<close>

lemma recheck_run:
  assumes run: "session_run tcd ar cap (\<lambda>_. \<lparr>e_base = live, e_defer = None\<rparr>) p 0 (begin_file i new_overlay) = (r, sf)"
  shows "\<exists>Sf. serial_run ar cap p live = (r, Sf) \<and> sim tcd cap i live (begin_file i new_overlay) sf Sf"
proof (rule session_run_sim[where P = "{}" and dirty = "{}", OF _ _ _ _ sim_begin run])
  show "run_ok tcd i {} {} live (begin_file i new_overlay) (e_base \<lparr>e_base = live, e_defer = None\<rparr>)"
    by (simp add: run_ok_def covered_def overlay_ok_new)
  show "caps_agree cap live (begin_file i new_overlay) (\<lambda>_. \<lparr>e_base = live, e_defer = None\<rparr>) sf"
    by (simp add: caps_agree_def)
  show "accepted {} {} sf" by (simp add: accepted_def)
  show "o_max_deferred sf < 0"
    using run session_run_not_deferred[of "\<lambda>_. \<lparr>e_base = live, e_defer = None\<rparr>" tcd ar cap p 0
        "begin_file i new_overlay"] by simp
  show "looked_ok (begin_file i new_overlay) {} live p" by (simp add: looked_ok_def)
qed

lemma recheck_eq:
  obtains r sf Sf where "serial_run ar cap p (w_live w) = (r, Sf)"
    "sim tcd cap i (w_live w) (begin_file i new_overlay) sf Sf"
    "recheck tcd ar cap p i w = w\<lparr>w_live := Sf,
       w_published := w_published w \<union> set (insert_digests (o_current sf)),
       w_stats := (w_stats w)\<lparr>s_published_entries :=
         s_published_entries (w_stats w) + length (insert_digests (o_current sf))\<rparr>,
       w_slots := (w_slots w)[i := Some r], w_logs := (w_logs w)[i := None],
       w_capped := w_capped w + o_capped sf\<rparr>"
proof -
  obtain r sf where run: "session_run tcd ar cap (\<lambda>_. \<lparr>e_base = w_live w, e_defer = None\<rparr>) p 0
      (begin_file i new_overlay) = (r, sf)" by fastforce
  obtain Sf where Sf: "serial_run ar cap p (w_live w) = (r, Sf)"
      "sim tcd cap i (w_live w) (begin_file i new_overlay) sf Sf"
    using recheck_run[OF run] by blast
  show ?thesis
    by (rule that[OF Sf]) (simp add: recheck_def run single_file_logs[OF run] apply_logs_def apply_sim[OF Sf(2)])
qed

text \<open>
  The inline recheck of a conflicted file is the serial check: for every file, every committed
  cache state and every bucket cap, the result stored in the file's slot and the caches after the
  publication of the recheck's log are those of a serial run of the file from the committed state.
\<close>

theorem recheck_is_serial:
  "w_slots (recheck tcd ar cap p i w) = (w_slots w)[i := Some (fst (serial_run ar cap p (w_live w)))]
   \<and> w_live (recheck tcd ar cap p i w) = snd (serial_run ar cap p (w_live w))"
  by (rule recheck_eq[of ar cap p w tcd i]) simp

section \<open>The worker pass\<close>

lemma run_worker_append:
  "run_worker tcd ar cap snap progs (xs @ ys) s =
     (let (r1, s1) = run_worker tcd ar cap snap progs xs s;
          (r2, s2) = run_worker tcd ar cap snap progs ys s1 in (r1 @ r2, s2))"
  by (induction xs arbitrary: s) (auto simp: Let_def split_beta)

text \<open>The overlay of a worker before the files from position \<open>m\<close> on, and the speculative check of
  file \<open>i\<close> by the worker it is assigned to.\<close>

definition worker_at ::
    "('t \<Rightarrow> u64) \<Rightarrow> ('t \<Rightarrow> (rstr \<times> 't list) option) \<Rightarrow> nat \<Rightarrow> ('t, 'f) caches
      \<Rightarrow> ('t, 'f, 'r) prog list \<Rightarrow> (nat \<Rightarrow> nat) \<Rightarrow> nat \<Rightarrow> nat \<Rightarrow> ('t, 'f) worker_overlay" where
  "worker_at tcd ar cap snap progs assign w m =
     snd (run_worker tcd ar cap snap progs (worker_files assign m w) new_overlay)"

definition speculate ::
    "('t \<Rightarrow> u64) \<Rightarrow> ('t \<Rightarrow> (rstr \<times> 't list) option) \<Rightarrow> nat \<Rightarrow> ('t, 'f) caches
      \<Rightarrow> ('t, 'f, 'r) prog list \<Rightarrow> (nat \<Rightarrow> nat) \<Rightarrow> nat \<Rightarrow> 'r \<times> ('t, 'f) worker_overlay" where
  "speculate tcd ar cap snap progs assign i =
     session_run tcd ar cap (\<lambda>_. \<lparr>e_base = snap, e_defer = None\<rparr>) (progs ! i) 0
       (begin_file i (worker_at tcd ar cap snap progs assign (assign i) i))"

definition all_logs :: "('t, 'f) worker_overlay \<Rightarrow> ('t, 'f) file_cache_log list" where
  "all_logs s = o_finished s @ (if o_current_active s then [o_current s] else [])"

lemma take_file_logs_all: "fst (take_file_logs s) = all_logs s" "o_capped (snd (take_file_logs s)) = o_capped s"
  by (simp_all add: take_file_logs_def all_logs_def Let_def)

lemma worker_at_0 [simp]: "worker_at tcd ar cap snap progs assign w 0 = new_overlay"
  by (simp add: worker_at_def worker_files_def)

lemma worker_files_Suc:
  "worker_files assign (Suc m) w = worker_files assign m w @ (if assign m = w then [m] else [])"
  by (simp add: worker_files_def)

lemma worker_at_Suc:
  "worker_at tcd ar cap snap progs assign w (Suc m) =
     (if assign m = w then snd (speculate tcd ar cap snap progs assign m)
      else worker_at tcd ar cap snap progs assign w m)"
  by (auto simp: worker_at_def worker_files_Suc run_worker_append speculate_def Let_def split_beta)

lemma speculate_frame:
  "session_frame (begin_file i (worker_at tcd ar cap snap progs assign (assign i) i))
     (snd (speculate tcd ar cap snap progs assign i))"
  by (simp add: speculate_def session_run_frame)

lemma speculate_index [simp]:
  "l_file_index (o_current (snd (speculate tcd ar cap snap progs assign i))) = i"
  using speculate_frame[of i tcd ar cap snap progs assign] by (simp add: session_frame_def empty_log_def)

lemma speculate_logs:
  "all_logs (snd (speculate tcd ar cap snap progs assign i)) =
     all_logs (worker_at tcd ar cap snap progs assign (assign i) i)
     @ [o_current (snd (speculate tcd ar cap snap progs assign i))]"
  using speculate_frame[of i tcd ar cap snap progs assign]
  by (simp add: session_frame_def all_logs_def begin_file_finished)

lemma worker_run:
  "fst (run_worker tcd ar cap snap progs (worker_files assign m w) new_overlay) =
     map (\<lambda>i. (i, fst (speculate tcd ar cap snap progs assign i))) (worker_files assign m w)
   \<and> all_logs (worker_at tcd ar cap snap progs assign w m) =
     map (\<lambda>i. o_current (snd (speculate tcd ar cap snap progs assign i))) (worker_files assign m w)"
proof (induction m)
  case 0
  show ?case by (simp add: worker_files_def all_logs_def)
next
  case (Suc m)
  show ?case
  proof (cases "assign m = w")
    case True
    then show ?thesis
      using Suc speculate_logs[of tcd ar cap snap progs assign m]
      by (simp add: worker_at_Suc worker_files_Suc run_worker_append Let_def split_beta)
        (simp add: speculate_def worker_at_def)
  next
    case False
    then show ?thesis using Suc by (simp add: worker_at_Suc worker_files_Suc)
  qed
qed

lemma worker_pass_eq:
  "worker_pass tcd ar cap snap progs (worker_files assign n w) =
     (map (\<lambda>i. (i, fst (speculate tcd ar cap snap progs assign i))) (worker_files assign n w),
      map (\<lambda>i. o_current (snd (speculate tcd ar cap snap progs assign i))) (worker_files assign n w),
      o_capped (worker_at tcd ar cap snap progs assign w n))"
proof -
  obtain rs s where run: "run_worker tcd ar cap snap progs (worker_files assign n w) new_overlay = (rs, s)"
    by fastforce
  then show ?thesis
    using worker_run[of tcd ar cap snap progs assign n w] take_file_logs_all[of s]
    by (cases "take_file_logs s") (auto simp: worker_pass_def worker_at_def Let_def)
qed

lemma worker_capped_mono:
  "m \<le> m' \<Longrightarrow> o_capped (worker_at tcd ar cap snap progs assign w m)
     \<le> o_capped (worker_at tcd ar cap snap progs assign w m')"
proof (induction m' rule: nat_induct_at_least)
  case (Suc m')
  have "o_capped (worker_at tcd ar cap snap progs assign (assign m') m')
      \<le> o_capped (snd (speculate tcd ar cap snap progs assign m'))"
    using session_run_le[of "begin_file m' (worker_at tcd ar cap snap progs assign (assign m') m')"
        tcd ar cap "\<lambda>_. \<lparr>e_base = snap, e_defer = None\<rparr>" "progs ! m'" 0]
    by (simp add: speculate_def session_le_def)
  then show ?case using Suc by (auto simp: worker_at_Suc)
qed simp

lemma speculate_capped:
  assumes "i < n" "o_capped (worker_at tcd ar cap snap progs assign (assign i) n) = 0"
  shows "o_capped (snd (speculate tcd ar cap snap progs assign i)) = 0"
  using worker_capped_mono[of "Suc i" n tcd ar cap snap progs assign "assign i"] assms
  by (simp add: worker_at_Suc)

lemma speculate_not_deferred: "o_max_deferred (snd (speculate tcd ar cap snap progs assign i)) = -1"
proof -
  have "o_max_deferred (worker_at tcd ar cap snap progs assign w m) = -1" for w m
    by (induction m) (auto simp: worker_at_Suc speculate_def session_run_not_deferred)
  then show ?thesis by (simp add: speculate_def session_run_not_deferred)
qed

section \<open>Filling the slots\<close>

lemma fill_slots_length [simp]: "length (fill_slots rs slots) = length slots"
  by (induction rs arbitrary: slots) (auto simp: fill_slots_def)

lemma fill_slots_concat: "fold (\<lambda>x. fill_slots (f x)) outputs slots = fill_slots (concat (map f outputs)) slots"
  by (induction outputs arbitrary: slots) (auto simp: fill_slots_def)

lemma fill_slots_nth:
  assumes "\<forall>(j, x) \<in> set rs. x = g j" "i < length slots" "i \<in> fst ` set rs \<or> slots ! i = Some (g i)"
  shows "fill_slots rs slots ! i = Some (g i)"
  using assms
proof (induction rs arbitrary: slots)
  case (Cons x rs)
  obtain j y where x: "x = (j, y)" by (cases x)
  have "fill_slots (x # rs) slots = fill_slots rs (slots[j := Some y])" by (simp add: fill_slots_def x)
  moreover have "fill_slots rs (slots[j := Some y]) ! i = Some (g i)"
    by (rule Cons.IH; cases "j = i") (use Cons.prems in \<open>auto simp: x\<close>)
  ultimately show ?case by simp
qed (simp add: fill_slots_def)

end
