(* ===== verification/Parallel_Checking.thy ===== *)
theory Parallel_Checking
  imports Commit_Walk
begin

text \<open>
  The invariant of the commit walk and the equivalence of parallel and serial checking.
\<close>

section \<open>Overlay entries and the committed state\<close>


lemma overlay_ok_begin [simp]: "overlay_ok i dirty live (begin_file j s) = overlay_ok i dirty live s"
  by (simp add: overlay_ok_def)










section \<open>The start of the walk\<close>






section \<open>One step of the frontier\<close>















section \<open>The whole walk\<close>


lemma check_files_serial_length [simp]: "length (fst (check_files_serial ar cap ps c)) = length ps"
  by (induction ps arbitrary: c) (auto simp: Let_def split_beta)



















section \<open>Where the guarantee ends\<close>




end
