(* ===== verification/Replay.thy ===== *)
theory Replay
  imports Prelude
begin

text \<open>
  The pipelined ordered-delta replay (\<open>crates/surge-ts-checker/src/replay.rs\<close>): the task pool the
  coordinator shares with its replay threads, and \<open>run_frontier_pipeline\<close> as a step relation whose
  steps are the coordinator's phases and the threads' \<open>next_task\<close> and \<open>deliver\<close>, interleaved in any
  order.

  \<^item> A pool operation is atomic, as it holds the pool's lock; \<open>next_task\<close> and \<open>take_result\<close> are
    \<open>None\<close> where the code waits on a condition variable.
  \<^item> The closures are parameters: \<open>commit\<close> is \<open>commit_position\<close> on a client state (with \<open>True\<close> for
    \<open>NeedsReplay\<close>), \<open>replays\<close> relates the client state at its end to the outcomes a replay can have,
    \<open>active\<close> is \<open>is_active\<close>.
  \<^item> A phase of the coordinator (the submissions of one frontier, the wake-ups, the routing of the
    drained deferrals) is one step. What it sends are only appends to the queue, so splitting it
    further would not add outcomes.
\<close>

section \<open>The pool\<close>

datatype 'r delivered = Valid 'r | DeferredTo nat

record 'r pool =
  queue :: "nat list"
  results :: "nat \<Rightarrow> 'r delivered option"
  newly_deferred :: "(nat \<times> nat) list"
  shutdown :: bool

definition new_pool :: "'r pool" where
  "new_pool = \<lparr>queue = [], results = (\<lambda>_. None), newly_deferred = [], shutdown = False\<rparr>"

definition submit :: "nat \<Rightarrow> 'r pool \<Rightarrow> 'r pool" where
  "submit position pool = pool\<lparr>queue := queue pool @ [position]\<rparr>"

definition next_task :: "'r pool \<Rightarrow> (nat option \<times> 'r pool) option" where
  "next_task pool =
     (case queue pool of
        position # rest \<Rightarrow> Some (Some position, pool\<lparr>queue := rest\<rparr>)
      | [] \<Rightarrow> if shutdown pool then Some (None, pool) else None)"

definition deliver :: "nat \<Rightarrow> 'r delivered \<Rightarrow> 'r pool \<Rightarrow> 'r pool" where
  "deliver position d pool =
     (let pool1 = (case d of
                     DeferredTo publisher \<Rightarrow>
                       pool\<lparr>newly_deferred := newly_deferred pool @ [(position, publisher)]\<rparr>
                   | Valid _ \<Rightarrow> pool)
      in pool1\<lparr>results := (results pool1)(position := Some d)\<rparr>)"

definition take_result :: "nat \<Rightarrow> 'r pool \<Rightarrow> ('r delivered \<times> 'r pool) option" where
  "take_result position pool =
     map_option (\<lambda>d. (d, pool\<lparr>results := (results pool)(position := None)\<rparr>)) (results pool position)"

definition drain_newly_deferred :: "'r pool \<Rightarrow> (nat \<times> nat) list \<times> 'r pool" where
  "drain_newly_deferred pool = (newly_deferred pool, pool\<lparr>newly_deferred := []\<rparr>)"

definition shutdown_pool :: "'r pool \<Rightarrow> 'r pool" where
  "shutdown_pool pool = pool\<lparr>shutdown := True\<rparr>"

definition pending_results :: "'r pool \<Rightarrow> nat" where
  "pending_results pool = card {p. results pool p \<noteq> None}"

section \<open>The coordinator\<close>

record replay_stats =
  submitted_count :: nat
  resubmitted_count :: nat
  wasted_count :: nat
  peak_in_flight :: nat

datatype phase = SubmitPhase | WakePhase | RoutePhase | TakePhase | RetakePhase | FinishedPhase

record ('r, 'c) pipeline =
  p_pool :: "'r pool"
  p_running :: "nat list"
  p_threads :: nat
  p_frontier :: nat
  p_phase :: phase
  p_submitted :: "bool list"
  p_defer_count :: "nat \<Rightarrow> nat"
  p_parked :: "nat \<Rightarrow> nat list"
  p_stats :: replay_stats
  p_client :: 'c

definition MAX_DEFERS :: nat where
  "MAX_DEFERS = 4"

definition resubmit :: "nat \<Rightarrow> ('r, 'c) pipeline \<Rightarrow> ('r, 'c) pipeline" where
  "resubmit position st =
     st\<lparr>p_pool := submit position (p_pool st),
        p_stats := (p_stats st)\<lparr>resubmitted_count := resubmitted_count (p_stats st) + 1\<rparr>\<rparr>"

definition submit_bucket :: "nat \<Rightarrow> nat option list \<Rightarrow> nat \<Rightarrow> nat list" where
  "submit_bucket n submit_at frontier =
     filter (\<lambda>p. p < length submit_at \<and> map_option (\<lambda>at. min at n) (submit_at ! p) = Some frontier) [0..<n]"

definition submit_scheduled :: "nat \<Rightarrow> ('r, 'c) pipeline \<Rightarrow> ('r, 'c) pipeline" where
  "submit_scheduled position st =
     (if p_submitted st ! position then st
      else st\<lparr>p_submitted := (p_submitted st)[position := True],
              p_pool := submit position (p_pool st),
              p_stats := (p_stats st)\<lparr>submitted_count := submitted_count (p_stats st) + 1\<rparr>\<rparr>)"

definition submit_step :: "nat \<Rightarrow> nat option list \<Rightarrow> ('r, 'c) pipeline \<Rightarrow> ('r, 'c) pipeline" where
  "submit_step n submit_at st = fold submit_scheduled (submit_bucket n submit_at (p_frontier st)) st"

definition wake_step :: "('r, 'c) pipeline \<Rightarrow> ('r, 'c) pipeline" where
  "wake_step st =
     (if 0 < p_frontier st
      then fold (\<lambda>position st. if p_frontier st < position then resubmit position st else st)
             (p_parked st (p_frontier st - 1))
             (st\<lparr>p_parked := (p_parked st)(p_frontier st - 1 := [])\<rparr>)
      else st)"

definition route_deferral :: "nat \<times> nat \<Rightarrow> ('r, 'c) pipeline \<Rightarrow> ('r, 'c) pipeline" where
  "route_deferral = (\<lambda>(position, publisher) st.
     if position \<le> p_frontier st then st
     else let count = p_defer_count st position + 1;
              st1 = st\<lparr>p_defer_count := (p_defer_count st)(position := count)\<rparr>
          in if MAX_DEFERS < count then st1
             else if publisher < p_frontier st then resubmit position st1
             else st1\<lparr>p_parked := (p_parked st1)(publisher := p_parked st1 publisher @ [position])\<rparr>)"

definition route_step :: "('r, 'c) pipeline \<Rightarrow> ('r, 'c) pipeline" where
  "route_step st =
     (let (deferred, pool) = drain_newly_deferred (p_pool st);
          st1 = fold route_deferral deferred (st\<lparr>p_pool := pool\<rparr>)
      in st1\<lparr>p_stats := (p_stats st1)\<lparr>peak_in_flight :=
           max (peak_in_flight (p_stats st1)) (pending_results (p_pool st1))\<rparr>\<rparr>)"

definition next_frontier :: "('r, 'c) pipeline \<Rightarrow> ('r, 'c) pipeline" where
  "next_frontier st = st\<lparr>p_frontier := p_frontier st + 1, p_phase := SubmitPhase\<rparr>"

text \<open>The delivery used at the frontier: \<open>None\<close> where \<open>take\<close> blocks.\<close>

definition replay_of :: "'r delivered \<Rightarrow> 'r option" where
  "replay_of d = (case d of Valid r \<Rightarrow> Some r | DeferredTo _ \<Rightarrow> None)"

definition frontier_replay :: "('r, 'c) pipeline \<Rightarrow> ('r option \<times> 'r pool) option" where
  "frontier_replay st =
     (if p_submitted st ! p_frontier st
      then map_option (\<lambda>(d, pool). (replay_of d, pool)) (take_result (p_frontier st) (p_pool st))
      else Some (None, p_pool st))"

section \<open>The pipeline\<close>

inductive pipe_step ::
    "nat \<Rightarrow> nat option list \<Rightarrow> (nat \<Rightarrow> bool) \<Rightarrow> (nat \<Rightarrow> 'r option \<Rightarrow> bool \<Rightarrow> 'c \<Rightarrow> 'c \<times> bool)
      \<Rightarrow> ('c \<Rightarrow> nat \<Rightarrow> 'r delivered \<Rightarrow> bool) \<Rightarrow> ('r, 'c) pipeline \<Rightarrow> ('r, 'c) pipeline \<Rightarrow> bool"
  for n submit_at active commit replays where
  pick: "next_task (p_pool st) = Some (Some position, pool) \<Longrightarrow> length (p_running st) < p_threads st \<Longrightarrow>
    pipe_step n submit_at active commit replays st
      (st\<lparr>p_pool := pool, p_running := position # p_running st\<rparr>)"
| exit: "next_task (p_pool st) = Some (None, pool) \<Longrightarrow> length (p_running st) < p_threads st \<Longrightarrow>
    pipe_step n submit_at active commit replays st (st\<lparr>p_threads := p_threads st - 1\<rparr>)"
| reply: "position \<in> set (p_running st) \<Longrightarrow> replays (p_client st) position d \<Longrightarrow>
    pipe_step n submit_at active commit replays st
      (st\<lparr>p_pool := deliver position d (p_pool st), p_running := remove1 position (p_running st)\<rparr>)"
| submit_tasks: "p_phase st = SubmitPhase \<Longrightarrow> p_frontier st < n \<Longrightarrow>
    pipe_step n submit_at active commit replays st ((submit_step n submit_at st)\<lparr>p_phase := WakePhase\<rparr>)"
| wake: "p_phase st = WakePhase \<Longrightarrow>
    pipe_step n submit_at active commit replays st ((wake_step st)\<lparr>p_phase := RoutePhase\<rparr>)"
| route: "p_phase st = RoutePhase \<Longrightarrow> active (p_frontier st) \<Longrightarrow>
    pipe_step n submit_at active commit replays st ((route_step st)\<lparr>p_phase := TakePhase\<rparr>)"
| skip: "p_phase st = RoutePhase \<Longrightarrow> \<not> active (p_frontier st) \<Longrightarrow>
    pipe_step n submit_at active commit replays st (next_frontier (route_step st))"
| committed: "p_phase st = TakePhase \<Longrightarrow> frontier_replay st = Some (replay, pool) \<Longrightarrow>
    commit (p_frontier st) replay False (p_client st) = (client, False) \<Longrightarrow>
    pipe_step n submit_at active commit replays st (next_frontier (st\<lparr>p_pool := pool, p_client := client\<rparr>))"
| needs_replay: "p_phase st = TakePhase \<Longrightarrow> frontier_replay st = Some (replay, pool) \<Longrightarrow>
    commit (p_frontier st) replay False (p_client st) = (client, True) \<Longrightarrow>
    pipe_step n submit_at active commit replays st
      ((resubmit (p_frontier st) (st\<lparr>p_pool := pool, p_client := client\<rparr>))\<lparr>p_phase := RetakePhase\<rparr>)"
| retake: "p_phase st = RetakePhase \<Longrightarrow> take_result (p_frontier st) (p_pool st) = Some (d, pool) \<Longrightarrow>
    commit (p_frontier st) (replay_of d) True (p_client st) = (client, needs) \<Longrightarrow>
    pipe_step n submit_at active commit replays st (next_frontier (st\<lparr>p_pool := pool, p_client := client\<rparr>))"
| finish: "p_phase st = SubmitPhase \<Longrightarrow> p_frontier st = n \<Longrightarrow>
    pipe_step n submit_at active commit replays st
      (st\<lparr>p_pool := shutdown_pool (p_pool st), p_phase := FinishedPhase,
         p_stats := (p_stats st)\<lparr>wasted_count := pending_results (p_pool st)\<rparr>\<rparr>)"

definition start_pipeline :: "nat \<Rightarrow> nat \<Rightarrow> 'c \<Rightarrow> ('r, 'c) pipeline" where
  "start_pipeline n worker_count client =
     \<lparr>p_pool = new_pool, p_running = [], p_threads = max worker_count 1, p_frontier = 0,
      p_phase = SubmitPhase, p_submitted = replicate n False, p_defer_count = (\<lambda>_. 0),
      p_parked = (\<lambda>_. []),
      p_stats = \<lparr>submitted_count = 0, resubmitted_count = 0, wasted_count = 0, peak_in_flight = 0\<rparr>,
      p_client = client\<rparr>"

text \<open>\<open>thread::scope\<close> ends when the coordinator is through and every thread has returned.\<close>

definition pipeline_done :: "('r, 'c) pipeline \<Rightarrow> bool" where
  "pipeline_done st \<longleftrightarrow> p_phase st = FinishedPhase \<and> p_threads st = 0"

definition pipe_reachable ::
    "nat \<Rightarrow> nat \<Rightarrow> nat option list \<Rightarrow> (nat \<Rightarrow> bool) \<Rightarrow> (nat \<Rightarrow> 'r option \<Rightarrow> bool \<Rightarrow> 'c \<Rightarrow> 'c \<times> bool)
      \<Rightarrow> ('c \<Rightarrow> nat \<Rightarrow> 'r delivered \<Rightarrow> bool) \<Rightarrow> 'c \<Rightarrow> ('r, 'c) pipeline \<Rightarrow> bool" where
  "pipe_reachable n worker_count submit_at active commit replays client st \<longleftrightarrow>
     (pipe_step n submit_at active commit replays)\<^sup>*\<^sup>* (start_pipeline n worker_count client) st"

end
