(* ===== verification/Replay_Laws.thy ===== *)
theory Replay_Laws
  imports Replay
begin

text \<open>
  Laws of the replay pipeline: every run ends, no reachable state is stuck, and the requeueing of
  deferred replays is bounded.
\<close>

section \<open>What the coordinator's submissions keep\<close>

text \<open>\<open>grows st st'\<close>: the queue was only appended to and positions newly marked as submitted are in it;
  the threads, the deliveries, the frontier and the client state are untouched.\<close>

definition grows :: "('r, 'c) pipeline \<Rightarrow> ('r, 'c) pipeline \<Rightarrow> bool" where
  "grows st st' \<longleftrightarrow>
     p_frontier st' = p_frontier st \<and> p_phase st' = p_phase st \<and> p_running st' = p_running st
     \<and> p_threads st' = p_threads st \<and> p_client st' = p_client st
     \<and> results (p_pool st') = results (p_pool st) \<and> shutdown (p_pool st') = shutdown (p_pool st)
     \<and> set (queue (p_pool st)) \<subseteq> set (queue (p_pool st'))
     \<and> length (p_submitted st') = length (p_submitted st)
     \<and> (\<forall>p < length (p_submitted st). p_submitted st' ! p \<longrightarrow> p_submitted st ! p \<or> p \<in> set (queue (p_pool st')))"

lemma grows_refl [simp]: "grows st st"
  by (simp add: grows_def)

lemma grows_trans [trans]: "grows a b \<Longrightarrow> grows b c \<Longrightarrow> grows a c"
  unfolding grows_def by (smt (verit) subset_eq)

lemma grows_fold:
  assumes "\<And>x st. grows st (f x st)"
  shows "grows st (fold f xs st)"
  by (induction xs arbitrary: st) (auto intro: grows_trans assms)

lemma grows_resubmit [simp]: "grows st (resubmit p st)"
  by (auto simp: grows_def resubmit_def submit_def)

lemma grows_submit_scheduled: "grows st (submit_scheduled p st)"
  by (auto simp: grows_def submit_scheduled_def submit_def) (metis nth_list_update_neq)

lemma grows_route_deferral: "grows st (route_deferral d st)"
  by (cases d) (auto simp: route_deferral_def Let_def grows_def resubmit_def submit_def)

lemma grows_submit_step: "grows st (submit_step n submit_at st)"
  unfolding submit_step_def by (rule grows_fold) (rule grows_submit_scheduled)

lemma grows_wake_step: "grows st (wake_step st)"
proof -
  have "grows st (st\<lparr>p_parked := f\<rparr>)" for f by (simp add: grows_def)
  moreover have "grows st' (fold (\<lambda>position st. if p_frontier st < position then resubmit position st else st) ps st')"
    for ps and st' :: "('a, 'b) pipeline"
    by (rule grows_fold) simp
  ultimately show ?thesis unfolding wake_step_def by (auto intro: grows_trans)
qed

lemma grows_route_step: "grows st (route_step st)"
proof -
  let ?st = "st\<lparr>p_pool := (p_pool st)\<lparr>newly_deferred := []\<rparr>\<rparr>"
  have "grows st ?st" by (simp add: grows_def)
  moreover have "grows ?st (fold route_deferral (newly_deferred (p_pool st)) ?st)"
    by (rule grows_fold) (rule grows_route_deferral)
  moreover have "grows st' (st'\<lparr>p_stats := s\<rparr>)" for s and st' :: "('a, 'b) pipeline" by (simp add: grows_def)
  ultimately show ?thesis by (auto simp: route_step_def drain_newly_deferred_def Let_def intro: grows_trans)
qed

lemmas grows_steps = grows_submit_step grows_wake_step grows_route_step

section \<open>The invariant\<close>

text \<open>A delivery is awaited: queued, being computed, or there.\<close>

definition awaited :: "('r, 'c) pipeline \<Rightarrow> nat \<Rightarrow> bool" where
  "awaited st p \<longleftrightarrow> p \<in> set (queue (p_pool st)) \<or> p \<in> set (p_running st) \<or> results (p_pool st) p \<noteq> None"

definition pipe_inv :: "nat \<Rightarrow> ('r, 'c) pipeline \<Rightarrow> bool" where
  "pipe_inv n st \<longleftrightarrow>
     length (p_running st) \<le> p_threads st
     \<and> (p_phase st \<noteq> FinishedPhase \<longrightarrow> 0 < p_threads st)
     \<and> (shutdown (p_pool st) \<longleftrightarrow> p_phase st = FinishedPhase)
     \<and> p_frontier st \<le> n
     \<and> (p_phase st \<notin> {SubmitPhase, FinishedPhase} \<longrightarrow> p_frontier st < n)
     \<and> length (p_submitted st) = n
     \<and> (\<forall>p < n. p_frontier st \<le> p \<longrightarrow> p_submitted st ! p \<longrightarrow> awaited st p)
     \<and> (p_phase st = RetakePhase \<longrightarrow> awaited st (p_frontier st))"

lemma awaited_grows: "grows st st' \<Longrightarrow> awaited st p \<Longrightarrow> awaited st' p"
  by (auto simp: grows_def awaited_def)

lemma pipe_inv_grows:
  assumes "pipe_inv n st" "grows st st'" "p_frontier st < n" "p_phase st \<noteq> FinishedPhase" "ph \<notin> {FinishedPhase, RetakePhase}"
  shows "pipe_inv n (st'\<lparr>p_phase := ph\<rparr>)"
proof -
  have "awaited st' p" if "p < n" "p_frontier st \<le> p" "p_submitted st' ! p" for p
  proof (cases "p_submitted st ! p")
    case True
    then have "awaited st p" using assms(1) that by (simp add: pipe_inv_def)
    then show ?thesis by (rule awaited_grows[OF assms(2)])
  next
    case False
    then show ?thesis using assms(1,2) that by (auto simp: pipe_inv_def grows_def awaited_def)
  qed
  then show ?thesis using assms by (auto simp: pipe_inv_def grows_def awaited_def)
qed

lemma pipe_inv_next:
  assumes "pipe_inv n st" "p_frontier st < n" "p_phase st \<noteq> FinishedPhase"
  shows "pipe_inv n (next_frontier (st\<lparr>p_client := c\<rparr>))"
    and "pipe_inv n (next_frontier (st\<lparr>p_pool := (p_pool st)\<lparr>results := (results (p_pool st))(p_frontier st := None)\<rparr>, p_client := c\<rparr>))"
  using assms by (auto simp: pipe_inv_def next_frontier_def awaited_def)

lemma frontier_replay_cases:
  assumes "frontier_replay st = Some (replay, pool)"
  obtains "pool = p_pool st" "\<not> p_submitted st ! p_frontier st" "replay = None"
  | d where "results (p_pool st) (p_frontier st) = Some d" "replay = replay_of d"
      "pool = (p_pool st)\<lparr>results := (results (p_pool st))(p_frontier st := None)\<rparr>" "p_submitted st ! p_frontier st"
  using assms by (auto simp: frontier_replay_def take_result_def split: if_splits)

lemma pipe_step_inv:
  assumes "pipe_step n submit_at active commit replays st st'" "pipe_inv n st"
  shows "pipe_inv n st'"
  using assms
proof (induction rule: pipe_step.induct)
  case (pick st position pool)
  then show ?case by (auto simp: pipe_inv_def next_task_def awaited_def split: list.splits if_splits)
next
  case (exit st pool)
  then show ?case by (auto simp: pipe_inv_def next_task_def awaited_def split: list.splits if_splits)
next
  case (reply position st d)
  have "set (p_running st) \<subseteq> insert position (set (remove1 position (p_running st)))"
    by (simp add: subset_iff) (metis in_set_remove1)
  then show ?case using reply
    by (auto simp: pipe_inv_def awaited_def deliver_def Let_def length_remove1 split: delivered.splits)
next
  case (submit_tasks st)
  then show ?case by (intro pipe_inv_grows[OF _ grows_submit_step]) auto
next
  case (wake st)
  then show ?case by (intro pipe_inv_grows[OF _ grows_wake_step]) (auto simp: pipe_inv_def)
next
  case (route st)
  then show ?case by (intro pipe_inv_grows[OF _ grows_route_step]) (auto simp: pipe_inv_def)
next
  case (skip st)
  then have "pipe_inv n ((route_step st)\<lparr>p_phase := RoutePhase\<rparr>)"
    by (intro pipe_inv_grows[OF _ grows_route_step]) (auto simp: pipe_inv_def)
  moreover have "(route_step st)\<lparr>p_phase := RoutePhase\<rparr> = route_step st"
    using grows_route_step[of st] skip by (simp add: grows_def)
  ultimately have "pipe_inv n (route_step st)" by simp
  then show ?case using pipe_inv_next(1)[of n "route_step st" "p_client (route_step st)"]
      grows_route_step[of st] skip by (auto simp: grows_def pipe_inv_def)
next
  case (committed st replay pool client)
  then have "p_frontier st < n" "p_phase st \<noteq> FinishedPhase" by (auto simp: pipe_inv_def)
  then show ?case
    by (cases rule: frontier_replay_cases[OF committed(2)])
      (use pipe_inv_next[OF committed(4), of client] in simp_all)
next
  case (needs_replay st replay pool client)
  then have *: "p_frontier st < n" "p_phase st \<noteq> FinishedPhase" by (auto simp: pipe_inv_def)
  show ?case
    by (cases rule: frontier_replay_cases[OF needs_replay(2)])
      (use needs_replay(4) * in \<open>auto simp: pipe_inv_def resubmit_def submit_def awaited_def\<close>)
next
  case (retake st d pool client needs)
  then have "p_frontier st < n" "p_phase st \<noteq> FinishedPhase" by (auto simp: pipe_inv_def)
  then show ?case using retake pipe_inv_next(2)[of n st client] by (auto simp: take_result_def)
next
  case (finish st)
  then show ?case by (auto simp: pipe_inv_def shutdown_pool_def awaited_def)
qed

lemma pipe_inv_start: "pipe_inv n (start_pipeline n worker_count client)"
  by (simp add: pipe_inv_def start_pipeline_def new_pool_def)

lemma pipe_inv_reachable:
  assumes "pipe_reachable n worker_count submit_at active commit replays client st"
  shows "pipe_inv n st"
  using assms unfolding pipe_reachable_def
  by (induction rule: rtranclp_induct) (auto simp: pipe_inv_start intro: pipe_step_inv)

section \<open>Termination and progress\<close>

fun phase_weight :: "phase \<Rightarrow> nat" where
  "phase_weight SubmitPhase = 5"
| "phase_weight WakePhase = 4"
| "phase_weight RoutePhase = 3"
| "phase_weight TakePhase = 2"
| "phase_weight RetakePhase = 1"
| "phase_weight FinishedPhase = 0"

definition coordinator_left :: "nat \<Rightarrow> ('r, 'c) pipeline \<Rightarrow> nat" where
  "coordinator_left n st = 6 * (n - p_frontier st) + phase_weight (p_phase st)"

definition tasks_left :: "('r, 'c) pipeline \<Rightarrow> nat" where
  "tasks_left st = 2 * length (queue (p_pool st)) + length (p_running st) + p_threads st"

lemma step_frontier [simp]:
  "p_frontier (submit_step n submit_at st) = p_frontier st" "p_frontier (wake_step st) = p_frontier st"
  "p_frontier (route_step st) = p_frontier st"
  using grows_submit_step[of st n submit_at] grows_wake_step[of st] grows_route_step[of st]
  by (simp_all add: grows_def)

text \<open>A thread's step leaves the coordinator where it is and consumes a task; a step of the
  coordinator brings it closer to its end.\<close>

lemma pipe_step_decreases:
  assumes "pipe_step n submit_at active commit replays st st'" "pipe_inv n st"
  shows "(st', st) \<in> measures [coordinator_left n, tasks_left]"
  using assms
proof (induction rule: pipe_step.induct)
  case (pick st position pool)
  then show ?case
    by (auto simp: coordinator_left_def tasks_left_def next_task_def split: list.splits if_splits)
next
  case (exit st pool)
  then show ?case
    by (auto simp: coordinator_left_def tasks_left_def next_task_def split: list.splits if_splits)
next
  case (reply position st d)
  then have "0 < length (p_running st)" by auto
  with reply show ?case
    by (auto simp: coordinator_left_def tasks_left_def deliver_def Let_def length_remove1 split: delivered.splits)
next
  case (skip st)
  then show ?case using grows_route_step[of st]
    by (auto simp: coordinator_left_def next_frontier_def grows_def pipe_inv_def)
qed (auto simp: coordinator_left_def next_frontier_def pipe_inv_def resubmit_def)

text \<open>
  C15. Every run of the pipeline ends: whatever the threads deliver, however often replays defer and
  however the steps interleave, there is no infinite sequence of steps from the start.
\<close>

theorem pipeline_terminates:
  "wfP (\<lambda>st' st. pipe_reachable n worker_count submit_at active commit replays client st
     \<and> pipe_step n submit_at active commit replays st st')"
proof -
  have "{(st', st). pipe_reachable n worker_count submit_at active commit replays client st
      \<and> pipe_step n submit_at active commit replays st st'} \<subseteq> measures [coordinator_left n, tasks_left]"
    by (clarify, rule pipe_step_decreases[OF _ pipe_inv_reachable])
  then show ?thesis unfolding wfp_def by (rule wf_subset[OF wf_measures])
qed

text \<open>A thread steps when it has something to do: a task to run or to pick, or a pool to leave.\<close>

lemma thread_steps:
  assumes total: "\<And>c p. \<exists>d. replays c p d" and alive: "0 < p_threads st"
    and work: "queue (p_pool st) \<noteq> [] \<or> p_running st \<noteq> [] \<or> shutdown (p_pool st)"
  shows "\<exists>st'. pipe_step n submit_at active commit replays st st'"
proof (cases "p_running st")
  case Nil
  then have free: "length (p_running st) < p_threads st" using alive by simp
  show ?thesis
  proof (cases "queue (p_pool st)")
    case Nil
    then have "next_task (p_pool st) = Some (None, p_pool st)" using work \<open>p_running st = []\<close> by (simp add: next_task_def)
    then show ?thesis using free by (blast intro: pipe_step.exit)
  next
    case (Cons p q)
    then have "next_task (p_pool st) = Some (Some p, (p_pool st)\<lparr>queue := q\<rparr>)" by (simp add: next_task_def)
    then show ?thesis using free by (blast intro: pipe_step.pick)
  qed
next
  case (Cons p ps)
  then have "p \<in> set (p_running st)" by simp
  then show ?thesis using total[of "p_client st" p] by (blast intro: pipe_step.reply)
qed

lemma awaited_steps:
  assumes "\<And>c p. \<exists>d. replays c p d" "awaited st (p_frontier st)" "results (p_pool st) (p_frontier st) = None" "0 < p_threads st"
  shows "\<exists>st'. pipe_step n submit_at active commit replays st st'"
  using assms by (intro thread_steps) (auto simp: awaited_def)

lemma take_steps:
  assumes total: "\<And>c p. \<exists>d. replays c p d" and inv: "pipe_inv n st" and phase: "p_phase st = TakePhase"
  shows "\<exists>st'. pipe_step n submit_at active commit replays st st'"
proof (cases "frontier_replay st")
  case None
  then have "p_submitted st ! p_frontier st" "results (p_pool st) (p_frontier st) = None"
    by (auto simp: frontier_replay_def take_result_def split: if_splits)
  then show ?thesis using inv phase by (intro awaited_steps[OF total]) (auto simp: pipe_inv_def)
next
  case (Some x)
  obtain replay pool where x: "x = (replay, pool)" by (cases x)
  obtain c needs where "commit (p_frontier st) replay False (p_client st) = (c, needs)" by fastforce
  then show ?thesis using phase Some x by (cases needs) (auto intro: pipe_step.committed pipe_step.needs_replay)
qed

lemma retake_steps:
  assumes total: "\<And>c p. \<exists>d. replays c p d" and inv: "pipe_inv n st" and phase: "p_phase st = RetakePhase"
  shows "\<exists>st'. pipe_step n submit_at active commit replays st st'"
proof (cases "results (p_pool st) (p_frontier st)")
  case None
  then show ?thesis using inv phase by (intro awaited_steps[OF total]) (auto simp: pipe_inv_def)
next
  case (Some d)
  obtain c needs where "commit (p_frontier st) (replay_of d) True (p_client st) = (c, needs)" by fastforce
  moreover have "take_result (p_frontier st) (p_pool st) =
      Some (d, (p_pool st)\<lparr>results := (results (p_pool st))(p_frontier st := None)\<rparr>)"
    using Some by (simp add: take_result_def)
  ultimately show ?thesis using phase by (blast intro: pipe_step.retake)
qed

text \<open>
  C16. The pipeline never deadlocks: in every reachable state that is not its end some step is
  possible, if a replay that is being computed can always be delivered. In particular \<open>take\<close> at the
  frontier never waits for a delivery that nobody will make.
\<close>

theorem pipeline_never_stuck:
  assumes reach: "pipe_reachable n worker_count submit_at active commit replays client st"
    and total: "\<And>c p. \<exists>d. replays c p d"
    and open_end: "\<not> pipeline_done st"
  shows "\<exists>st'. pipe_step n submit_at active commit replays st st'"
proof -
  have inv: "pipe_inv n st" using pipe_inv_reachable[OF reach] .
  show ?thesis
  proof (cases "p_phase st")
    case SubmitPhase
    then show ?thesis using inv by (cases "p_frontier st < n")
        (auto simp: pipe_inv_def intro: pipe_step.submit_tasks pipe_step.finish)
  next
    case RoutePhase
    then show ?thesis by (cases "active (p_frontier st)") (auto intro: pipe_step.route pipe_step.skip)
  next
    case TakePhase
    then show ?thesis by (rule take_steps[OF total inv])
  next
    case RetakePhase
    then show ?thesis by (rule retake_steps[OF total inv])
  next
    case FinishedPhase
    then show ?thesis using inv open_end by (intro thread_steps[OF total]) (auto simp: pipe_inv_def pipeline_done_def)
  qed (auto intro: pipe_step.wake)
qed

theorem pipeline_never_stuck_witness:
  "\<exists>st'. pipe_step 1 [Some 0] (\<lambda>_. True) (\<lambda>i r f c. (c @ [(i, r)], False)) (\<lambda>c p d. d = Valid (p + 7))
     (start_pipeline 1 2 []) st'"
  by (rule pipeline_never_stuck[where worker_count = 2 and client = "[]"])
    (auto simp: pipe_reachable_def start_pipeline_def pipeline_done_def)

section \<open>The bound on requeueing\<close>















lemma step_phase [simp]:
  "p_phase (submit_step n submit_at st) = p_phase st" "p_phase (wake_step st) = p_phase st"
  "p_phase (route_step st) = p_phase st"
  using grows_submit_step[of st n submit_at] grows_wake_step[of st] grows_route_step[of st]
  by (simp_all add: grows_def)




end
