(* ===== verification/Pipeline_Checking.thy ===== *)
theory Pipeline_Checking
  imports Parallel_Checking Replay_Laws
begin


























end
