(* ===== verification/Schedule_Hints.thy ===== *)
theory Schedule_Hints
  imports Commit
begin

text \<open>
  What the two scheduling hints of \<open>speculative/commit.rs\<close> compute: \<open>predict_conflicts\<close> satisfies
  the recursive specification of a conflict over the worker logs, and \<open>compute_submit_schedule\<close>
  starts a replay only when every position it depends on has committed cleanly.
\<close>

definition log_digests :: "('t, 'f) file_cache_log option \<Rightarrow> u64 set" where
  "log_digests l = (case l of None \<Rightarrow> {} | Some log \<Rightarrow> set (insert_digests log))"

section \<open>First writers\<close>

definition first_writer_upto :: "('t, 'f) file_cache_log option list \<Rightarrow> (u64 \<rightharpoonup> nat) \<Rightarrow> bool" where
  "first_writer_upto logs fw \<longleftrightarrow>
     (\<forall>d j. fw d = Some j \<longleftrightarrow>
        j < length logs \<and> d \<in> log_digests (logs ! j) \<and> (\<forall>k < j. d \<notin> log_digests (logs ! k)))"

lemma first_writer_uptoD:
  "first_writer_upto logs fw \<Longrightarrow> fw d = Some j \<longleftrightarrow>
     j < length logs \<and> d \<in> log_digests (logs ! j) \<and> (\<forall>k < j. d \<notin> log_digests (logs ! k))"
  by (simp only: first_writer_upto_def)

lemma fold_record_first_writer:
  "fold (record_first_writer i) ds fw d =
     (case fw d of Some j \<Rightarrow> Some j | None \<Rightarrow> if d \<in> set ds then Some i else None)"
  by (induction ds arbitrary: fw) (auto simp: record_first_writer_def split: option.splits)

lemma first_writer_upto_Nil: "first_writer_upto [] Map.empty"
  by (simp add: first_writer_upto_def)

lemma first_writer_upto_None:
  assumes "first_writer_upto logs fw"
  shows "first_writer_upto (logs @ [None]) fw"
  unfolding first_writer_upto_def
proof (intro allI)
  fix d j
  show "(fw d = Some j) = (j < length (logs @ [None]) \<and> d \<in> log_digests ((logs @ [None]) ! j)
      \<and> (\<forall>k < j. d \<notin> log_digests ((logs @ [None]) ! k)))"
  proof (cases "j < length logs")
    case True
    then show ?thesis using first_writer_uptoD[OF assms, of d j] by (simp add: nth_append)
  next
    case False
    then have "fw d \<noteq> Some j" using first_writer_uptoD[OF assms, of d j] by blast
    moreover have "\<not> (j < length (logs @ [None]) \<and> d \<in> log_digests ((logs @ [None]) ! j))"
      using False by (cases "j = length logs") (simp_all add: log_digests_def)
    ultimately show ?thesis by blast
  qed
qed

lemma first_writer_upto_fresh:
  assumes "first_writer_upto logs fw"
  shows "fw d = None \<longleftrightarrow> (\<forall>k < length logs. d \<notin> log_digests (logs ! k))"
proof
  assume none: "fw d = None"
  show "\<forall>k < length logs. d \<notin> log_digests (logs ! k)"
  proof (rule ccontr)
    assume "\<not> ?thesis"
    then have ex: "\<exists>k. k < length logs \<and> d \<in> log_digests (logs ! k)" by auto
    define j where "j = (LEAST k. k < length logs \<and> d \<in> log_digests (logs ! k))"
    have "j < length logs \<and> d \<in> log_digests (logs ! j)" unfolding j_def by (rule LeastI_ex[OF ex])
    moreover have "\<forall>k < j. d \<notin> log_digests (logs ! k)"
      using not_less_Least[of _ "\<lambda>k. k < length logs \<and> d \<in> log_digests (logs ! k)"] calculation
      unfolding j_def by (meson less_trans)
    ultimately have "fw d = Some j" using first_writer_uptoD[OF assms, of d j] by blast
    then show False using none by simp
  qed
next
  assume "\<forall>k < length logs. d \<notin> log_digests (logs ! k)"
  then show "fw d = None" using first_writer_uptoD[OF assms, of d] by (meson not_None_eq)
qed

lemma first_writer_upto_Some:
  assumes fw: "first_writer_upto logs fw"
  shows "first_writer_upto (logs @ [Some log]) (fold (record_first_writer (length logs)) (insert_digests log) fw)"
  unfolding first_writer_upto_def fold_record_first_writer
proof (intro allI)
  fix d j
  show "((case fw d of None \<Rightarrow> if d \<in> set (insert_digests log) then Some (length logs) else None
          | Some j \<Rightarrow> Some j) = Some j) =
    (j < length (logs @ [Some log]) \<and> d \<in> log_digests ((logs @ [Some log]) ! j)
      \<and> (\<forall>k < j. d \<notin> log_digests ((logs @ [Some log]) ! k)))"
  proof (cases "fw d")
    case None
    then have "\<forall>k < length logs. d \<notin> log_digests (logs ! k)"
      using first_writer_upto_fresh[OF fw] by simp
    then show ?thesis using None by (auto simp: nth_append log_digests_def less_Suc_eq)
  next
    case (Some i)
    then have i: "i < length logs \<and> d \<in> log_digests (logs ! i) \<and> (\<forall>k < i. d \<notin> log_digests (logs ! k))"
      using first_writer_uptoD[OF fw, of d i] by blast
    then show ?thesis using Some
      by (auto simp: nth_append less_Suc_eq dest: linorder_neqE_nat)
  qed
qed

section \<open>Predicted conflicts\<close>

lemma predict_loop_length [simp]: "length (predict_loop i ps ei logs) = length ps"
  by (induction i ps ei logs rule: predict_loop.induct) (simp_all add: Let_def)

lemma predict_loop_before: "j < i \<Longrightarrow> predict_loop i ps ei logs ! j = ps ! j"
  by (induction i ps ei logs rule: predict_loop.induct) (simp_all add: Let_def)

lemma predict_loop_nth:
  assumes "length ps = i + length logs" "i \<le> j" "j < length ps" "\<forall>k. i \<le> k \<longrightarrow> k < length ps \<longrightarrow> \<not> ps ! k"
    and "\<forall>k log. k < length logs \<longrightarrow> logs ! k = Some log \<longrightarrow> l_overlay_deps log \<subseteq> {..<i + k}"
  shows "predict_loop i ps ei logs ! j \<longleftrightarrow>
    (\<exists>log. logs ! (j - i) = Some log
       \<and> (l_misses log \<inter> (ei \<union> (\<Union>k < j - i. log_digests (logs ! k))) \<noteq> {}
          \<or> (\<exists>f \<in> l_overlay_deps log. predict_loop i ps ei logs ! f)))"
  using assms
proof (induction i ps ei logs rule: predict_loop.induct)
  case (1 i ps ei)
  then show ?case by simp
next
  case (2 i ps ei logs)
  show ?case
  proof (cases "j = i")
    case True
    then show ?thesis using 2(5) 2(4) by (simp add: predict_loop_before)
  next
    case False
    then have j: "j - i = Suc (j - Suc i)" "Suc i \<le> j" using 2(3) by auto
    have dep: "\<forall>k log. k < length logs \<longrightarrow> logs ! k = Some log \<longrightarrow> l_overlay_deps log \<subseteq> {..<i + 1 + k}"
      using 2(6) by (metis Suc_eq_plus1 Suc_less_eq add.assoc length_Cons nth_Cons_Suc plus_1_eq_Suc)
    have IH: "predict_loop (i + 1) ps ei logs ! j \<longleftrightarrow>
      (\<exists>log. logs ! (j - (i + 1)) = Some log
       \<and> (l_misses log \<inter> (ei \<union> (\<Union>k < j - (i + 1). log_digests (logs ! k))) \<noteq> {}
          \<or> (\<exists>f \<in> l_overlay_deps log. predict_loop (i + 1) ps ei logs ! f)))"
      by (rule 2(1)) (use 2(2,4,5) j dep in auto)
    have "(\<Union>k < j - i. log_digests ((None # logs) ! k)) = (\<Union>k < j - (i + 1). log_digests (logs ! k))"
      unfolding j(1) lessThan_Suc_eq_insert_0 by (simp add: log_digests_def image_image)
    then show ?thesis using IH j by simp
  qed
next
  case (3 i ps ei log logs)
  let ?p = "l_misses log \<inter> ei \<noteq> {} \<or> (\<exists>file \<in> l_overlay_deps log. ps ! file)"
  let ?ps = "ps[i := ?p]"
  have step: "predict_loop i ps ei (Some log # logs) =
      predict_loop (i + 1) ?ps (ei \<union> set (insert_digests log)) logs" by (simp add: Let_def)
  have deps: "l_overlay_deps log \<subseteq> {..<i}" using 3(6)[rule_format, of 0 log] by simp
  show ?case
  proof (cases "j = i")
    case True
    have "predict_loop (i + 1) ?ps (ei \<union> set (insert_digests log)) logs ! f = ps ! f"
      if "f \<in> l_overlay_deps log" for f
      using that deps by (subst predict_loop_before) auto
    then show ?thesis using True 3(2) by (auto simp: step predict_loop_before simp del: predict_loop.simps)
  next
    case False
    then have j: "j - i = Suc (j - Suc i)" "Suc i \<le> j" using 3(3) by auto
    have dep: "\<forall>k log. k < length logs \<longrightarrow> logs ! k = Some log \<longrightarrow> l_overlay_deps log \<subseteq> {..<i + 1 + k}"
      using 3(6) by (metis Suc_eq_plus1 Suc_less_eq add.assoc length_Cons nth_Cons_Suc plus_1_eq_Suc)
    have IH: "predict_loop (i + 1) ?ps (ei \<union> set (insert_digests log)) logs ! j \<longleftrightarrow>
      (\<exists>l. logs ! (j - (i + 1)) = Some l
       \<and> (l_misses l \<inter> (ei \<union> set (insert_digests log) \<union> (\<Union>k < j - (i + 1). log_digests (logs ! k))) \<noteq> {}
          \<or> (\<exists>f \<in> l_overlay_deps l. predict_loop (i + 1) ?ps (ei \<union> set (insert_digests log)) logs ! f)))"
      by (rule 3(1)[OF refl refl]) (use 3(2,4,5) j dep in auto)
    have "(\<Union>k < j - i. log_digests ((Some log # logs) ! k)) =
        set (insert_digests log) \<union> (\<Union>k < j - (i + 1). log_digests (logs ! k))"
      unfolding j(1) lessThan_Suc_eq_insert_0 by (simp add: log_digests_def image_image)
    then show ?thesis using IH j by (simp add: step Un_assoc del: predict_loop.simps)
  qed
qed

text \<open>The overlay producers of a position are earlier positions: dispatch is ascending.\<close>

definition deps_earlier :: "('t, 'f) file_cache_log option list \<Rightarrow> bool" where
  "deps_earlier logs \<longleftrightarrow>
     (\<forall>k < length logs. \<forall>log. logs ! k = Some log \<longrightarrow> l_overlay_deps log \<subseteq> {..<k})"

text \<open>
  A position is predicted to conflict exactly if it has a worker log that missed a digest some
  earlier position inserts, or that consumed the overlay of an earlier position which is itself
  predicted to conflict.
\<close>

theorem predict_conflicts_spec:
  assumes "deps_earlier logs" "i < length logs"
  shows "predict_conflicts logs ! i \<longleftrightarrow>
    (\<exists>log. logs ! i = Some log
       \<and> (l_misses log \<inter> (\<Union>k < i. log_digests (logs ! k)) \<noteq> {}
          \<or> (\<exists>f \<in> l_overlay_deps log. f < i \<and> predict_conflicts logs ! f)))"
proof -
  have "predict_conflicts logs ! i \<longleftrightarrow>
    (\<exists>log. logs ! i = Some log
       \<and> (l_misses log \<inter> (\<Union>k < i. log_digests (logs ! k)) \<noteq> {}
          \<or> (\<exists>f \<in> l_overlay_deps log. predict_conflicts logs ! f)))"
    unfolding predict_conflicts_def
    using predict_loop_nth[of "replicate (length logs) False" 0 logs i "{}"] assms
    by (simp add: deps_earlier_def)
  moreover have "f < i" if "logs ! i = Some log" "f \<in> l_overlay_deps log" for log f
    using assms that by (auto simp: deps_earlier_def)
  ultimately show ?thesis by blast
qed

definition demo_log :: "u64 set \<Rightarrow> nat set \<Rightarrow> u64 \<Rightarrow> (nat, nat) file_cache_log" where
  "demo_log misses deps digest = (empty_log 0)\<lparr>l_misses := misses, l_overlay_deps := deps,
     l_method_inserts := [(\<lparr>mk_member = undefined, mk_substitution = 0, mk_environment = undefined\<rparr>, 0, digest)]\<rparr>"

lemma demo_log_simps [simp]:
  "l_misses (demo_log m d g) = m" "l_overlay_deps (demo_log m d g) = d" "insert_digests (demo_log m d g) = [g]"
  by (simp_all add: demo_log_def empty_log_def insert_digests_def)

theorem predict_conflicts_spec_witness:
  "predict_conflicts [Some (demo_log {1} {} 1), Some (demo_log {1} {} 2), None, Some (demo_log {3} {1} 4)]
     = [False, True, False, True]
   \<and> predict_conflicts [Some (demo_log {1} {} 1), Some (demo_log {1} {} 2), None, Some (demo_log {3} {1} 4)] ! 3"
proof -
  let ?logs = "[Some (demo_log {1} {} 1), Some (demo_log {1} {} 2), None, Some (demo_log {3} {1} 4)]"
  have computed: "predict_conflicts ?logs = [False, True, False, True]"
    by (simp add: predict_conflicts_def Let_def)
  have "deps_earlier ?logs"
    by (auto simp: deps_earlier_def less_Suc_eq nth_Cons')
  from predict_conflicts_spec[OF this, of 3] have "predict_conflicts ?logs ! 3"
    using computed by simp
  then show ?thesis using computed by simp
qed

section \<open>The submit schedule\<close>

lemma submit_loop_before: "j < i \<Longrightarrow> submit_loop ps i sa fw logs ! j = sa ! j"
  by (induction ps i sa fw logs rule: submit_loop.induct) (simp_all add: Let_def)

lemma submit_loop_nth:
  assumes "first_writer_upto done_logs fw" "length sa = length (done_logs @ logs)"
    and "length done_logs \<le> j" "j < length sa" "\<forall>k. length done_logs \<le> k \<longrightarrow> k < length sa \<longrightarrow> sa ! k = None"
    and "submit_loop ps (length done_logs) sa fw logs ! j = Some at"
  shows "\<exists>log fw'. (done_logs @ logs) ! j = Some log \<and> first_writer_upto (take j (done_logs @ logs)) fw'
    \<and> ps ! j \<and> \<not> (\<exists>p \<in> conflict_producers j fw' log. ps ! p)
    \<and> at = (if conflict_producers j fw' log = {} then 0 else Max (conflict_producers j fw' log) + 1)"
  using assms
proof (induction logs arbitrary: done_logs sa fw)
  case Nil
  then show ?case by auto
next
  case (Cons l logs)
  show ?case
  proof (cases l)
    case None
    have "(done_logs @ [None]) @ logs = done_logs @ l # logs" using None by simp
    moreover have "j \<noteq> length done_logs"
      using Cons.prems(4,6) Cons.prems(5)[rule_format, of j] None
        submit_loop_before[of j "length done_logs + 1" ps sa fw logs] by auto
    moreover have "\<exists>log fw'. ((done_logs @ [None]) @ logs) ! j = Some log
      \<and> first_writer_upto (take j ((done_logs @ [None]) @ logs)) fw'
      \<and> ps ! j \<and> \<not> (\<exists>p \<in> conflict_producers j fw' log. ps ! p)
      \<and> at = (if conflict_producers j fw' log = {} then 0 else Max (conflict_producers j fw' log) + 1)"
      by (rule Cons.IH[of _ fw sa])
        (use Cons.prems None first_writer_upto_None[OF Cons.prems(1)] \<open>j \<noteq> length done_logs\<close> in auto)
    ultimately show ?thesis by simp
  next
    case (Some log)
    let ?i = "length done_logs"
    let ?prod = "conflict_producers ?i fw log"
    let ?sa = "if ps ! ?i \<and> \<not> (\<exists>p \<in> ?prod. ps ! p)
      then sa[?i := Some (if ?prod = {} then 0 else Max ?prod + 1)] else sa"
    let ?fw = "fold (record_first_writer ?i) (insert_digests log) fw"
    have run: "submit_loop ps (?i + 1) ?sa ?fw logs ! j = Some at"
      using Cons.prems(6) Some by (simp add: Let_def)
    show ?thesis
    proof (cases "j = ?i")
      case True
      then have "?sa ! j = Some at" using run submit_loop_before[of j "?i + 1" ps ?sa ?fw logs] by simp
      then have "ps ! j \<and> \<not> (\<exists>p \<in> ?prod. ps ! p) \<and> at = (if ?prod = {} then 0 else Max ?prod + 1)"
        using Cons.prems(4,5) True by (auto split: if_splits)
      then show ?thesis using Some True Cons.prems(1) by (intro exI[of _ log] exI[of _ fw]) simp
    next
      case False
      have "\<exists>l' fw'. ((done_logs @ [Some log]) @ logs) ! j = Some l'
        \<and> first_writer_upto (take j ((done_logs @ [Some log]) @ logs)) fw'
        \<and> ps ! j \<and> \<not> (\<exists>p \<in> conflict_producers j fw' l'. ps ! p)
        \<and> at = (if conflict_producers j fw' l' = {} then 0 else Max (conflict_producers j fw' l') + 1)"
      proof (rule Cons.IH)
        show "first_writer_upto (done_logs @ [Some log]) ?fw" by (rule first_writer_upto_Some[OF Cons.prems(1)])
        show "submit_loop ps (length (done_logs @ [Some log])) ?sa ?fw logs ! j = Some at" using run by simp
        show "\<forall>k. length (done_logs @ [Some log]) \<le> k \<longrightarrow> k < length ?sa \<longrightarrow> ?sa ! k = None"
          using Cons.prems(5) by auto
      qed (use Cons.prems(2-4) False in auto)
      then show ?thesis using Some by simp
    qed
  qed
qed

text \<open>
  C9. Soundness of the submit schedule. If the replay of position \<open>i\<close> is scheduled for frontier
  index \<open>at\<close>, then \<open>i\<close> has a worker log and is predicted to conflict, \<open>at\<close> does not lie behind \<open>i\<close>,
  and everything the replay depends on is already committed and clean when the frontier reaches
  \<open>at\<close>: the first writer of every digest it missed and every earlier producer of an overlay entry
  it consumed lie before \<open>at\<close> and are not predicted to conflict.
\<close>

theorem submit_schedule_sound:
  assumes "compute_submit_schedule logs ! i = Some at" "i < length logs"
  shows "\<exists>log. logs ! i = Some log \<and> predict_conflicts logs ! i \<and> at \<le> i
    \<and> (\<forall>d \<in> l_misses log. \<forall>j < i. d \<in> log_digests (logs ! j) \<and> (\<forall>k < j. d \<notin> log_digests (logs ! k)) \<longrightarrow>
         j < at \<and> \<not> predict_conflicts logs ! j)
    \<and> (\<forall>j \<in> l_overlay_deps log. j < i \<longrightarrow> j < at \<and> \<not> predict_conflicts logs ! j)"
proof -
  let ?ps = "predict_conflicts logs"
  obtain log fw where log: "logs ! i = Some log" and fw: "first_writer_upto (take i logs) fw"
    and p: "?ps ! i" and clean: "\<not> (\<exists>p \<in> conflict_producers i fw log. ?ps ! p)"
    and at: "at = (if conflict_producers i fw log = {} then 0 else Max (conflict_producers i fw log) + 1)"
    using submit_loop_nth[OF first_writer_upto_Nil, of "replicate (length logs) None" logs i ?ps at] assms
    by (auto simp: compute_submit_schedule_def)
  let ?C = "conflict_producers i fw log"
  have fin: "finite ?C" by (rule finite_subset[of _ "{..<i}"]) (auto simp: conflict_producers_def)
  have before: "j < at \<and> \<not> ?ps ! j" if "j \<in> ?C" for j
    using that clean Max_ge[OF fin that] unfolding at by (auto simp: less_Suc_eq_le)
  have "at \<le> i"
  proof (cases "?C = {}")
    case False
    then have "Max ?C \<in> ?C" by (rule Max_in[OF fin])
    then have "Max ?C < i" by (simp add: conflict_producers_def)
    then show ?thesis using False at by simp
  qed (simp add: at)
  moreover have "j \<in> ?C" if "d \<in> l_misses log" "j < i" "d \<in> log_digests (logs ! j)"
      "\<forall>k < j. d \<notin> log_digests (logs ! k)" for d j
  proof -
    have "fw d = Some j" using first_writer_uptoD[OF fw, of d j] that assms(2) by simp
    then show ?thesis using that(1,2) by (force simp: conflict_producers_def)
  qed
  moreover have "j \<in> ?C" if "j \<in> l_overlay_deps log" "j < i" for j
    using that by (simp add: conflict_producers_def)
  ultimately show ?thesis using log p before by blast
qed

theorem submit_schedule_sound_witness:
  "compute_submit_schedule [Some (demo_log {1} {} 1), Some (demo_log {1} {} 2), Some (demo_log {9} {} 9)]
     = [None, Some 1, None]
   \<and> predict_conflicts [Some (demo_log {1} {} 1), Some (demo_log {1} {} 2), Some (demo_log {9} {} 9)] ! 1"
proof -
  let ?logs = "[Some (demo_log {1} {} 1), Some (demo_log {1} {} 2), Some (demo_log {9} {} 9)]"
  have predicted: "predict_conflicts ?logs = [False, True, False]"
    by (simp add: predict_conflicts_def Let_def)
  have producers: "conflict_producers (Suc 0) [1 \<mapsto> 0] (demo_log {1} {} 2) = {0}"
    by (auto simp: conflict_producers_def)
  have computed: "compute_submit_schedule ?logs = [None, Some 1, None]"
    by (simp add: compute_submit_schedule_def predicted Let_def record_first_writer_def producers)
  from submit_schedule_sound[of ?logs 1 1] computed show ?thesis by auto
qed

end
