(* ===== verification/Reservation_Laws.thy ===== *)
theory Reservation_Laws
  imports Sessions
begin

text \<open>
  The laws of the reservation table. The six maps of the table are seen as one store of claims per
  cache key; the locale \<open>claim_store\<close> is the interface a deferring replay relies on, interpreted for
  the table's own operations. The counters are an invariant of every reachable table.
\<close>

section \<open>Visibility\<close>

definition visible :: "nat \<Rightarrow> reservation \<Rightarrow> bool" where
  "visible k r \<longleftrightarrow> r_publisher r < k \<and> r_state r = Pending"

text \<open>The earliest visible claim, the first one among equals.\<close>

definition earliest :: "nat \<Rightarrow> reservation list \<Rightarrow> reservation \<Rightarrow> bool" where
  "earliest k rs r \<longleftrightarrow>
     (\<exists>xs ys. rs = xs @ r # ys \<and> visible k r
        \<and> (\<forall>x \<in> set xs. visible k x \<longrightarrow> r_publisher r < r_publisher x)
        \<and> (\<forall>y \<in> set ys. visible k y \<longrightarrow> r_publisher r \<le> r_publisher y))"

lemma earliest_Cons_skip: "\<not> visible k x \<Longrightarrow> earliest k rs r \<Longrightarrow> earliest k (x # rs) r"
  unfolding earliest_def by (metis append_Cons set_ConsD)

lemma visibility_loop_Some_best:
  "visible k b \<Longrightarrow> \<exists>r. visibility_loop k (Some b) rs = Some r \<and> earliest k (b # rs) r"
proof (induction rs arbitrary: b)
  case Nil
  then show ?case by (auto simp: earliest_def intro: exI[of _ "[]"])
next
  case (Cons x rs)
  show ?case
  proof (cases "visible k x \<and> r_publisher x < r_publisher b")
    case True
    then obtain r where r: "visibility_loop k (Some x) rs = Some r" "earliest k (x # rs) r"
      using Cons.IH by blast
    then obtain xs ys where split: "x # rs = xs @ r # ys" "visible k r"
        "\<forall>y \<in> set xs. visible k y \<longrightarrow> r_publisher r < r_publisher y"
        "\<forall>y \<in> set ys. visible k y \<longrightarrow> r_publisher r \<le> r_publisher y" by (auto simp: earliest_def)
    then have "r_publisher r \<le> r_publisher x" using True by (cases xs) (auto simp: less_imp_le)
    then have "earliest k (b # x # rs) r" using split True unfolding earliest_def
      by (intro exI[of _ "b # xs"] exI[of _ ys]) auto
    then show ?thesis using r True by (auto simp: visible_def)
  next
    case False
    obtain r where r: "visibility_loop k (Some b) rs = Some r" "earliest k (b # rs) r"
      using Cons by blast
    then obtain xs ys where split: "b # rs = xs @ r # ys" "visible k r"
        "\<forall>y \<in> set xs. visible k y \<longrightarrow> r_publisher r < r_publisher y"
        "\<forall>y \<in> set ys. visible k y \<longrightarrow> r_publisher r \<le> r_publisher y" by (auto simp: earliest_def)
    have "earliest k (b # x # rs) r"
    proof (cases xs)
      case Nil
      then show ?thesis using split False unfolding earliest_def
        by (intro exI[of _ "[]"] exI[of _ "x # ys"]) auto
    next
      case (Cons b' xs')
      then show ?thesis using split False \<open>visible k b\<close> unfolding earliest_def
        by (intro exI[of _ "b # x # xs'"] exI[of _ ys]) auto
    qed
    then show ?thesis using r False by (auto simp: visible_def)
  qed
qed

lemma visibility_loop_None:
  "visibility_loop k None rs = None \<longleftrightarrow> (\<forall>r \<in> set rs. \<not> visible k r)"
  "visibility_loop k None rs = Some r \<Longrightarrow> earliest k rs r"
proof -
  have "(visibility_loop k None rs = None \<longleftrightarrow> (\<forall>r \<in> set rs. \<not> visible k r))
      \<and> (\<forall>r. visibility_loop k None rs = Some r \<longrightarrow> earliest k rs r)"
  proof (induction rs)
    case (Cons x rs)
    show ?case
    proof (cases "visible k x")
      case True
      then show ?thesis using visibility_loop_Some_best[OF True, of rs] by (auto simp: visible_def)
    next
      case False
      then show ?thesis using Cons earliest_Cons_skip[OF False] by (auto simp: visible_def)
    qed
  qed simp
  then show "visibility_loop k None rs = None \<longleftrightarrow> (\<forall>r \<in> set rs. \<not> visible k r)"
    "visibility_loop k None rs = Some r \<Longrightarrow> earliest k rs r" by auto
qed



section \<open>Claims\<close>

text \<open>The claims on one key of any of the six caches, and the table operations under one key type.\<close>

abbreviation bucket_claims :: "('k, 't list \<times> reservation) bucket_map \<Rightarrow> 'k \<Rightarrow> 't list \<Rightarrow> reservation list" where
  "bucket_claims m k a \<equiv> map snd (filter (\<lambda>(existing, _). existing = a) (bucket_of m k))"

fun claims :: "'t reservation_table \<Rightarrow> 't cache_key \<Rightarrow> reservation list" where
  "claims t (KGeneric k a) = bucket_claims (t_generic t) k a"
| "claims t (KInst k a) = bucket_claims (t_instantiations t) k a"
| "claims t (KPhysical k) = bucket_of (t_physical t) k"
| "claims t (KTemplate k) = bucket_of (t_templates t) k"
| "claims t (KMethod k) = bucket_of (t_methods t) k"
| "claims t (KOverload k) = bucket_of (t_overloads t) k"

fun reserve_key :: "'t cache_key \<Rightarrow> nat \<Rightarrow> u64 \<Rightarrow> 't reservation_table \<Rightarrow> 't reservation_table" where
  "reserve_key (KGeneric k a) = reserve_generic k a"
| "reserve_key (KInst k a) = reserve_instantiation k a"
| "reserve_key (KPhysical k) = reserve_physical k"
| "reserve_key (KTemplate k) = reserve_template k"
| "reserve_key (KMethod k) = reserve_method k"
| "reserve_key (KOverload k) = reserve_overload k"

fun query_key :: "'t reservation_table \<Rightarrow> 't cache_key \<Rightarrow> nat \<Rightarrow> reservation_lookup" where
  "query_key t (KGeneric k a) = query_generic t k a"
| "query_key t (KInst k a) = query_instantiation t k a"
| "query_key t (KPhysical k) = query_physical t k"
| "query_key t (KTemplate k) = query_template t k"
| "query_key t (KMethod k) = query_method t k"
| "query_key t (KOverload k) = query_overload t k"

lemma bucket_of_update: "bucket_of (entry_update k f m) k' = (if k' = k then f (bucket_of m k) else bucket_of m k')"
  by (induction k f m rule: entry_update.induct) auto

lemma transition_slot_map: "fst (transition_slot p to v rs n) = map (transition_one p to v) rs"
  by (induction rs arbitrary: n) (auto simp: Let_def split_beta)

lemma transition_flat_bucket:
  "bucket_of (fst (transition_flat m p to v n)) k = map (transition_one p to v) (bucket_of m k)"
proof (induction m arbitrary: n)
  case (Cons x m)
  then show ?case by (cases x) (auto simp: Let_def split_beta transition_slot_map)
qed simp

lemma transition_bucket_map:
  "fst (transition_bucket p to v rs n) = map (\<lambda>(a, r). (a, transition_one p to v r)) rs"
proof (induction rs arbitrary: n)
  case (Cons x rs)
  then show ?case by (cases x) (auto simp: Let_def split_beta)
qed simp

lemma transition_bucketed_bucket:
  "bucket_of (fst (transition_bucketed m p to v n)) k = map (\<lambda>(a, r). (a, transition_one p to v r)) (bucket_of m k)"
proof (induction m arbitrary: n)
  case (Cons x m)
  then show ?case by (cases x) (auto simp: Let_def split_beta transition_bucket_map)
qed simp

lemma bucket_claims_transition:
  "map snd (filter (\<lambda>(e, _). e = a) (map (\<lambda>(a, r). (a, f r)) b)) =
   map f (map snd (filter (\<lambda>(e, _). e = a) b))"
  by (induction b) auto

lemma claims_transition: "claims (transition p to v t) K = map (transition_one p to v) (claims t K)"
  by (cases K) (simp_all add: transition_def Let_def split_beta transition_flat_bucket
      transition_bucketed_bucket bucket_claims_transition)

lemma query_key_claims: "query_key t K k = reservation_visibility (claims t K) k"
  by (cases K) (simp_all add: query_generic_def query_instantiation_def query_physical_def
      query_template_def query_method_def query_overload_def query_bucketed_def query_flat_def)

lemma claims_reserve:
  "claims (reserve_key K p a t) K' =
     claims t K' @ (if K' = K \<and> (\<forall>r \<in> set (claims t K). r_publisher r \<noteq> p) then [pending_reservation p a] else [])"
proof -
  have ex: "(\<exists>(e, r) \<in> set b. e = args \<and> r_publisher r = p) \<longleftrightarrow>
      \<not> (\<forall>r \<in> set (map snd (filter (\<lambda>(e, _). e = args) b)). r_publisher r \<noteq> p)"
    for b :: "('a list \<times> reservation) list" and args by fastforce
  show ?thesis
    by (cases K; cases K')
      (auto simp: reserve_generic_def reserve_instantiation_def reserve_physical_def reserve_template_def
        reserve_method_def reserve_overload_def reserve_bucketed_def reserve_flat_def Let_def
        bucket_of_update ex count_pending_def split: if_splits)
qed

section \<open>The interface a deferring replay relies on\<close>

locale claim_store =
  fixes claims_of :: "'s \<Rightarrow> 'k \<Rightarrow> reservation list"
    and reserve :: "'k \<Rightarrow> nat \<Rightarrow> u64 \<Rightarrow> 's \<Rightarrow> 's"
    and move :: "nat \<Rightarrow> reservation_state \<Rightarrow> u64 \<Rightarrow> 's \<Rightarrow> 's"
    and ask :: "'s \<Rightarrow> 'k \<Rightarrow> nat \<Rightarrow> reservation_lookup"
  assumes ask_claims: "ask s K k = reservation_visibility (claims_of s K) k"
    and claims_of_reserve: "claims_of (reserve K p a s) K' = claims_of s K' @
      (if K' = K \<and> (\<forall>r \<in> set (claims_of s K). r_publisher r \<noteq> p) then [pending_reservation p a] else [])"
    and claims_of_move: "claims_of (move p to v s) K = map (transition_one p to v) (claims_of s K)"
begin

lemma ask_none: "ask s K k = NoReservation \<longleftrightarrow> (\<forall>r \<in> set (claims_of s K). \<not> visible k r)"
  using visibility_loop_None(1)[of k "claims_of s K"]
  by (auto simp: ask_claims reservation_visibility_def split: option.split)

lemma ask_deferredD:
  assumes "ask s K k = Deferred p a"
  obtains r where "r \<in> set (claims_of s K)" "visible k r" "r_publisher r = p" "r_attempt r = a"
    "\<forall>x \<in> set (claims_of s K). visible k x \<longrightarrow> p \<le> r_publisher x"
proof -
  obtain r where r: "visibility_loop k None (claims_of s K) = Some r" "r_publisher r = p" "r_attempt r = a"
    using assms by (auto simp: ask_claims reservation_visibility_def split: option.splits)
  obtain xs ys where *: "claims_of s K = xs @ r # ys" "visible k r"
      "\<forall>x \<in> set xs. visible k x \<longrightarrow> r_publisher r < r_publisher x"
      "\<forall>y \<in> set ys. visible k y \<longrightarrow> r_publisher r \<le> r_publisher y"
    using visibility_loop_None(2)[OF r(1)] by (auto simp: earliest_def)
  show thesis by (rule that[of r]) (use * r in \<open>auto simp: less_imp_le\<close>)
qed

lemma never_waits_on_self_or_future: "ask s K k = Deferred p a \<Longrightarrow> p < k"
  by (erule ask_deferredD) (simp add: visible_def)

lemma reserve_defers: "p < k \<Longrightarrow> (\<forall>r \<in> set (claims_of s K). r_publisher r \<noteq> p) \<Longrightarrow>
    \<exists>q b. ask (reserve K p a s) K k = Deferred q b \<and> q \<le> p"
proof -
  assume "p < k" "\<forall>r \<in> set (claims_of s K). r_publisher r \<noteq> p"
  then have mem: "pending_reservation p a \<in> set (claims_of (reserve K p a s) K)"
    and vis: "visible k (pending_reservation p a)"
    by (auto simp: claims_of_reserve visible_def pending_reservation_def)
  show ?thesis
  proof (cases "ask (reserve K p a s) K k")
    case NoReservation
    then show ?thesis using mem vis by (auto simp: ask_none)
  next
    case (Deferred q b)
    from this obtain r where "\<forall>x \<in> set (claims_of (reserve K p a s) K). visible k x \<longrightarrow> q \<le> r_publisher x"
      by (rule ask_deferredD)
    then have "q \<le> p" using mem vis by (auto simp: pending_reservation_def)
    then show ?thesis using Deferred by blast
  qed
qed

lemma moved_never_defers:
  assumes "to \<noteq> Pending"
  shows "ask (move p to v s) K k \<noteq> Deferred p a"
proof
  assume "ask (move p to v s) K k = Deferred p a"
  then obtain r where r: "r \<in> set (claims_of (move p to v s) K)" "visible k r" "r_publisher r = p"
    by (rule ask_deferredD)
  then obtain x where x: "r = transition_one p to v x" by (auto simp: claims_of_move)
  show False
  proof (cases "transitions p x")
    case True
    then show False using r(2) assms by (simp add: x transition_one_def visible_def)
  next
    case False
    then have "r = x" by (simp add: x transition_one_def)
    then show False using False r(2,3) by (simp add: visible_def transitions_def)
  qed
qed

end

interpretation table: claim_store claims reserve_key transition query_key
  by unfold_locales (simp_all add: query_key_claims claims_reserve claims_transition)

text \<open>
  Deferral never waits for the position itself or for a later one: whatever the table holds, a
  query at position \<open>k\<close> on any key of the six caches defers only to positions before \<open>k\<close>. Hence a
  chain of deferrals strictly descends.
\<close>

theorem query_defers_earlier:
  "query_key t K k = Deferred p a \<Longrightarrow> p < k"
  by (rule table.never_waits_on_self_or_future)

theorem query_defers_earlier_witness:
  "query_key (reserve_key (KGeneric \<lparr>dk_file_name = ''a'', dk_name = ''B'', dk_namespace = TypeNamespace,
     dk_fingerprint = 0\<rparr> [1::nat]) 2 20 new_table)
     (KGeneric \<lparr>dk_file_name = ''a'', dk_name = ''B'', dk_namespace = TypeNamespace, dk_fingerprint = 0\<rparr> [1]) 5
   = Deferred 2 20 \<and> (2::nat) < 5"
proof
  show "query_key (reserve_key (KGeneric \<lparr>dk_file_name = ''a'', dk_name = ''B'', dk_namespace = TypeNamespace,
     dk_fingerprint = 0\<rparr> [1::nat]) 2 20 new_table)
     (KGeneric \<lparr>dk_file_name = ''a'', dk_name = ''B'', dk_namespace = TypeNamespace, dk_fingerprint = 0\<rparr> [1]) 5
   = Deferred 2 20" by code_simp
  then show "(2::nat) < 5" by (rule query_defers_earlier)
qed

lemma earliest_Cons:
  "earliest k (x # rs) r \<longleftrightarrow>
     visible k x \<and> r = x \<and> (\<forall>y \<in> set rs. visible k y \<longrightarrow> r_publisher x \<le> r_publisher y)
     \<or> earliest k rs r \<and> (visible k x \<longrightarrow> r_publisher r < r_publisher x)"
proof
  assume "earliest k (x # rs) r"
  then obtain xs ys where *: "x # rs = xs @ r # ys" "visible k r"
      "\<forall>x \<in> set xs. visible k x \<longrightarrow> r_publisher r < r_publisher x"
      "\<forall>y \<in> set ys. visible k y \<longrightarrow> r_publisher r \<le> r_publisher y" by (auto simp: earliest_def)
  then show "visible k x \<and> r = x \<and> (\<forall>y \<in> set rs. visible k y \<longrightarrow> r_publisher x \<le> r_publisher y)
     \<or> earliest k rs r \<and> (visible k x \<longrightarrow> r_publisher r < r_publisher x)"
    by (cases xs) (auto simp: earliest_def)
next
  assume "visible k x \<and> r = x \<and> (\<forall>y \<in> set rs. visible k y \<longrightarrow> r_publisher x \<le> r_publisher y)
     \<or> earliest k rs r \<and> (visible k x \<longrightarrow> r_publisher r < r_publisher x)"
  then show "earliest k (x # rs) r"
  proof
    assume "earliest k rs r \<and> (visible k x \<longrightarrow> r_publisher r < r_publisher x)"
    then obtain xs ys where *: "rs = xs @ r # ys" "visible k r" "visible k x \<longrightarrow> r_publisher r < r_publisher x"
      "\<forall>x \<in> set xs. visible k x \<longrightarrow> r_publisher r < r_publisher x"
      "\<forall>y \<in> set ys. visible k y \<longrightarrow> r_publisher r \<le> r_publisher y" by (auto simp: earliest_def)
    then show ?thesis unfolding earliest_def by (intro exI[of _ "x # xs"] exI[of _ ys]) auto
  next
    assume "visible k x \<and> r = x \<and> (\<forall>y \<in> set rs. visible k y \<longrightarrow> r_publisher x \<le> r_publisher y)"
    then show ?thesis unfolding earliest_def by (intro exI[of _ "[]"] exI[of _ rs]) auto
  qed
qed

lemma earliest_visible: "earliest k rs r \<Longrightarrow> r \<in> set rs \<and> visible k r"
  by (auto simp: earliest_def)

lemma earliest_unique: "earliest k rs r \<Longrightarrow> earliest k rs r' \<Longrightarrow> r = r'"
proof (induction rs)
  case (Cons x rs)
  then show ?case using earliest_visible[of k rs] by (fastforce simp: earliest_Cons)
qed (simp add: earliest_def)

lemma visibility_loop_iff: "visibility_loop k None rs = Some r \<longleftrightarrow> earliest k rs r"
  using visibility_loop_None(1)[of k rs] visibility_loop_None(2)[of k rs] earliest_unique earliest_visible
  by (metis not_None_eq)

lemma earliest_transition:
  assumes "earliest k rs r" "r_publisher r \<noteq> p" "to \<noteq> Pending"
  shows "earliest k (map (transition_one p to v) rs) r"
proof -
  have step: "visible k (transition_one p to v x) \<Longrightarrow> visible k x"
      "r_publisher (transition_one p to v x) = r_publisher x" for x
    using assms(3) by (auto simp: transition_one_def visible_def split: if_splits)
  obtain xs ys where *: "rs = xs @ r # ys" "visible k r"
      "\<forall>x \<in> set xs. visible k x \<longrightarrow> r_publisher r < r_publisher x"
      "\<forall>y \<in> set ys. visible k y \<longrightarrow> r_publisher r \<le> r_publisher y" using assms(1) by (auto simp: earliest_def)
  have "transition_one p to v r = r" using assms(2) by (simp add: transition_one_def transitions_def)
  then show ?thesis unfolding earliest_def using * step
    by (intro exI[of _ "map (transition_one p to v) xs"] exI[of _ "map (transition_one p to v) ys"])
      (auto simp: step)
qed

lemma query_key_transition:
  assumes "query_key t K k = Deferred q b" "q \<noteq> p" "to \<noteq> Pending"
  shows "query_key (transition p to v t) K k = Deferred q b"
proof -
  obtain r where "earliest k (claims t K) r" "r_publisher r = q" "r_attempt r = b"
    using assms(1) by (auto simp: query_key_claims reservation_visibility_def visibility_loop_iff split: option.splits)
  then have "visibility_loop k None (claims (transition p to v t) K) = Some r"
    using earliest_transition[of k "claims t K" r p to v] assms(2,3)
    by (simp add: visibility_loop_iff claims_transition)
  then show ?thesis using \<open>r_publisher r = q\<close> \<open>r_attempt r = b\<close>
    by (simp add: query_key_claims reservation_visibility_def)
qed

text \<open>
  A publisher that finalizes or is cancelled wakes its dependents: afterwards no query on any
  key defers to it, and a query that deferred to another publisher still gives the same answer.
\<close>

theorem finalize_cancel_wakes:
  "query_key (finalize p v t) K k \<noteq> Deferred p a \<and> query_key (cancel p t) K k \<noteq> Deferred p a
   \<and> (q \<noteq> p \<longrightarrow> query_key t K k = Deferred q b \<longrightarrow>
        query_key (finalize p v t) K k = Deferred q b \<and> query_key (cancel p t) K k = Deferred q b)"
  using table.moved_never_defers[of Ready p v t K k a] table.moved_never_defers[of Cancelled p 0 t K k a]
    query_key_transition[of t K k q b p Ready v] query_key_transition[of t K k q b p Cancelled 0]
  by (simp add: finalize_def cancel_def)

definition demo_table :: "nat reservation_table" where
  "demo_table = reserve_physical
     \<lparr>ik_declaration = \<lparr>canonical_file = ''a'', declaration_start = 0, declaration_name = ''A'', merged_fragments = []\<rparr>,
      ik_substitution = 0, ik_environment = \<lparr>no_lib = False, skip_lib_check = False, environment_discriminator = 0\<rparr>\<rparr> 3 30
     (reserve_generic \<lparr>dk_file_name = ''a'', dk_name = ''B'', dk_namespace = TypeNamespace, dk_fingerprint = 0\<rparr> [1] 2 20
       (reserve_generic \<lparr>dk_file_name = ''a'', dk_name = ''B'', dk_namespace = TypeNamespace, dk_fingerprint = 0\<rparr> [1] 4 40 new_table))"

abbreviation demo_cache_key :: "nat cache_key" where
  "demo_cache_key \<equiv> KGeneric \<lparr>dk_file_name = ''a'', dk_name = ''B'', dk_namespace = TypeNamespace, dk_fingerprint = 0\<rparr> [1]"

theorem finalize_cancel_wakes_witness:
  "query_key demo_table demo_cache_key 6 = Deferred 2 20
   \<and> query_key (finalize 3 1 demo_table) demo_cache_key 6 = Deferred 2 20
   \<and> query_key (finalize 2 1 demo_table) demo_cache_key 6 \<noteq> Deferred 2 20"
proof -
  have hit: "query_key demo_table demo_cache_key 6 = Deferred 2 20" by code_simp
  then show ?thesis
    using finalize_cancel_wakes[of 3 1 demo_table demo_cache_key 6 0 2 20]
      finalize_cancel_wakes[of 2 1 demo_table demo_cache_key 6 20 2 20] by simp
qed

section \<open>The pending counters\<close>

definition pend :: "reservation list \<Rightarrow> nat" where
  "pend rs = length (filter (\<lambda>r. r_state r = Pending) rs)"

definition owned :: "nat \<Rightarrow> reservation list \<Rightarrow> nat" where
  "owned p rs = length (filter (transitions p) rs)"

definition total :: "(reservation list \<Rightarrow> nat) \<Rightarrow> ('v \<Rightarrow> reservation) \<Rightarrow> ('k, 'v) bucket_map \<Rightarrow> nat" where
  "total f g m = sum_list (map (\<lambda>(_, b). f (map g b)) m)"

definition table_total :: "(reservation list \<Rightarrow> nat) \<Rightarrow> 't reservation_table \<Rightarrow> nat" where
  "table_total f t = total f snd (t_generic t) + total f snd (t_instantiations t)
     + total f (\<lambda>r. r) (t_physical t) + total f (\<lambda>r. r) (t_templates t)
     + total f (\<lambda>r. r) (t_methods t) + total f (\<lambda>r. r) (t_overloads t)"

lemma total_simps [simp]:
  "total f g [] = 0" "total f g ((k, b) # m) = f (map g b) + total f g m"
  by (simp_all add: total_def)

lemma pend_simps [simp]:
  "pend [] = 0" "pend (r # rs) = (if r_state r = Pending then 1 else 0) + pend rs"
  "pend (rs @ rs') = pend rs + pend rs'"
  by (simp_all add: pend_def)

lemma owned_simps [simp]:
  "owned p [] = 0" "owned p (r # rs) = (if transitions p r then 1 else 0) + owned p rs"
  by (simp_all add: owned_def)

lemma transition_slot_count:
  "snd (transition_slot p to v rs n) = n - owned p rs"
  by (induction rs arbitrary: n) (auto simp: Let_def split_beta)

lemma transition_bucket_count:
  "snd (transition_bucket p to v rs n) = n - owned p (map snd rs)"
proof (induction rs arbitrary: n)
  case (Cons x rs)
  then show ?case by (cases x) (auto simp: Let_def split_beta)
qed simp

lemma pend_transition:
  "to \<noteq> Pending \<Longrightarrow> pend (map (transition_one p to v) rs) + owned p rs = pend rs"
  by (induction rs) (auto simp: transition_one_def transitions_def)

lemma transition_flat_count:
  "snd (transition_flat m p to v n) = n - total (owned p) (\<lambda>r. r) m
   \<and> (to \<noteq> Pending \<longrightarrow>
        total pend (\<lambda>r. r) (fst (transition_flat m p to v n)) + total (owned p) (\<lambda>r. r) m = total pend (\<lambda>r. r) m)"
proof (induction m arbitrary: n)
  case (Cons x m)
  obtain k b where x: "x = (k, b)" by (cases x)
  then show ?case
    using Cons[of "n - owned p b"] pend_transition[of to p v b]
    by (auto simp: Let_def split_beta transition_slot_map transition_slot_count)
qed simp

lemma transition_bucketed_count:
  "snd (transition_bucketed m p to v n) = n - total (owned p) snd m
   \<and> (to \<noteq> Pending \<longrightarrow>
        total pend snd (fst (transition_bucketed m p to v n)) + total (owned p) snd m = total pend snd m)"
proof (induction m arbitrary: n)
  case (Cons x m)
  obtain k b where x: "x = (k, b)" by (cases x)
  have "map (\<lambda>x. transition_one p to v (snd x)) b = map (transition_one p to v) (map snd b)" by simp
  then show ?case
    using Cons[of "n - owned p (map snd b)"] pend_transition[of to p v "map snd b"]
    by (auto simp: x Let_def split_beta transition_bucket_map transition_bucket_count comp_def)
qed simp

text \<open>The pending counter is the number of pending claims, and the peak is never below it.\<close>

definition table_ok :: "'t reservation_table \<Rightarrow> bool" where
  "table_ok t \<longleftrightarrow> t_pending t = table_total pend t \<and> t_pending t \<le> t_peak_pending t"

lemma total_entry_update:
  "total f g (entry_update k h m) + f (map g (bucket_of m k)) =
     total f g m + (if k \<in> fst ` set m then f (map g (h (bucket_of m k))) else f (map g (h [])) + f (map g (bucket_of m k)))"
  by (induction k h m rule: entry_update.induct) auto

lemma total_reserve:
  assumes "pend (map g (h (bucket_of m k))) = pend (map g (bucket_of m k)) + d" "pend (map g (h [])) = d"
  shows "total pend g (entry_update k h m) = total pend g m + d"
  using total_entry_update[of pend g k h m] assms by (auto split: if_splits)

lemma pend_pending [simp]: "r_state (pending_reservation p a) = Pending"
  by (simp add: pending_reservation_def)

lemma reserve_bucketed_count:
  assumes "reserve_bucketed m k args p a (n, peak) = (m', n', peak')"
  shows "total pend snd m' + n = total pend snd m + n' \<and> n \<le> n' \<and> peak \<le> peak' \<and> (n \<le> peak \<longrightarrow> n' \<le> peak')"
  using assms
  by (auto simp: reserve_bucketed_def count_pending_def total_reserve[where d = 0] total_reserve[where d = 1]
      split: if_splits)

lemma reserve_flat_count:
  assumes "reserve_flat m k p a (n, peak) = (m', n', peak')"
  shows "total pend (\<lambda>r. r) m' + n = total pend (\<lambda>r. r) m + n' \<and> n \<le> n' \<and> peak \<le> peak' \<and> (n \<le> peak \<longrightarrow> n' \<le> peak')"
  using assms
  by (auto simp: reserve_flat_def count_pending_def total_reserve[where d = 0] total_reserve[where d = 1]
      split: if_splits)

lemma table_ok_reserve: "table_ok t \<Longrightarrow> table_ok (reserve_key K p a t)"
  by (cases K)
    (auto simp: table_ok_def table_total_def reserve_generic_def reserve_instantiation_def
      reserve_physical_def reserve_template_def reserve_method_def reserve_overload_def Let_def
      dest!: reserve_bucketed_count reserve_flat_count split: prod.split)

lemma transition_counts:
  assumes "to \<noteq> Pending"
  shows "t_pending (transition p to v t) = t_pending t - table_total (owned p) t
    \<and> table_total pend (transition p to v t) + table_total (owned p) t = table_total pend t
    \<and> t_peak_pending (transition p to v t) = t_peak_pending t"
proof -
  obtain g n1 where 1: "transition_bucketed (t_generic t) p to v (t_pending t) = (g, n1)" by fastforce
  obtain i n2 where 2: "transition_bucketed (t_instantiations t) p to v n1 = (i, n2)" by fastforce
  obtain ph n3 where 3: "transition_flat (t_physical t) p to v n2 = (ph, n3)" by fastforce
  obtain te n4 where 4: "transition_flat (t_templates t) p to v n3 = (te, n4)" by fastforce
  obtain me n5 where 5: "transition_flat (t_methods t) p to v n4 = (me, n5)" by fastforce
  obtain ov n6 where 6: "transition_flat (t_overloads t) p to v n5 = (ov, n6)" by fastforce
  have t': "transition p to v t = t\<lparr>t_generic := g, t_instantiations := i, t_physical := ph,
      t_templates := te, t_methods := me, t_overloads := ov, t_pending := n6\<rparr>"
    by (simp add: transition_def 1 2 3 4 5 6)
  note counts = transition_bucketed_count[of "t_generic t" p to v "t_pending t", unfolded 1 fst_conv snd_conv]
    transition_bucketed_count[of "t_instantiations t" p to v n1, unfolded 2 fst_conv snd_conv]
    transition_flat_count[of "t_physical t" p to v n2, unfolded 3 fst_conv snd_conv]
    transition_flat_count[of "t_templates t" p to v n3, unfolded 4 fst_conv snd_conv]
    transition_flat_count[of "t_methods t" p to v n4, unfolded 5 fst_conv snd_conv]
    transition_flat_count[of "t_overloads t" p to v n5, unfolded 6 fst_conv snd_conv]
  show ?thesis unfolding t' using assms counts by (simp add: table_total_def)
qed

lemma table_ok_transition: "to \<noteq> Pending \<Longrightarrow> table_ok t \<Longrightarrow> table_ok (transition p to v t)"
  using transition_counts[of to p v t] by (auto simp: table_ok_def)

text \<open>The tables the walk can reach: created empty, then reserved into, finalized, cancelled and
  cleared in any order.\<close>

inductive reachable_table :: "'t reservation_table \<Rightarrow> bool" where
  created: "reachable_table new_table"
| reserved: "reachable_table t \<Longrightarrow> reachable_table (reserve_key K p a t)"
| finalized: "reachable_table t \<Longrightarrow> reachable_table (finalize p v t)"
| cancelled: "reachable_table t \<Longrightarrow> reachable_table (cancel p t)"
| cleared: "reachable_table t \<Longrightarrow> reachable_table (clear_table t)"

lemma reachable_fold:
  assumes "\<And>x t. reachable_table t \<Longrightarrow> reachable_table (f x t)"
  shows "reachable_table t \<Longrightarrow> reachable_table (fold f xs t)"
  by (induction xs arbitrary: t) (auto intro: assms)

lemma reachable_reserve_into: "reachable_table t \<Longrightarrow> reachable_table (reserve_into log p a t)"
  unfolding reserve_into_def Let_def
  by (intro reachable_fold)
    (auto intro: reserved[of _ "KGeneric k x" for k x, simplified] reserved[of _ "KInst k x" for k x, simplified]
      reserved[of _ "KPhysical k" for k, simplified] reserved[of _ "KTemplate k" for k, simplified]
      reserved[of _ "KMethod k" for k, simplified] reserved[of _ "KOverload k" for k, simplified])

definition all_reservations :: "'t reservation_table \<Rightarrow> reservation list" where
  "all_reservations t =
     concat (map (\<lambda>(_, b). map snd b) (t_generic t)) @ concat (map (\<lambda>(_, b). map snd b) (t_instantiations t))
     @ concat (map snd (t_physical t)) @ concat (map snd (t_templates t))
     @ concat (map snd (t_methods t)) @ concat (map snd (t_overloads t))"

lemma total_pend_bucketed: "total pend snd m = pend (concat (map (\<lambda>(_, b). map snd b) m))"
  by (induction m) auto

lemma total_pend_flat: "total pend (\<lambda>r. r) m = pend (concat (map snd m))"
  by (induction m) auto

lemma table_total_pend: "table_total pend t = pend (all_reservations t)"
  by (simp add: table_total_def all_reservations_def total_pend_bucketed total_pend_flat)

lemma concat_transition_flat:
  "concat (map snd (fst (transition_flat m p to v n))) = map (transition_one p to v) (concat (map snd m))"
proof (induction m arbitrary: n)
  case (Cons x m)
  then show ?case by (cases x) (auto simp: Let_def split_beta transition_slot_map)
qed simp

lemma concat_transition_bucketed:
  "concat (map (\<lambda>(_, b). map snd b) (fst (transition_bucketed m p to v n))) =
     map (transition_one p to v) (concat (map (\<lambda>(_, b). map snd b) m))"
proof (induction m arbitrary: n)
  case (Cons x m)
  then show ?case by (cases x) (auto simp: Let_def split_beta transition_bucket_map)
qed simp

lemma all_reservations_transition:
  "all_reservations (transition p to v t) = map (transition_one p to v) (all_reservations t)"
  by (simp add: all_reservations_def transition_def Let_def split_beta concat_transition_flat
      concat_transition_bucketed)

lemma finalize_transition: "all_reservations (finalize p v t) = map (transition_one p Ready v) (all_reservations t)"
  by (simp add: finalize_def all_reservations_transition)

lemma all_reservations_finalized:
  assumes "r \<in> set (all_reservations (fold (\<lambda>p. finalize p v) [0..<n] t))" "r_state r = Pending"
  shows "n \<le> r_publisher r \<and> r \<in> set (all_reservations t)"
  using assms
proof (induction n arbitrary: r)
  case (Suc n)
  from Suc.prems(1) obtain x where x: "r = transition_one n Ready v x"
      "x \<in> set (all_reservations (fold (\<lambda>p. finalize p v) [0..<n] t))"
    by (auto simp: finalize_transition all_reservations_transition)
  have "\<not> transitions n x" using Suc.prems(2) by (auto simp: x transition_one_def split: if_splits)
  then have "r = x" "r_publisher x \<noteq> n" using Suc.prems(2) by (auto simp: x transition_one_def transitions_def)
  then show ?case using Suc.IH[of x] x(2) Suc.prems(2) by auto
qed simp

lemma table_ok_reachable: "reachable_table t \<Longrightarrow> table_ok t"
proof (induction rule: reachable_table.induct)
  case created
  show ?case by (simp add: table_ok_def table_total_def new_table_def)
next
  case (cleared t)
  show ?case by (simp add: table_ok_def table_total_def clear_table_def)
qed (auto simp: table_ok_reserve finalize_def cancel_def table_ok_transition)

lemma reachable_finalize_all: "reachable_table t \<Longrightarrow> reachable_table (fold (\<lambda>p. finalize p v) ps t)"
  by (induction ps arbitrary: t) (auto intro: finalized)

text \<open>
  C8. The counters of the reservation table are exact on every reachable table: \<open>pending\<close> is the
  number of pending claims in the six maps and never exceeds \<open>peak_pending\<close>, so the saturating
  subtraction of the transitions never saturates. Finalizing every position that claimed a key
  leaves no claim pending: the end-of-run leak count is zero.
\<close>

theorem pending_count_exact:
  assumes "reachable_table t"
  shows "t_pending t = length (filter (\<lambda>r. r_state r = Pending) (all_reservations t))
    \<and> t_pending t \<le> t_peak_pending t
    \<and> ((\<forall>r \<in> set (all_reservations t). r_publisher r < n) \<longrightarrow>
         t_pending (fold (\<lambda>p. finalize p v) [0..<n] t) = 0)"
proof (intro conjI impI)
  have ok: "table_ok t" using assms by (rule table_ok_reachable)
  then show "t_pending t = length (filter (\<lambda>r. r_state r = Pending) (all_reservations t))"
    and "t_pending t \<le> t_peak_pending t"
    by (simp_all add: table_ok_def table_total_pend pend_def[symmetric])
  assume below: "\<forall>r \<in> set (all_reservations t). r_publisher r < n"
  let ?t = "fold (\<lambda>p. finalize p v) [0..<n] t"
  have "r_state r \<noteq> Pending" if "r \<in> set (all_reservations ?t)" for r
    using all_reservations_finalized[OF that] below by (cases "r_state r = Pending") auto
  then have "pend (all_reservations ?t) = 0" by (simp add: pend_def filter_empty_conv)
  moreover have "table_ok ?t" by (rule table_ok_reachable[OF reachable_finalize_all[OF assms]])
  ultimately show "t_pending ?t = 0" by (simp add: table_ok_def table_total_pend)
qed

theorem pending_count_exact_witness:
  "t_pending demo_table = 3 \<and> t_pending (fold (\<lambda>p. finalize p 1) [0..<5] demo_table) = 0"
proof -
  have "reachable_table demo_table" unfolding demo_table_def
    by (metis reachable_table.created reachable_table.reserved reserve_key.simps(1) reserve_key.simps(3))
  moreover have "\<forall>r \<in> set (all_reservations demo_table). r_publisher r < 5" by code_simp
  ultimately show ?thesis using pending_count_exact[of demo_table 5 1] by (simp, code_simp)
qed

end
