(* ===== verification/Schedule.thy ===== *)
theory Schedule
  imports Prelude
begin

text \<open>
  The deterministic SCC scheduler of module analysis
  (\<open>crates/surge-ts-checker/src/program/schedule.rs\<close>).

  \<^item> \<open>tarjan_scc\<close> is the iterative Tarjan algorithm with its explicit work stack. Vectors used as
    stacks are lists with the top first; \<open>UNVISITED\<close> is \<open>None\<close>. An out-of-range index and a \<open>pop\<close>
    of an empty stack panic in the code and give \<open>None\<close> here, as does a loop that does not end.
  \<^item> \<open>build\<close> makes the schedule of a module count and importer/importee edges, \<open>commit_order\<close> is
    Kahn's algorithm over the condensation. The heap of ready components is an ascending list:
    \<open>BinaryHeap::pop\<close> on \<open>Reverse\<close> values removes the least one.
\<close>

section \<open>Tarjan's algorithm\<close>

record tarjan_state =
  index_of :: "nat option list"
  low_link :: "nat list"
  on_stack :: "bool list"
  component_stack :: "nat list"
  next_index :: nat
  components :: "nat list list"
  work :: "(nat \<times> nat) list"

text \<open>The inner \<open>loop\<close> that closes a component: pop until the root itself is popped.\<close>

fun pop_component :: "nat \<Rightarrow> nat list \<Rightarrow> bool list \<Rightarrow> nat list \<Rightarrow> (nat list \<times> nat list \<times> bool list) option" where
  "pop_component node [] on_st component = None"
| "pop_component node (mem # stack) on_st component =
     (let on_st' = on_st[mem := False]; component' = component @ [mem]
      in if mem = node then Some (component', stack, on_st')
         else pop_component node stack on_st' component')"

definition enter_node :: "nat \<Rightarrow> tarjan_state \<Rightarrow> tarjan_state" where
  "enter_node node st =
     st\<lparr>index_of := (index_of st)[node := Some (next_index st)],
        low_link := (low_link st)[node := next_index st],
        next_index := next_index st + 1,
        component_stack := node # component_stack st,
        on_stack := (on_stack st)[node := True]\<rparr>"

definition follow_edge :: "nat \<Rightarrow> nat \<Rightarrow> tarjan_state \<Rightarrow> tarjan_state option" where
  "follow_edge node next st =
     (if length (index_of st) \<le> next then None
      else case index_of st ! next of
             None \<Rightarrow> Some (st\<lparr>work := (next, 0) # work st\<rparr>)
           | Some i \<Rightarrow>
               if on_stack st ! next
               then Some (st\<lparr>low_link := (low_link st)[node := min (low_link st ! node) i]\<rparr>)
               else Some st)"

definition close_component :: "nat \<Rightarrow> tarjan_state \<Rightarrow> tarjan_state option" where
  "close_component node st =
     (if index_of st ! node = Some (low_link st ! node)
      then case pop_component node (component_stack st) (on_stack st) [] of
             None \<Rightarrow> None
           | Some (component, stack, on_st) \<Rightarrow>
               Some (st\<lparr>component_stack := stack, on_stack := on_st,
                        components := components st @ [component]\<rparr>)
      else Some st)"

definition return_to_parent :: "nat \<Rightarrow> (nat \<times> nat) list \<Rightarrow> tarjan_state \<Rightarrow> tarjan_state" where
  "return_to_parent node rest st =
     (case rest of
        [] \<Rightarrow> st\<lparr>work := rest\<rparr>
      | (parent, _) # _ \<Rightarrow>
          st\<lparr>work := rest,
             low_link := (low_link st)[parent := min (low_link st ! parent) (low_link st ! node)]\<rparr>)"

text \<open>One iteration of \<open>while let Some(&(node, successor)) = work.last()\<close>.\<close>

definition tarjan_step :: "nat list list \<Rightarrow> nat \<Rightarrow> nat \<Rightarrow> (nat \<times> nat) list \<Rightarrow> tarjan_state \<Rightarrow> tarjan_state option" where
  "tarjan_step adjacency node successor rest st =
     (let st1 = (if successor = 0 then enter_node node st else st)
      in if successor < length (adjacency ! node)
         then follow_edge node (adjacency ! node ! successor) (st1\<lparr>work := (node, successor + 1) # rest\<rparr>)
         else map_option (return_to_parent node rest) (close_component node st1))"

partial_function (option) tarjan_loop :: "nat list list \<Rightarrow> tarjan_state \<Rightarrow> tarjan_state option" where
  "tarjan_loop adjacency st =
     (case work st of
        [] \<Rightarrow> Some st
      | (node, successor) # rest \<Rightarrow>
          Option.bind (tarjan_step adjacency node successor rest st) (tarjan_loop adjacency))"

declare tarjan_loop.simps [code]

fun tarjan_roots :: "nat list list \<Rightarrow> nat list \<Rightarrow> tarjan_state \<Rightarrow> tarjan_state option" where
  "tarjan_roots adjacency [] st = Some st"
| "tarjan_roots adjacency (root # roots) st =
     (if index_of st ! root \<noteq> None then tarjan_roots adjacency roots st
      else Option.bind (tarjan_loop adjacency (st\<lparr>work := (root, 0) # work st\<rparr>)) (tarjan_roots adjacency roots))"

definition tarjan_start :: "nat \<Rightarrow> tarjan_state" where
  "tarjan_start n =
     \<lparr>index_of = replicate n None, low_link = replicate n 0, on_stack = replicate n False,
      component_stack = [], next_index = 0, components = [], work = []\<rparr>"

definition tarjan_scc :: "nat list list \<Rightarrow> nat list list option" where
  "tarjan_scc adjacency =
     map_option components
       (tarjan_roots adjacency [0..<length adjacency] (tarjan_start (length adjacency)))"

section \<open>The schedule\<close>

record scc =
  members :: "nat list"
  dependencies :: "nat list"
  dependents :: "nat list"

record module_schedule =
  scc_of :: "nat list"
  sccs :: "scc list"

definition is_cyclic :: "scc \<Rightarrow> bool" where
  "is_cyclic s \<longleftrightarrow> 1 < length (members s)"

definition anchor :: "scc \<Rightarrow> nat" where
  "anchor s = members s ! 0"

definition build_adjacency :: "nat \<Rightarrow> (nat \<times> nat) list \<Rightarrow> nat list list" where
  "build_adjacency module_count edges =
     fold (\<lambda>(from, to) adjacency.
         if module_count \<le> from \<or> module_count \<le> to then adjacency
         else adjacency[from := adjacency ! from @ [to]])
       edges (replicate module_count [])"

definition assign_sccs :: "nat \<Rightarrow> nat list list \<Rightarrow> nat list" where
  "assign_sccs module_count comps =
     fold (\<lambda>(scc_index, component) table. fold (\<lambda>module table. table[module := scc_index]) component table)
       (enumerate 0 comps) (replicate module_count 0)"

text \<open>The cross edges in the order the two nested loops visit them.\<close>

definition cross_edges :: "nat list list \<Rightarrow> nat list \<Rightarrow> (nat \<times> nat) list" where
  "cross_edges adjacency table =
     filter (\<lambda>(from_scc, to_scc). from_scc \<noteq> to_scc)
       (concat (map (\<lambda>(from, targets). map (\<lambda>to. (table ! from, table ! to)) targets)
          (enumerate 0 adjacency)))"

text \<open>\<open>sort_unstable\<close> and \<open>dedup\<close>.\<close>

definition sort_dedup :: "nat list \<Rightarrow> nat list" where
  "sort_dedup xs = remdups_adj (sort xs)"

definition build :: "nat \<Rightarrow> (nat \<times> nat) list \<Rightarrow> module_schedule option" where
  "build module_count edges =
     (let adjacency = build_adjacency module_count edges
      in map_option (\<lambda>raw.
           let comps = sort_key (\<lambda>component. component ! 0) (map sort raw);
               table = assign_sccs module_count comps;
               cross = cross_edges adjacency table
           in \<lparr>scc_of = table,
               sccs = map (\<lambda>(scc_index, mems).
                   \<lparr>members = mems,
                    dependencies = sort_dedup (map snd (filter (\<lambda>(f, _). f = scc_index) cross)),
                    dependents = sort_dedup (map fst (filter (\<lambda>(_, t). t = scc_index) cross))\<rparr>)
                 (enumerate 0 comps)\<rparr>)
         (tarjan_scc adjacency))"

definition scc_count :: "module_schedule \<Rightarrow> nat" where
  "scc_count s = length (sccs s)"

definition largest_scc_size :: "module_schedule \<Rightarrow> nat" where
  "largest_scc_size s = fold max (map (\<lambda>c. length (members c)) (sccs s)) 0"

section \<open>The commit order\<close>

text \<open>\<open>remaining[dependent] -= 1\<close>, which underflows (\<open>None\<close>) at zero, and the release of the
  dependent.\<close>

fun release_dependents :: "nat list \<Rightarrow> nat list \<Rightarrow> nat list \<Rightarrow> (nat list \<times> nat list) option" where
  "release_dependents [] remaining ready = Some (remaining, ready)"
| "release_dependents (dependent # ds) remaining ready =
     (if length remaining \<le> dependent \<or> remaining ! dependent = 0 then None
      else let remaining' = remaining[dependent := remaining ! dependent - 1]
           in release_dependents ds remaining'
                (if remaining' ! dependent = 0 then insort dependent ready else ready))"

partial_function (option) kahn_loop ::
    "scc list \<Rightarrow> nat list \<Rightarrow> nat list \<Rightarrow> nat list \<Rightarrow> nat list option" where
  "kahn_loop cs remaining ready order =
     (case ready of
        [] \<Rightarrow> Some order
      | scc_index # ready' \<Rightarrow>
          Option.bind (release_dependents (dependents (cs ! scc_index)) remaining ready')
            (\<lambda>(remaining', ready''). kahn_loop cs remaining' ready'' (order @ [scc_index])))"

declare kahn_loop.simps [code]

definition commit_order :: "module_schedule \<Rightarrow> nat list option" where
  "commit_order s =
     kahn_loop (sccs s) (map (\<lambda>c. length (dependencies c)) (sccs s))
       (filter (\<lambda>i. dependencies (sccs s ! i) = []) [0..<length (sccs s)]) []"

end
