(* ===== verification/Tarjan.thy ===== *)
theory Tarjan
  imports Schedule
begin

text \<open>
  Correctness of the iterative Tarjan algorithm of \<open>Schedule\<close>: it ends without a panic on every
  graph whose edges stay in range, and its components are the strongly connected components of the
  graph, each node in one of them, in an order in which no edge leads to a later component.

  The invariant speaks of the entered part \<open>W\<close> of the work stack; \<open>F\<close> holds the node that was just
  pushed and is not yet entered. It is split by subject: the shape of the stacks and indices, the
  edges explored, the components closed, the reachability on the component stack, the low links.
\<close>

section \<open>Graphs\<close>

definition edge :: "nat list list \<Rightarrow> nat \<Rightarrow> nat \<Rightarrow> bool" where
  "edge adj u v \<longleftrightarrow> u < length adj \<and> v \<in> set (adj ! u)"

abbreviation reach :: "nat list list \<Rightarrow> nat \<Rightarrow> nat \<Rightarrow> bool" where
  "reach adj \<equiv> (edge adj)\<^sup>*\<^sup>*"

definition graph_ok :: "nat list list \<Rightarrow> bool" where
  "graph_ok adj \<longleftrightarrow> (\<forall>targets \<in> set adj. \<forall>v \<in> set targets. v < length adj)"

lemma graph_ok_edge: "graph_ok adj \<Longrightarrow> edge adj u v \<Longrightarrow> v < length adj"
  by (auto simp: graph_ok_def edge_def)

lemma reach_closed:
  assumes "reach adj u v" "u \<in> A" "\<And>x y. x \<in> A \<Longrightarrow> edge adj x y \<Longrightarrow> y \<in> A"
  shows "v \<in> A"
  using assms by (induction rule: rtranclp_induct) auto

section \<open>The invariant\<close>

definition idx :: "tarjan_state \<Rightarrow> nat \<Rightarrow> nat" where
  "idx st v = the (index_of st ! v)"

definition visited :: "tarjan_state \<Rightarrow> nat set" where
  "visited st = {v. v < length (index_of st) \<and> index_of st ! v \<noteq> None}"

abbreviation closed :: "tarjan_state \<Rightarrow> nat set" where
  "closed st \<equiv> set (concat (components st))"

abbreviation stack :: "tarjan_state \<Rightarrow> nat set" where
  "stack st \<equiv> set (component_stack st)"

definition path :: "(nat \<times> nat) list \<Rightarrow> nat set" where
  "path W = fst ` set W"

lemma path_simps [simp]: "path [] = {}" "path ((v, s) # W) = insert v (path W)"
  by (auto simp: path_def)

lemma pathI: "(w, s) \<in> set W \<Longrightarrow> w \<in> path W"
  by (force simp: path_def)

lemma path_map: "path W = set (map fst W)"
  by (simp add: path_def)

definition inv_shape :: "nat list list \<Rightarrow> (nat \<times> nat) list \<Rightarrow> tarjan_state \<Rightarrow> bool" where
  "inv_shape adj W st \<longleftrightarrow>
     length (index_of st) = length adj \<and> length (low_link st) = length adj
     \<and> length (on_stack st) = length adj
     \<and> (\<forall>v < length adj. on_stack st ! v \<longleftrightarrow> v \<in> stack st)
     \<and> visited st = stack st \<union> closed st \<and> stack st \<inter> closed st = {}
     \<and> (\<forall>v \<in> visited st. idx st v < next_index st)
     \<and> sorted_wrt (\<lambda>a b. idx st b < idx st a) (component_stack st)
     \<and> sorted_wrt (\<lambda>a b. idx st b < idx st a) (map fst W)
     \<and> path W \<subseteq> stack st"

definition inv_explored :: "nat list list \<Rightarrow> nat set \<Rightarrow> (nat \<times> nat) list \<Rightarrow> tarjan_state \<Rightarrow> bool" where
  "inv_explored adj F W st \<longleftrightarrow>
     (\<forall>(w, s) \<in> set W. s \<le> length (adj ! w) \<and> (\<forall>j < s. adj ! w ! j \<in> visited st \<union> F))
     \<and> (\<forall>v \<in> visited st - path W. set (adj ! v) \<subseteq> visited st)"

definition inv_closed :: "nat list list \<Rightarrow> tarjan_state \<Rightarrow> bool" where
  "inv_closed adj st \<longleftrightarrow>
     distinct (concat (components st))
     \<and> (\<forall>C \<in> set (components st). C \<noteq> [] \<and> (\<forall>u \<in> set C. set C = {v. reach adj u v \<and> reach adj v u}))
     \<and> (\<forall>i < length (components st). \<forall>u \<in> set (components st ! i). \<forall>v. edge adj u v \<longrightarrow>
          v \<in> set (concat (take (Suc i) (components st))))"

definition inv_reach :: "nat list list \<Rightarrow> (nat \<times> nat) list \<Rightarrow> tarjan_state \<Rightarrow> bool" where
  "inv_reach adj W st \<longleftrightarrow>
     (\<forall>u \<in> stack st. \<forall>v \<in> stack st. idx st u \<le> idx st v \<longrightarrow> reach adj u v)
     \<and> (\<forall>v \<in> stack st. \<exists>w \<in> path W. idx st w \<le> idx st v \<and> reach adj v w)"

definition owner :: "tarjan_state \<Rightarrow> (nat \<times> nat) list \<Rightarrow> nat \<Rightarrow> nat \<Rightarrow> bool" where
  "owner st W w x \<longleftrightarrow> w \<in> path W \<and> idx st w \<le> idx st x
     \<and> (\<forall>w' \<in> path W. idx st w' \<le> idx st x \<longrightarrow> idx st w' \<le> idx st w)"

definition inv_low :: "nat list list \<Rightarrow> (nat \<times> nat) list \<Rightarrow> tarjan_state \<Rightarrow> bool" where
  "inv_low adj W st \<longleftrightarrow>
     (\<forall>w \<in> path W. low_link st ! w \<le> idx st w
        \<and> (\<exists>u \<in> stack st. idx st u = low_link st ! w \<and> reach adj w u))
     \<and> (\<forall>(w, s) \<in> set W. \<forall>j < s. adj ! w ! j \<in> stack st \<longrightarrow> low_link st ! w \<le> idx st (adj ! w ! j))
     \<and> (\<forall>w. \<forall>x \<in> stack st - path W. owner st W w x \<longrightarrow>
          (\<forall>y \<in> set (adj ! x) \<inter> stack st. low_link st ! w \<le> idx st y))"

definition scc_inv :: "nat list list \<Rightarrow> nat set \<Rightarrow> (nat \<times> nat) list \<Rightarrow> tarjan_state \<Rightarrow> bool" where
  "scc_inv adj F W st \<longleftrightarrow> inv_shape adj W st \<and> inv_explored adj F W st \<and> inv_closed adj st
     \<and> inv_reach adj W st \<and> inv_low adj W st"

text \<open>The invariant between two iterations.\<close>

definition ready_inv :: "nat list list \<Rightarrow> tarjan_state \<Rightarrow> bool" where
  "ready_inv adj st \<longleftrightarrow>
     (case work st of
        [] \<Rightarrow> scc_inv adj {} [] st
      | (v, Suc s) # rest \<Rightarrow> scc_inv adj {} (work st) st
      | (v, 0) # rest \<Rightarrow> scc_inv adj {v} rest st \<and> v < length adj \<and> v \<notin> visited st
          \<and> (rest = [] \<or> edge adj (fst (hd rest)) v))"

section \<open>Facts of the shape\<close>

lemma sorted_desc_inj: "sorted_wrt (\<lambda>a b. f b < (f a :: nat)) xs \<Longrightarrow> inj_on f (set xs)"
  by (induction xs) fastforce+

lemma sorted_desc_distinct: "sorted_wrt (\<lambda>a b. f b < (f a :: nat)) xs \<Longrightarrow> distinct xs"
  by (induction xs) auto

lemma idx_inj_stack:
  assumes "inv_shape adj W st" "u \<in> stack st" "v \<in> stack st" "idx st u = idx st v"
  shows "u = v"
  using sorted_desc_inj[of "idx st" "component_stack st"] assms by (simp add: inv_shape_def inj_on_def)

lemma path_top_greatest:
  assumes "inv_shape adj ((v, s) # W) st" "w \<in> path ((v, s) # W)"
  shows "idx st w \<le> idx st v"
  using assms by (auto simp: inv_shape_def path_map less_imp_le)

lemma path_top_notin: "inv_shape adj ((v, s) # W) st \<Longrightarrow> v \<notin> path W"
  by (auto simp: inv_shape_def path_map)

lemma inv_shape_low: "length (low_link st) = length adj \<Longrightarrow>
    inv_shape adj W (st\<lparr>low_link := (low_link st)[v := k]\<rparr>) = inv_shape adj W st"
  by (simp add: inv_shape_def visited_def idx_def)

lemma field_updates [simp]:
  "idx (st\<lparr>work := w\<rparr>) = idx st" "visited (st\<lparr>work := w\<rparr>) = visited st"
  "idx (st\<lparr>low_link := l\<rparr>) = idx st" "visited (st\<lparr>low_link := l\<rparr>) = visited st"
  "idx (st\<lparr>component_stack := cs, on_stack := os, components := c\<rparr>) = idx st"
  "visited (st\<lparr>component_stack := cs, on_stack := os, components := c\<rparr>) = visited st"
  by (auto simp: fun_eq_iff idx_def visited_def)

lemma inv_work [simp]: "scc_inv adj F W (st\<lparr>work := w\<rparr>) = scc_inv adj F W st"
  by (simp add: scc_inv_def inv_shape_def inv_explored_def inv_closed_def inv_reach_def inv_low_def owner_def)

lemma visited_start [simp]: "visited (tarjan_start n) = {}"
  by (auto simp: visited_def tarjan_start_def)

lemma inv_start: "scc_inv adj {} [] (tarjan_start (length adj))"
  by (simp add: scc_inv_def inv_shape_def inv_explored_def inv_closed_def inv_reach_def inv_low_def)
    (simp add: tarjan_start_def)


section \<open>Entering a node\<close>

lemma enter_simps:
  assumes "v < length (index_of st)"
  shows "idx (enter_node v st) = (idx st)(v := next_index st)"
    and "visited (enter_node v st) = insert v (visited st)"
    and "stack (enter_node v st) = insert v (stack st)"
    and "components (enter_node v st) = components st"
  using assms by (auto simp: enter_node_def fun_eq_iff idx_def visited_def nth_list_update)

lemma enter_shape:
  assumes "inv_shape adj W st" "v < length adj" "v \<notin> visited st"
  shows "inv_shape adj ((v, 0) # W) (enter_node v st)"
proof -
  have len: "v < length (index_of st)" using assms by (simp add: inv_shape_def)
  have new: "v \<notin> stack st" "v \<notin> path W" "v \<notin> closed st" using assms by (auto simp: inv_shape_def)
  have old: "\<And>u. u \<in> stack st \<Longrightarrow> idx st u < next_index st" "\<And>u. u \<in> closed st \<Longrightarrow> idx st u < next_index st"
    using assms(1) by (auto simp: inv_shape_def)
  have S: "sorted_wrt (\<lambda>a b. idx (enter_node v st) b < idx (enter_node v st) a) (component_stack st)"
    using assms(1) new(1)
    by (auto simp: inv_shape_def enter_simps(1)[OF len] elim!: sorted_wrt_mono_rel[rotated])
  have P: "sorted_wrt (\<lambda>a b. idx (enter_node v st) b < idx (enter_node v st) a) (map fst W)"
    using assms(1) new(2) unfolding path_map
    by (auto simp: inv_shape_def enter_simps(1)[OF len] simp del: set_map elim!: sorted_wrt_mono_rel[rotated])
  show ?thesis using assms(1,2) S P new old
    unfolding inv_shape_def enter_simps[OF len]
    by (auto simp: enter_node_def nth_list_update less_Suc_eq path_map)
qed

lemma enter_explored:
  assumes "inv_explored adj {v} W st" "inv_shape adj W st" "v < length adj"
  shows "inv_explored adj {} ((v, 0) # W) (enter_node v st)"
  using assms by (auto simp: inv_explored_def inv_shape_def enter_simps)

lemma enter_closed: "inv_closed adj st \<Longrightarrow> inv_closed adj (enter_node v st)"
  by (simp add: inv_closed_def enter_node_def)

lemma inv_reach_path:
  assumes "inv_reach adj W st" "v \<in> stack st"
  obtains w where "w \<in> path W" "idx st w \<le> idx st v" "reach adj v w"
proof -
  have "\<exists>w \<in> path W. idx st w \<le> idx st v \<and> reach adj v w" using assms by (simp add: inv_reach_def)
  then show thesis by (elim bexE conjE) (rule that)
qed

lemma inv_reach_up:
  assumes "inv_reach adj W st" "u \<in> stack st" "v \<in> stack st" "idx st u \<le> idx st v"
  shows "reach adj u v"
  using assms by (simp add: inv_reach_def)

lemma enter_reach:
  assumes "inv_reach adj W st" and shape: "inv_shape adj W st" and "v < length adj" "v \<notin> visited st"
    and e: "W = [] \<or> edge adj (fst (hd W)) v"
  shows "inv_reach adj ((v, 0) # W) (enter_node v st)"
proof -
  have len: "v < length (index_of st)" using assms by (simp add: inv_shape_def)
  have new: "v \<notin> stack st" using assms by (auto simp: inv_shape_def)
  have old: "\<And>u. u \<in> stack st \<Longrightarrow> idx st u < next_index st" using shape by (auto simp: inv_shape_def)
  have sub: "path W \<subseteq> stack st" using shape unfolding inv_shape_def by blast
  have "reach adj u v" if u: "u \<in> stack st" for u
  proof -
    obtain w where w: "w \<in> path W" "reach adj u w" by (rule inv_reach_path[OF assms(1) u])
    then obtain t s W' where W: "W = (t, s) # W'" by (cases W) auto
    have "idx st w \<le> idx st t" using path_top_greatest shape w(1) W by blast
    then have "reach adj w t" using inv_reach_up[OF assms(1)] w(1) sub W by auto
    with w(2) have "reach adj u t" by (rule rtranclp_trans)
    moreover have "edge adj t v" using e W by simp
    ultimately show ?thesis by (rule rtranclp.rtrancl_into_rtrancl)
  qed
  then have R: "reach adj u v" if "u \<in> insert v (stack st)" for u using that by auto
  have A: "reach adj a b" if ab: "a \<in> insert v (stack st)" "b \<in> insert v (stack st)"
      "((idx st)(v := next_index st)) a \<le> ((idx st)(v := next_index st)) b" for a b
  proof (cases "b = v")
    case True
    then show ?thesis using R ab(1) by simp
  next
    case False
    then have "a \<noteq> v" using ab old[of b] by auto
    then show ?thesis using False ab assms(1) by (simp add: inv_reach_def)
  qed
  have B: "\<exists>w \<in> insert v (path W). ((idx st)(v := next_index st)) w \<le> ((idx st)(v := next_index st)) a \<and> reach adj a w"
    if a: "a \<in> insert v (stack st)" for a
  proof (cases "a = v")
    case False
    then have "a \<in> stack st" using a by simp
    then obtain w where "w \<in> path W" "idx st w \<le> idx st a" "reach adj a w" by (rule inv_reach_path[OF assms(1)])
    then show ?thesis using False new sub by (intro bexI[of _ w]) auto
  qed auto
  show ?thesis using A B unfolding inv_reach_def enter_simps[OF len] by simp
qed

lemma enter_low:
  assumes "inv_low adj W st" and shape: "inv_shape adj W st" and "inv_explored adj {v} W st"
    and "v < length adj" "v \<notin> visited st"
  shows "inv_low adj ((v, 0) # W) (enter_node v st)"
proof -
  have len: "v < length (index_of st)" "v < length (low_link st)" using assms by (auto simp: inv_shape_def)
  have new: "v \<notin> stack st" "v \<notin> path W" using assms by (auto simp: inv_shape_def)
  have old: "\<And>u. u \<in> stack st \<Longrightarrow> idx st u < next_index st" using shape by (auto simp: inv_shape_def)
  have sub: "path W \<subseteq> stack st" using shape unfolding inv_shape_def by blast
  have low: "low_link (enter_node v st) = (low_link st)[v := next_index st]" by (simp add: enter_node_def)
  have own: "owner (enter_node v st) ((v, 0) # W) w x \<longleftrightarrow> owner st W w x" if "x \<in> stack st" for w x
    using that new old[OF that] sub by (auto simp: owner_def enter_simps[OF len(1)])
  have adj: "v \<notin> set (adj ! x)" if "x \<in> stack st - path W" for x
    using assms(3,5) shape that by (fastforce simp: inv_explored_def inv_shape_def)
  have A: "\<forall>w \<in> path ((v, 0) # W). low_link (enter_node v st) ! w \<le> idx (enter_node v st) w
        \<and> (\<exists>u \<in> stack (enter_node v st). idx (enter_node v st) u = low_link (enter_node v st) ! w \<and> reach adj w u)"
  proof (intro ballI)
    fix w assume w: "w \<in> path ((v, 0) # W)"
    show "low_link (enter_node v st) ! w \<le> idx (enter_node v st) w
        \<and> (\<exists>u \<in> stack (enter_node v st). idx (enter_node v st) u = low_link (enter_node v st) ! w \<and> reach adj w u)"
    proof (cases "w = v")
      case True
      then show ?thesis using len by (auto simp: low enter_simps[OF len(1)])
    next
      case False
      then have "w \<in> path W" using w by auto
      then obtain u where "u \<in> stack st" "idx st u = low_link st ! w" "reach adj w u" "low_link st ! w \<le> idx st w"
        using assms(1) by (auto simp: inv_low_def)
      then show ?thesis using False new by (auto simp: low enter_simps[OF len(1)] intro!: exI[of _ u])
    qed
  qed
  have B: "\<forall>(w, s) \<in> set ((v, 0) # W). \<forall>j < s. adj ! w ! j \<in> stack (enter_node v st) \<longrightarrow>
      low_link (enter_node v st) ! w \<le> idx (enter_node v st) (adj ! w ! j)"
  proof (clarify)
    fix w s j assume ws: "(w, s) \<in> set ((v, 0) # W)" "j < s" "adj ! w ! j \<in> stack (enter_node v st)"
    then have W: "(w, s) \<in> set W" by auto
    then have "w \<noteq> v" "w \<in> stack st" using new sub pathI by blast+
    moreover have "low_link st ! w \<le> idx st w" using assms(1) pathI[OF W] by (simp add: inv_low_def)
    moreover have "adj ! w ! j \<in> stack st \<Longrightarrow> low_link st ! w \<le> idx st (adj ! w ! j)"
      using assms(1) W ws(2) by (auto simp: inv_low_def)
    ultimately show "low_link (enter_node v st) ! w \<le> idx (enter_node v st) (adj ! w ! j)"
      using ws(3) old[of w] by (auto simp: low enter_simps[OF len(1)])
  qed
  have C: "low_link (enter_node v st) ! w \<le> idx (enter_node v st) y"
    if "x \<in> stack st - path W" "owner st W w x" "y \<in> set (adj ! x)" "y \<in> insert v (stack st)" for w x y
  proof -
    have "y \<noteq> v" "w \<noteq> v" using adj[OF that(1)] that new by (auto simp: owner_def)
    then show ?thesis using assms(1) that by (auto simp: inv_low_def low enter_simps[OF len(1)])
  qed
  have D: "\<forall>w. \<forall>x \<in> stack (enter_node v st) - path ((v, 0) # W). owner (enter_node v st) ((v, 0) # W) w x \<longrightarrow>
      (\<forall>y \<in> set (adj ! x) \<inter> stack (enter_node v st). low_link (enter_node v st) ! w \<le> idx (enter_node v st) y)"
    using C unfolding enter_simps(3)[OF len(1)] by (auto simp: own)
  from A B D show ?thesis unfolding inv_low_def by blast
qed

section \<open>Following an edge\<close>

lemma advance_shape: "inv_shape adj ((v, s') # W) st = inv_shape adj ((v, s) # W) st"
  by (simp add: inv_shape_def)

lemma advance_reach: "inv_reach adj ((v, s') # W) st = inv_reach adj ((v, s) # W) st"
  by (simp add: inv_reach_def)

lemma advance_owner: "owner st ((v, s') # W) = owner st ((v, s) # W)"
  by (simp add: owner_def fun_eq_iff)

lemma advance_explored:
  assumes "inv_explored adj {} ((v, s) # W) st" "s < length (adj ! v)" "adj ! v ! s \<in> visited st \<union> F"
  shows "inv_explored adj F ((v, Suc s) # W) st"
  using assms by (fastforce simp: inv_explored_def less_Suc_eq)

lemma advance_low:
  assumes "inv_low adj ((v, s) # W) st"
    "adj ! v ! s \<in> stack st \<Longrightarrow> low_link st ! v \<le> idx st (adj ! v ! s)"
  shows "inv_low adj ((v, Suc s) # W) st"
  using assms by (simp add: inv_low_def advance_owner[of st v "Suc s" W s] less_Suc_eq)

lemma follow_inv:
  assumes "scc_inv adj {} ((v, s) # W) st" "s < length (adj ! v)" "adj ! v ! s \<in> visited st \<union> F"
    "adj ! v ! s \<in> stack st \<Longrightarrow> low_link st ! v \<le> idx st (adj ! v ! s)"
  shows "scc_inv adj F ((v, Suc s) # W) st"
  using assms advance_shape[of adj v "Suc s" W st s] advance_reach[of adj v "Suc s" W st s]
    advance_explored[of adj v s W st F] advance_low[of adj v s W st]
  by (simp add: scc_inv_def)

lemma inv_lowI:
  assumes "\<And>w. w \<in> path W \<Longrightarrow> low_link st ! w \<le> idx st w
      \<and> (\<exists>u \<in> stack st. idx st u = low_link st ! w \<and> reach adj w u)"
    and "\<And>w s j. (w, s) \<in> set W \<Longrightarrow> j < s \<Longrightarrow> adj ! w ! j \<in> stack st \<Longrightarrow>
      low_link st ! w \<le> idx st (adj ! w ! j)"
    and "\<And>w x y. x \<in> stack st \<Longrightarrow> x \<notin> path W \<Longrightarrow> owner st W w x \<Longrightarrow> y \<in> set (adj ! x) \<Longrightarrow>
      y \<in> stack st \<Longrightarrow> low_link st ! w \<le> idx st y"
  shows "inv_low adj W st"
  unfolding inv_low_def using assms by (intro conjI ballI allI impI; clarsimp)

lemma inv_lowD:
  assumes "inv_low adj W st"
  shows "w \<in> path W \<Longrightarrow> low_link st ! w \<le> idx st w"
    and "w \<in> path W \<Longrightarrow> \<exists>u \<in> stack st. idx st u = low_link st ! w \<and> reach adj w u"
    and "(w, s) \<in> set W \<Longrightarrow> j < s \<Longrightarrow> adj ! w ! j \<in> stack st \<Longrightarrow> low_link st ! w \<le> idx st (adj ! w ! j)"
    and "x \<in> stack st \<Longrightarrow> x \<notin> path W \<Longrightarrow> owner st W w x \<Longrightarrow> y \<in> set (adj ! x) \<Longrightarrow>
      y \<in> stack st \<Longrightarrow> low_link st ! w \<le> idx st y"
  using assms by (auto simp: inv_low_def simp del: Union_iff)

text \<open>Lowering the low link of the top of the path to the index of a stack node it reaches.\<close>

lemma lower_low:
  assumes low: "inv_low adj W st" and shape: "inv_shape adj W st" and v: "v \<in> path W"
    and u: "u \<in> stack st" "idx st u = k" "reach adj v u"
  shows "inv_low adj W (st\<lparr>low_link := (low_link st)[v := min (low_link st ! v) k]\<rparr>)"
proof -
  let ?l = "(low_link st)[v := min (low_link st ! v) k]"
  have le: "?l ! w \<le> low_link st ! w" for w by (cases "v < length (low_link st)") (auto simp: nth_list_update list_update_beyond)
  have len: "v < length (low_link st)"
    using v shape by (auto simp: inv_shape_def visited_def)
  have A: "?l ! w \<le> idx st w \<and> (\<exists>u \<in> stack st. idx st u = ?l ! w \<and> reach adj w u)" if w: "w \<in> path W" for w
  proof -
    have old: "low_link st ! w \<le> idx st w" "\<exists>u \<in> stack st. idx st u = low_link st ! w \<and> reach adj w u"
      using low w by (simp_all add: inv_low_def)
    show ?thesis
    proof (cases "w = v \<and> k < low_link st ! v")
      case True
      then show ?thesis using old(1) u len by auto
    next
      case False
      then have "?l ! w = low_link st ! w" using len by (auto simp: nth_list_update)
      then show ?thesis using old by simp
    qed
  qed
  have own: "owner (st\<lparr>low_link := ?l\<rparr>) W = owner st W" by (simp add: owner_def fun_eq_iff)
  show ?thesis
    by (rule inv_lowI, unfold own)
      (simp_all add: A inv_lowD(3)[OF low, THEN le_trans[OF le]] inv_lowD(4)[OF low, THEN le_trans[OF le]])
qed

lemma lower_inv:
  assumes "scc_inv adj F W st" "v \<in> path W" "u \<in> stack st" "idx st u = k" "reach adj v u"
  shows "scc_inv adj F W (st\<lparr>low_link := (low_link st)[v := min (low_link st ! v) k]\<rparr>)"
proof -
  have len: "length (low_link st) = length adj" using assms(1) by (simp add: scc_inv_def inv_shape_def)
  show ?thesis using assms lower_low[of adj W st v u k]
    by (simp add: scc_inv_def inv_shape_low[OF len]) (simp add: inv_explored_def inv_closed_def inv_reach_def)
qed

section \<open>Leaving a node\<close>

text \<open>A node whose low link is below its index stays on the component stack; its part of the stack
  passes to the parent.\<close>

lemma below_in_path:
  assumes "scc_inv adj F ((v, s) # W) st" "x \<in> stack st" "idx st x < idx st v"
  obtains w where "w \<in> path W" "idx st w \<le> idx st x" "reach adj x w"
proof -
  have "inv_reach adj ((v, s) # W) st" using assms(1) by (simp add: scc_inv_def)
  then obtain w where w: "w \<in> path ((v, s) # W)" "idx st w \<le> idx st x" "reach adj x w"
    using assms(2) by (rule inv_reach_path)
  then have "w \<in> path W" using assms(3) by auto
  then show thesis using w(2,3) by (rule that)
qed

lemma leave_shape: "inv_shape adj ((v, s) # W) st \<Longrightarrow> inv_shape adj W st"
  by (auto simp: inv_shape_def)

lemma leave_explored:
  assumes "inv_explored adj {} ((v, s) # W) st" "length (adj ! v) \<le> s"
  shows "inv_explored adj {} W st"
proof -
  have "set (adj ! v) \<subseteq> visited st" using assms by (auto simp: inv_explored_def in_set_conv_nth)
  then show ?thesis using assms(1) by (auto simp: inv_explored_def)
qed

lemma leave_reach:
  assumes inv: "scc_inv adj {} ((v, s) # W) st" and low: "low_link st ! v < idx st v"
  shows "inv_reach adj W st"
proof -
  have parts: "inv_reach adj ((v, s) # W) st" "inv_low adj ((v, s) # W) st" "inv_shape adj ((v, s) # W) st"
    using inv by (simp_all add: scc_inv_def)
  obtain u where u: "u \<in> stack st" "idx st u = low_link st ! v" "reach adj v u"
    using inv_lowD(2)[OF parts(2), of v] by auto
  obtain t where t: "t \<in> path W" "idx st t \<le> idx st u" "reach adj u t"
    using below_in_path[OF inv u(1)] u(2) low by auto
  have "\<exists>w \<in> path W. idx st w \<le> idx st x \<and> reach adj x w" if x: "x \<in> stack st" for x
  proof -
    obtain w where w: "w \<in> path ((v, s) # W)" "idx st w \<le> idx st x" "reach adj x w"
      by (rule inv_reach_path[OF parts(1) x])
    show ?thesis
    proof (cases "w = v")
      case True
      then have "reach adj x t" using w(3) u(3) t(3) by (meson rtranclp_trans)
      then show ?thesis using True w(2) t(1,2) u(2) low by (intro bexI[of _ t]) auto
    next
      case False
      then show ?thesis using w by (intro bexI[of _ w]) auto
    qed
  qed
  then show ?thesis using parts(1) by (simp add: inv_reach_def)
qed

lemma leave_low:
  assumes inv: "scc_inv adj {} ((v, s) # (p, q) # W) st" and s: "length (adj ! v) \<le> s"
    and low: "low_link st ! p \<le> low_link st ! v"
  shows "inv_low adj ((p, q) # W) st"
proof (rule inv_lowI)
  have parts: "inv_low adj ((v, s) # (p, q) # W) st" "inv_shape adj ((v, s) # (p, q) # W) st"
    using inv by (simp_all add: scc_inv_def)
  note lowD = inv_lowD[OF parts(1)]
  show "low_link st ! w \<le> idx st w \<and> (\<exists>u \<in> stack st. idx st u = low_link st ! w \<and> reach adj w u)"
    if "w \<in> path ((p, q) # W)" for w using lowD(1,2)[of w] that by auto
  show "low_link st ! w \<le> idx st (adj ! w ! j)"
    if "(w, r) \<in> set ((p, q) # W)" "j < r" "adj ! w ! j \<in> stack st" for w r j
    using lowD(3)[of w r j] that by auto
  fix w x y
  assume x: "x \<in> stack st" "x \<notin> path ((p, q) # W)" and own: "owner st ((p, q) # W) w x"
    and y: "y \<in> set (adj ! x)" "y \<in> stack st"
  have pv: "idx st p < idx st v" using parts(2) by (simp add: inv_shape_def)
  have wp: "idx st w \<le> idx st p" "w \<in> stack st" "p \<in> stack st"
    using own path_top_greatest[OF leave_shape[OF parts(2)], of w] parts(2) by (auto simp: owner_def inv_shape_def)
  show "low_link st ! w \<le> idx st y"
  proof (cases "idx st v \<le> idx st x")
    case True
    then have "w = p" using own pv wp idx_inj_stack[OF parts(2), of w p] by (auto simp: owner_def)
    moreover have "low_link st ! v \<le> idx st y"
    proof (cases "x = v")
      case True
      then obtain j where "j < length (adj ! v)" "y = adj ! v ! j" using y(1) by (auto simp: in_set_conv_nth)
      then have "j < s" "y = adj ! v ! j" using s by auto
      then show ?thesis using lowD(3)[of v s j] y(2) by simp
    next
      case False
      have "owner st ((v, s) # (p, q) # W) v x"
        using True path_top_greatest[OF parts(2)] by (simp add: owner_def)
      then show ?thesis using lowD(4)[of x v y] x y False by simp
    qed
    ultimately show ?thesis using low by simp
  next
    case False
    then have "owner st ((v, s) # (p, q) # W) w x" using own by (auto simp: owner_def)
    then show ?thesis using lowD(4)[of x w y] x y False by auto
  qed
qed

lemma leave_inv:
  assumes inv: "scc_inv adj {} ((v, s) # W) st" and s: "length (adj ! v) \<le> s" and low: "low_link st ! v < idx st v"
  shows "scc_inv adj {} W (return_to_parent v W st)"
proof -
  have parts: "inv_reach adj ((v, s) # W) st" "inv_low adj ((v, s) # W) st" "inv_shape adj ((v, s) # W) st"
    using inv by (simp_all add: scc_inv_def)
  obtain u where u: "u \<in> stack st" "idx st u = low_link st ! v" "reach adj v u"
    using inv_lowD(2)[OF parts(2), of v] by auto
  obtain t where "t \<in> path W" using below_in_path[OF inv u(1)] u(2) low by auto
  then obtain p q W' where W: "W = (p, q) # W'" by (cases W) auto
  let ?st = "st\<lparr>low_link := (low_link st)[p := min (low_link st ! p) (low_link st ! v)]\<rparr>"
  have sub: "v \<in> stack st" "p \<in> stack st" "idx st p < idx st v" "p < length (low_link st)"
    using parts(3) W by (auto simp: inv_shape_def visited_def)
  then have "reach adj p u" using inv_reach_up[OF parts(1), of p v] u(3) by auto
  then have inv': "scc_inv adj {} ((v, s) # W) ?st" using lower_inv[OF inv _ u(1,2), of p] W by simp
  have le: "low_link ?st ! p \<le> low_link ?st ! v" "low_link ?st ! v < idx ?st v" using sub low by (auto simp: nth_list_update)
  have "scc_inv adj {} W ?st"
    using inv' leave_shape[of adj v s W ?st] leave_explored[of adj v s W ?st] s
      leave_reach[OF inv' le(2)] leave_low[of adj v s p q W' ?st] le(1) W
    by (simp add: scc_inv_def)
  moreover have "return_to_parent v W st = ?st\<lparr>work := W\<rparr>" using W by (simp add: return_to_parent_def)
  ultimately show ?thesis by simp
qed

section \<open>Closing a component\<close>

definition unset_all :: "nat list \<Rightarrow> bool list \<Rightarrow> bool list" where
  "unset_all C on_st = fold (\<lambda>m b. b[m := False]) C on_st"

lemma unset_all_simps [simp]:
  "unset_all [] on_st = on_st" "unset_all (m # C) on_st = unset_all C (on_st[m := False])"
  "length (unset_all C on_st) = length on_st"
  by (simp_all add: unset_all_def) (induction C arbitrary: on_st, auto)

lemma unset_all_nth: "v < length on_st \<Longrightarrow> unset_all C on_st ! v \<longleftrightarrow> on_st ! v \<and> v \<notin> set C"
proof (induction C arbitrary: on_st)
  case (Cons m C)
  then show ?case by (cases "m = v") (auto simp: nth_list_update)
qed simp

lemma pop_component_split:
  assumes "v \<notin> set C"
  shows "pop_component v (C @ v # S) on_st acc = Some (acc @ C @ [v], S, unset_all (C @ [v]) on_st)"
  using assms by (induction C arbitrary: on_st acc) auto

text \<open>A node whose low link is its index roots the component above it on the stack.\<close>

lemma stack_split:
  assumes "inv_shape adj W st" "v \<in> stack st"
  obtains C S where "component_stack st = C @ v # S" "v \<notin> set C"
    "set (C @ [v]) = {x \<in> stack st. idx st v \<le> idx st x}" "set S = {x \<in> stack st. idx st x < idx st v}"
proof -
  obtain C S where CS: "component_stack st = C @ v # S" "v \<notin> set C" using assms(2) by (auto dest: split_list_first)
  have "sorted_wrt (\<lambda>a b. idx st b < idx st a) (C @ v # S)" using assms(1) CS(1) by (simp add: inv_shape_def)
  then have "set (C @ [v]) = {x \<in> stack st. idx st v \<le> idx st x}" "set S = {x \<in> stack st. idx st x < idx st v}"
    by (auto simp: CS(1) sorted_wrt_append not_less less_imp_le)
  then show thesis using that CS by blast
qed

lemma root_edges:
  assumes inv: "scc_inv adj {} ((v, s) # W) st" and s: "length (adj ! v) \<le> s" and low: "low_link st ! v = idx st v"
    and x: "x \<in> stack st" "idx st v \<le> idx st x" and e: "edge adj x y"
  shows "y \<in> closed st \<or> y \<in> stack st \<and> idx st v \<le> idx st y"
proof -
  have parts: "inv_low adj ((v, s) # W) st" "inv_shape adj ((v, s) # W) st" "inv_explored adj {} ((v, s) # W) st"
    using inv by (simp_all add: scc_inv_def)
  have xp: "x = v \<or> x \<notin> path ((v, s) # W)"
    using path_top_greatest[OF parts(2), of x] x idx_inj_stack[OF parts(2), of x v] parts(2)
    by (auto simp: inv_shape_def)
  have "y \<in> visited st"
  proof (cases "x = v")
    case True
    then have "set (adj ! x) \<subseteq> visited st"
      using leave_explored[OF parts(3) s] path_top_notin[OF parts(2)] x(1) parts(2)
      by (auto simp: inv_explored_def inv_shape_def)
    then show ?thesis using e by (auto simp: edge_def)
  next
    case False
    then have "x \<in> visited st - path ((v, s) # W)" using xp parts(2) x(1) by (simp add: inv_shape_def)
    then have "set (adj ! x) \<subseteq> visited st" using parts(3) unfolding inv_explored_def by blast
    then show ?thesis using e by (auto simp: edge_def)
  qed
  moreover have "idx st v \<le> idx st y" if y: "y \<in> stack st"
  proof (cases "x = v")
    case True
    then obtain j where "j < length (adj ! v)" "y = adj ! v ! j" using e by (auto simp: edge_def in_set_conv_nth)
    then show ?thesis using inv_lowD(3)[OF parts(1), of v s j] s y low by simp
  next
    case False
    have "owner st ((v, s) # W) v x" using x path_top_greatest[OF parts(2)] by (simp add: owner_def)
    then show ?thesis using inv_lowD(4)[OF parts(1), of x v y] xp x False e y low by (auto simp: edge_def)
  qed
  ultimately show ?thesis using parts(2) by (auto simp: inv_shape_def)
qed

lemma closed_edges:
  assumes "inv_closed adj st" "x \<in> closed st" "edge adj x y"
  shows "y \<in> closed st"
proof -
  obtain i where "i < length (components st)" "x \<in> set (components st ! i)"
    using assms(2) in_set_conv_nth[of _ "components st"] by auto
  then have "y \<in> set (concat (take (Suc i) (components st)))" using assms(1,3) by (simp add: inv_closed_def)
  then show ?thesis by (auto dest: in_set_takeD)
qed

lemma root_component:
  assumes inv: "scc_inv adj {} ((v, s) # W) st" and s: "length (adj ! v) \<le> s" and low: "low_link st ! v = idx st v"
    and u: "u \<in> stack st" "idx st v \<le> idx st u"
  shows "{x \<in> stack st. idx st v \<le> idx st x} = {y. reach adj u y \<and> reach adj y u}"
proof -
  let ?C = "{x \<in> stack st. idx st v \<le> idx st x}"
  have parts: "inv_reach adj ((v, s) # W) st" "inv_shape adj ((v, s) # W) st" "inv_closed adj st"
    using inv by (simp_all add: scc_inv_def)
  have v: "v \<in> stack st" "path ((v, s) # W) \<subseteq> stack st" using parts(2) by (auto simp: inv_shape_def)
  have to: "reach adj x v" if x: "x \<in> stack st" for x
  proof -
    obtain w where w: "w \<in> path ((v, s) # W)" "reach adj x w" by (rule inv_reach_path[OF parts(1) x])
    have "reach adj w v"
      using inv_reach_up[OF parts(1), of w v] w(1) v path_top_greatest[OF parts(2) w(1)] by blast
    with w(2) show ?thesis by (rule rtranclp_trans)
  qed
  have from_v: "reach adj v x" if "x \<in> ?C" for x using inv_reach_up[OF parts(1), of v x] v that by simp
  have "y \<in> ?C \<union> closed st" if "reach adj u y" for y
    by (rule reach_closed[OF that]) (use u root_edges[OF inv s low] closed_edges[OF parts(3)] in \<open>blast+\<close>)
  moreover have "y \<notin> closed st" if "reach adj y u" for y
  proof
    assume "y \<in> closed st"
    then have "u \<in> closed st" by (rule reach_closed[OF that]) (rule closed_edges[OF parts(3)])
    then show False using u(1) parts(2) by (auto simp: inv_shape_def)
  qed
  moreover have "reach adj u y \<and> reach adj y u" if "y \<in> ?C" for y
    using rtranclp_trans[OF to[OF u(1)] from_v[OF that]] rtranclp_trans[OF to from_v, of y u] u that by simp
  ultimately show ?thesis by (intro equalityI subsetI CollectI) (simp_all, force+)
qed

lemma close_shape:
  assumes shape: "inv_shape adj ((v, s) # W) st" and CS: "component_stack st = C @ v # S"
    and S: "set S = {x \<in> stack st. idx st x < idx st v}"
  shows "inv_shape adj W (st\<lparr>component_stack := S, on_stack := unset_all (C @ [v]) (on_stack st),
      components := components st @ [C @ [v]]\<rparr>)"
proof -
  have sorted: "sorted_wrt (\<lambda>a b. idx st b < idx st a) (C @ v # S)" using shape CS by (simp add: inv_shape_def)
  then have "x \<notin> set S" if "x \<in> set (C @ [v])" for x
    using that by (auto simp: sorted_wrt_append)
  then have dis: "set (C @ [v]) \<inter> set S = {}" by blast
  have W: "path W \<subseteq> set S" using shape unfolding S by (auto simp: inv_shape_def path_map)
  have on: "on_stack st ! x \<longleftrightarrow> x \<in> set (C @ [v]) \<union> set S" if "x < length adj" for x
    using shape CS that by (auto simp: inv_shape_def)
  have "sorted_wrt (\<lambda>a b. idx st b < idx st a) S" using sorted by (simp add: sorted_wrt_append)
  then show ?thesis using shape dis W unfolding inv_shape_def
    by (auto simp: unset_all_nth on CS)
qed

lemma close_closed:
  assumes inv: "scc_inv adj {} ((v, s) # W) st" and s: "length (adj ! v) \<le> s" and low: "low_link st ! v = idx st v"
    and CS: "component_stack st = C @ v # S" and C: "set (C @ [v]) = {x \<in> stack st. idx st v \<le> idx st x}"
  shows "inv_closed adj (st\<lparr>component_stack := S, on_stack := on_st, components := components st @ [C @ [v]]\<rparr>)"
proof -
  have parts: "inv_closed adj st" "inv_shape adj ((v, s) # W) st" using inv by (simp_all add: scc_inv_def)
  have "sorted_wrt (\<lambda>a b. idx st b < idx st a) (C @ v # S)" using parts(2) CS by (simp add: inv_shape_def)
  then have "distinct (C @ v # S)" by (rule sorted_desc_distinct)
  then have dist: "distinct (concat (components st @ [C @ [v]]))"
    using parts CS by (auto simp: inv_closed_def inv_shape_def)
  have scc: "set (C @ [v]) = {y. reach adj u y \<and> reach adj y u}" if "u \<in> set (C @ [v])" for u
    using root_component[OF inv s low, of u] that C by blast
  have "y \<in> set (concat (components st @ [C @ [v]]))" if "u \<in> set (C @ [v])" "edge adj u y" for u y
    using root_edges[OF inv s low, of u y] that C by auto
  then have order: "\<forall>i < length (components st @ [C @ [v]]). \<forall>u \<in> set ((components st @ [C @ [v]]) ! i).
      \<forall>y. edge adj u y \<longrightarrow> y \<in> set (concat (take (Suc i) (components st @ [C @ [v]])))"
    using parts(1) by (simp add: inv_closed_def nth_append less_Suc_eq) blast
  show ?thesis using parts(1) dist scc order by (simp add: inv_closed_def)
qed

lemma close_low:
  assumes low: "inv_low adj ((v, s) # W) st" and shape: "inv_shape adj ((v, s) # W) st"
    and S: "set S = {x \<in> stack st. idx st x < idx st v}"
  shows "inv_low adj W (st\<lparr>component_stack := S, on_stack := on_st, components := cs\<rparr>)"
proof -
  let ?st = "st\<lparr>component_stack := S, on_stack := on_st, components := cs\<rparr>"
  note lowD = inv_lowD[OF low]
  have W: "path W \<subseteq> set S" using shape unfolding S by (auto simp: inv_shape_def path_map)
  have own: "owner st ((v, s) # W) w x" if "owner st W w x" "x \<in> set S" for w x
    using that S by (auto simp: owner_def)
  show ?thesis
  proof (rule inv_lowI)
    fix w assume w: "w \<in> path W"
    then obtain u where u: "u \<in> stack st" "idx st u = low_link st ! w" "reach adj w u"
      using lowD(2)[of w] by auto
    have le: "low_link st ! w \<le> idx st w" "idx st w < idx st v" using lowD(1)[of w] w W S by auto
    then have "u \<in> set S" using u(1,2) S by simp
    then show "low_link ?st ! w \<le> idx ?st w \<and> (\<exists>u \<in> stack ?st. idx ?st u = low_link ?st ! w \<and> reach adj w u)"
      using u le by auto
  next
    fix w r j assume "(w, r) \<in> set W" "j < r" "adj ! w ! j \<in> stack ?st"
    then show "low_link ?st ! w \<le> idx ?st (adj ! w ! j)" using lowD(3)[of w r j] S by simp
  next
    fix w x y assume "x \<in> stack ?st" "x \<notin> path W" "owner ?st W w x" "y \<in> set (adj ! x)" "y \<in> stack ?st"
    then show "low_link ?st ! w \<le> idx ?st y"
      using lowD(4)[of x w y] own[of w x] S by (auto simp: owner_def)
  qed
qed

lemma close_inv:
  assumes inv: "scc_inv adj {} ((v, s) # W) st" and s: "length (adj ! v) \<le> s" and low: "low_link st ! v = idx st v"
  obtains st' where "close_component v st = Some st'" "scc_inv adj {} W st'"
    "idx st' = idx st" "low_link st' = low_link st" "visited st' = visited st"
proof -
  have parts: "inv_shape adj ((v, s) # W) st" "inv_low adj ((v, s) # W) st"
      "inv_explored adj {} ((v, s) # W) st" "inv_reach adj ((v, s) # W) st"
    using inv by (simp_all add: scc_inv_def)
  have v: "v \<in> stack st" using parts(1) by (simp add: inv_shape_def)
  obtain C S where CS: "component_stack st = C @ v # S" "v \<notin> set C"
    "set (C @ [v]) = {x \<in> stack st. idx st v \<le> idx st x}" "set S = {x \<in> stack st. idx st x < idx st v}"
    by (rule stack_split[OF parts(1) v])
  let ?st = "st\<lparr>component_stack := S, on_stack := unset_all (C @ [v]) (on_stack st),
      components := components st @ [C @ [v]]\<rparr>"
  have "v \<in> visited st" using v parts(1) by (simp add: inv_shape_def)
  then have "index_of st ! v = Some (low_link st ! v)" using low by (auto simp: visited_def idx_def)
  then have "close_component v st = Some ?st"
    by (simp add: close_component_def CS(1) pop_component_split[OF CS(2)])
  moreover have "inv_reach adj W ?st"
  proof -
    have "\<exists>w \<in> path W. idx st w \<le> idx st x \<and> reach adj x w" if x: "x \<in> set S" for x
      using below_in_path[OF inv, of x] x CS(4) by auto
    then show ?thesis using parts(4) CS(4) by (simp add: inv_reach_def)
  qed
  then have "scc_inv adj {} W ?st"
    using close_shape[OF parts(1) CS(1,4)] close_closed[OF inv s low CS(1,3)] close_low[OF parts(2,1) CS(4)]
      leave_explored[OF parts(3) s]
    by (simp add: scc_inv_def inv_explored_def)
  ultimately show thesis by (rule that) simp_all
qed

section \<open>The loop\<close>

lemma return_fields [simp]:
  "visited (return_to_parent v W st) = visited st" "work (return_to_parent v W st) = W"
  by (auto simp: return_to_parent_def split: list.split prod.split)

lemma leave_node:
  assumes inv: "scc_inv adj {} ((v, s) # W) st" and s: "length (adj ! v) \<le> s"
  obtains st' where "map_option (return_to_parent v W) (close_component v st) = Some st'"
    "scc_inv adj {} W st'" "visited st' = visited st" "work st' = W"
proof (cases "low_link st ! v = idx st v")
  case True
  obtain st' where st': "close_component v st = Some st'" "scc_inv adj {} W st'"
    "idx st' = idx st" "low_link st' = low_link st" "visited st' = visited st"
    by (rule close_inv[OF inv s True])
  have "return_to_parent v W st' = st'\<lparr>work := W\<rparr>"
  proof (cases W)
    case (Cons x W')
    then obtain p q where W: "W = (p, q) # W'" by (cases x) auto
    have "idx st p < idx st v" "low_link st ! p \<le> idx st p"
      using inv W by (auto simp: scc_inv_def inv_shape_def inv_low_def)
    then have "min (low_link st' ! p) (low_link st' ! v) = low_link st' ! p" using True st' by simp
    then show ?thesis using W by (simp add: return_to_parent_def)
  qed (simp add: return_to_parent_def)
  then show thesis using that[of "st'\<lparr>work := W\<rparr>"] st' by simp
next
  case False
  have v: "low_link st ! v \<le> idx st v" "v \<in> visited st" using inv by (auto simp: scc_inv_def inv_low_def inv_shape_def)
  then have "close_component v st = Some st" using False by (auto simp: close_component_def idx_def)
  moreover have "scc_inv adj {} W (return_to_parent v W st)" using leave_inv[OF inv s] v(1) False by simp
  ultimately show thesis using that[of "return_to_parent v W st"] by simp
qed

lemma enter_inv:
  assumes "scc_inv adj {v} W st" "v < length adj" "v \<notin> visited st" "W = [] \<or> edge adj (fst (hd W)) v"
  shows "scc_inv adj {} ((v, 0) # W) (enter_node v st)"
  using assms enter_shape[of adj W st v] enter_explored[of adj v W st] enter_closed[of adj st v]
    enter_reach[of adj W st v] enter_low[of adj W st v]
  by (simp add: scc_inv_def)

text \<open>The work that is left: the edges and the return of the nodes on the work stack, and the push,
  the edges and the return of the nodes not yet pushed.\<close>

definition work_left :: "nat list list \<Rightarrow> tarjan_state \<Rightarrow> nat" where
  "work_left adj st =
     (\<Sum>v \<in> {..<length adj} - visited st - path (work st). length (adj ! v) + 2)
     + (\<Sum>(v, s) \<leftarrow> work st. length (adj ! v) + 1 - s)"

lemma follow_edge_inv:
  assumes ok: "graph_ok adj" and inv: "scc_inv adj {} ((v, s) # W) st" and s: "s < length (adj ! v)" "v < length adj"
    and w: "work st = (v, Suc s) # W"
  obtains st' where "follow_edge v (adj ! v ! s) st = Some st'" "ready_inv adj st'" "visited st' = visited st"
    "work st' = work st \<or> (\<exists>x. work st' = (x, 0) # work st \<and> x < length adj \<and> x \<notin> visited st)"
proof -
  let ?next = "adj ! v ! s"
  have e: "edge adj v ?next" using s by (simp add: edge_def)
  then have lt: "?next < length adj" using ok graph_ok_edge by blast
  have parts: "inv_shape adj ((v, s) # W) st" "inv_low adj ((v, s) # W) st" using inv by (simp_all add: scc_inv_def)
  have len: "length (index_of st) = length adj" using parts(1) by (simp add: inv_shape_def)
  have on: "on_stack st ! ?next \<longleftrightarrow> ?next \<in> stack st" using parts(1) lt by (simp add: inv_shape_def)
  have vis: "?next \<in> visited st \<longleftrightarrow> index_of st ! ?next \<noteq> None" using lt len by (simp add: visited_def)
  consider (new) "?next \<notin> visited st" | (backward) "?next \<in> stack st" | (finished) "?next \<in> visited st" "?next \<notin> stack st"
    by blast
  then show thesis
  proof cases
    case new
    then have "scc_inv adj {?next} ((v, Suc s) # W) st"
      using follow_inv[OF inv s(1), of "{?next}"] parts(1) by (auto simp: inv_shape_def)
    then show thesis
      using that[of "st\<lparr>work := (?next, 0) # work st\<rparr>"] new lt len e vis
      by (simp add: follow_edge_def ready_inv_def w)
  next
    case backward
    let ?st = "st\<lparr>low_link := (low_link st)[v := min (low_link st ! v) (idx st ?next)]\<rparr>"
    have vs: "?next \<in> visited st" using backward parts(1) by (simp add: inv_shape_def)
    have inv': "scc_inv adj {} ((v, s) # W) ?st"
      using lower_inv[OF inv _ backward refl, of v] e by auto
    have "v < length (low_link st)" using parts(1) s(2) by (simp add: inv_shape_def)
    then have "scc_inv adj {} ((v, Suc s) # W) ?st"
      using follow_inv[OF inv' s(1), of "{}"] vs by simp
    moreover have "follow_edge v ?next st = Some ?st"
      using backward vs vis lt len on by (auto simp: follow_edge_def idx_def)
    ultimately show thesis using that[of ?st] by (simp add: ready_inv_def w)
  next
    case finished
    then have "scc_inv adj {} ((v, Suc s) # W) st" using follow_inv[OF inv s(1), of "{}"] by simp
    moreover have "follow_edge v ?next st = Some st" using finished vis lt len on by (auto simp: follow_edge_def)
    ultimately show thesis using that[of st] by (simp add: ready_inv_def w)
  qed
qed

definition loop_inv :: "nat list list \<Rightarrow> tarjan_state \<Rightarrow> bool" where
  "loop_inv adj st \<longleftrightarrow> ready_inv adj st \<and> (\<forall>x \<in> set (tl (work st)). 0 < snd x)"

lemma ready_left:
  assumes "scc_inv adj {} W st" "work st = W" "\<forall>x \<in> set W. 0 < snd x"
  shows "loop_inv adj st"
  using assms by (cases W) (auto simp: loop_inv_def ready_inv_def gr0_conv_Suc split: nat.split)

lemma entered:
  assumes "ready_inv adj st" "work st = (v, s) # W"
  shows "scc_inv adj {} ((v, s) # W) (if s = 0 then enter_node v st else st)
    \<and> visited (if s = 0 then enter_node v st else st) = insert v (visited st)"
proof (cases s)
  case 0
  then have "scc_inv adj {v} W st" "v < length adj" "v \<notin> visited st" "W = [] \<or> edge adj (fst (hd W)) v"
    using assms by (simp_all add: ready_inv_def)
  moreover from this have "v < length (index_of st)" by (simp add: scc_inv_def inv_shape_def)
  ultimately show ?thesis using 0 enter_inv[of adj v W st] by (simp add: enter_simps)
next
  case (Suc k)
  then have "scc_inv adj {} ((v, s) # W) st" using assms by (simp add: ready_inv_def)
  then show ?thesis using Suc by (auto simp: scc_inv_def inv_shape_def)
qed

lemma top_bounds:
  assumes "scc_inv adj F ((v, s) # W) st"
  shows "v < length adj" "s \<le> length (adj ! v)" "path ((v, s) # W) \<subseteq> visited st"
  using assms by (auto simp: scc_inv_def inv_shape_def inv_explored_def visited_def)

lemma work_left_push:
  assumes "x < length adj" "x \<notin> visited st" "x \<notin> path W"
    "visited st' = visited st" "work st' = (x, 0) # W" "work st = W"
  shows "work_left adj st' < work_left adj st"
proof -
  let ?U = "{..<length adj} - visited st - path W"
  have "{..<length adj} - visited st' - path (work st') = ?U - {x}" "x \<in> ?U" using assms by auto
  then show ?thesis using assms sum.remove[of ?U x "\<lambda>v. length (adj ! v) + 2"] by (simp add: work_left_def)
qed

lemma tarjan_step_inv:
  assumes ok: "graph_ok adj" and inv: "loop_inv adj st" and w: "work st = (v, s) # W"
  obtains st' where "tarjan_step adj v s W st = Some st'" "loop_inv adj st'" "visited st \<subseteq> visited st'"
    "v \<in> visited st'" "work_left adj st' < work_left adj st"
proof -
  let ?st = "if s = 0 then enter_node v st else st"
  have ready: "ready_inv adj st" "\<forall>x \<in> set W. 0 < snd x" using inv w by (simp_all add: loop_inv_def)
  have e: "scc_inv adj {} ((v, s) # W) ?st" "visited ?st = insert v (visited st)" using entered[OF ready(1) w] by auto
  note b = top_bounds[OF e(1)]
  have U: "{..<length adj} - visited st - path ((v, t) # W) = {..<length adj} - visited ?st - path W" for t
    using e(2) by auto
  show thesis
  proof (cases "s < length (adj ! v)")
    case True
    let ?st1 = "?st\<lparr>work := (v, Suc s) # W\<rparr>"
    have left: "work_left adj ?st1 < work_left adj st"
      using True e(2) U[of s] U[of "Suc s"] by (simp add: work_left_def w)
    have "scc_inv adj {} ((v, s) # W) ?st1" using e(1) by simp
    then obtain st' where st': "follow_edge v (adj ! v ! s) ?st1 = Some st'" "ready_inv adj st'"
      "visited st' = visited ?st1" "work st' = work ?st1 \<or>
        (\<exists>x. work st' = (x, 0) # work ?st1 \<and> x < length adj \<and> x \<notin> visited ?st1)"
      by (rule follow_edge_inv[OF ok _ True b(1)]) simp
    have "loop_inv adj st'" using st'(2,4) ready(2) by (auto simp: loop_inv_def)
    moreover have "work_left adj st' \<le> work_left adj ?st1"
      using st'(4)
    proof (elim disjE exE conjE)
      fix x assume x: "work st' = (x, 0) # work ?st1" "x < length adj" "x \<notin> visited ?st1"
      then have "x \<notin> path ((v, Suc s) # W)" using b(3) by auto
      then show ?thesis using work_left_push[OF x(2,3), of "(v, Suc s) # W" st'] x(1) st'(3) by simp
    qed (simp add: work_left_def st'(3))
    moreover have "tarjan_step adj v s W st = Some st'" using True st'(1) by (simp add: tarjan_step_def)
    ultimately show thesis using that[of st'] left st'(3) e(2) by auto
  next
    case False
    then have "length (adj ! v) \<le> s" by simp
    then obtain st' where st': "map_option (return_to_parent v W) (close_component v ?st) = Some st'"
      "scc_inv adj {} W st'" "visited st' = visited ?st" "work st' = W"
      by (rule leave_node[OF e(1)])
    have "work_left adj st' < work_left adj st"
      using b(2) U[of s] by (simp add: work_left_def w st'(3,4))
    moreover have "tarjan_step adj v s W st = Some st'" using False st'(1) by (simp add: tarjan_step_def)
    ultimately show thesis using that[of st'] ready_left[OF st'(2,4) ready(2)] st'(3) e(2) by auto
  qed
qed

lemma tarjan_loop_inv:
  assumes "graph_ok adj" "loop_inv adj st"
  shows "\<exists>st'. tarjan_loop adj st = Some st' \<and> scc_inv adj {} [] st' \<and> work st' = []
    \<and> visited st \<union> path (take 1 (work st)) \<subseteq> visited st'"
  using assms(2)
proof (induction "work_left adj st" arbitrary: st rule: less_induct)
  case less
  show ?case
  proof (cases "work st")
    case Nil
    then show ?thesis using less.prems by (simp add: tarjan_loop.simps loop_inv_def ready_inv_def)
  next
    case (Cons x W)
    obtain v s where x: "x = (v, s)" by (cases x)
    obtain st1 where st1: "tarjan_step adj v s W st = Some st1" "loop_inv adj st1" "visited st \<subseteq> visited st1"
      "v \<in> visited st1" "work_left adj st1 < work_left adj st"
      by (rule tarjan_step_inv[OF assms(1) less.prems]) (simp add: Cons x)
    from less.hyps[OF st1(5,2)] show ?thesis
      using st1 Cons x by (subst tarjan_loop.simps) auto
  qed
qed

lemma tarjan_roots_inv:
  assumes "graph_ok adj" "scc_inv adj {} [] st" "work st = []" "set roots \<subseteq> {..<length adj}"
  shows "\<exists>st'. tarjan_roots adj roots st = Some st' \<and> scc_inv adj {} [] st' \<and> work st' = []
    \<and> visited st \<union> set roots \<subseteq> visited st'"
  using assms(2-)
proof (induction roots arbitrary: st)
  case (Cons root roots)
  have len: "length (index_of st) = length adj" using Cons.prems by (simp add: scc_inv_def inv_shape_def)
  show ?case
  proof (cases "index_of st ! root = None")
    case True
    let ?st = "st\<lparr>work := (root, 0) # work st\<rparr>"
    have "scc_inv adj {root} [] st" using Cons.prems(1) by (simp add: scc_inv_def inv_explored_def)
    then have "loop_inv adj ?st"
      using True Cons.prems len by (simp add: loop_inv_def ready_inv_def visited_def)
    then obtain st1 where st1: "tarjan_loop adj ?st = Some st1" "scc_inv adj {} [] st1" "work st1 = []"
      "visited st \<union> {root} \<subseteq> visited st1"
      using tarjan_loop_inv[OF assms(1), of ?st] by auto
    then show ?thesis using True Cons.IH[OF st1(2,3)] Cons.prems(3) by (auto simp: Cons.prems(2))
  next
    case False
    then have "root \<in> visited st" using Cons.prems(3) len by (simp add: visited_def)
    then show ?thesis using False Cons.IH[OF Cons.prems(1,2)] Cons.prems(3) by auto
  qed
qed simp

text \<open>The components Tarjan's algorithm returns are the strongly connected components.\<close>

theorem tarjan_scc_spec:
  assumes "graph_ok adj"
  obtains comps where "tarjan_scc adj = Some comps" "distinct (concat comps)" "set (concat comps) = {..<length adj}"
    "\<And>C. C \<in> set comps \<Longrightarrow> C \<noteq> []"
    "\<And>C u. C \<in> set comps \<Longrightarrow> u \<in> set C \<Longrightarrow> set C = {v. reach adj u v \<and> reach adj v u}"
    "\<And>i u v. i < length comps \<Longrightarrow> u \<in> set (comps ! i) \<Longrightarrow> edge adj u v \<Longrightarrow> v \<in> set (concat (take (Suc i) comps))"
proof -
  have "work (tarjan_start (length adj)) = []" by (simp add: tarjan_start_def)
  from tarjan_roots_inv[OF assms inv_start this, of "[0..<length adj]"]
  obtain st where st: "tarjan_roots adj [0..<length adj] (tarjan_start (length adj)) = Some st"
    "scc_inv adj {} [] st" "{..<length adj} \<subseteq> visited st"
    by (auto simp: atLeast0LessThan)
  have "stack st = {}" using st(2) by (simp add: scc_inv_def inv_reach_def)
  then have "closed st = {..<length adj}" using st(2,3) by (auto simp: scc_inv_def inv_shape_def visited_def)
  then show thesis using that[of "components st"] st by (simp add: tarjan_scc_def scc_inv_def inv_closed_def)
qed

end
