(* ===== verification/Schedule_Laws.thy ===== *)
theory Schedule_Laws
  imports Tarjan "HOL-Library.Multiset"
begin

text \<open>
  What the module schedule promises: its components are the strongly connected components of the
  import graph in a canonical order, its dependency lists are the condensation, and its commit
  order is the one topological order that always takes the least component it can.
\<close>

section \<open>The adjacency lists\<close>

lemma build_adjacency_snoc:
  "build_adjacency n (edges @ [(u, v)]) =
     (if n \<le> u \<or> n \<le> v then build_adjacency n edges
      else (build_adjacency n edges)[u := build_adjacency n edges ! u @ [v]])"
  by (simp add: build_adjacency_def)

lemma length_build_adjacency [simp]: "length (build_adjacency n edges) = n"
proof (induction edges rule: rev_induct)
  case (snoc e edges)
  then show ?case by (cases e) (simp add: build_adjacency_snoc)
qed (simp add: build_adjacency_def)

lemma edge_build_adjacency: "edge (build_adjacency n edges) u v \<longleftrightarrow> (u, v) \<in> set edges \<and> u < n \<and> v < n"
proof (induction edges rule: rev_induct)
  case (snoc e edges)
  then show ?case by (cases e) (auto simp: build_adjacency_snoc edge_def nth_list_update)
qed (auto simp: build_adjacency_def edge_def)

lemma graph_ok_build_adjacency: "graph_ok (build_adjacency n edges)"
proof -
  have "v < n" if "edge (build_adjacency n edges) u v" for u v using that by (simp add: edge_build_adjacency)
  then show ?thesis by (auto simp: graph_ok_def edge_def in_set_conv_nth) (metis nth_mem)
qed

section \<open>The component table\<close>

lemma assign_one_nth:
  "length (fold (\<lambda>m t. t[m := i]) c t) = length t"
  "u < length t \<Longrightarrow> fold (\<lambda>m t. t[m := i]) c t ! u = (if u \<in> set c then i else t ! u)"
  by (induction c arbitrary: t) (auto simp: nth_list_update)

lemma assign_fold:
  assumes "u < length t"
  shows "length (fold (\<lambda>(i, c) t. fold (\<lambda>m t. t[m := i]) c t) (enumerate k comps) t) = length t"
    and "u \<notin> set (concat comps) \<Longrightarrow>
      fold (\<lambda>(i, c) t. fold (\<lambda>m t. t[m := i]) c t) (enumerate k comps) t ! u = t ! u"
    and "distinct (concat comps) \<Longrightarrow> i < length comps \<Longrightarrow> u \<in> set (comps ! i) \<Longrightarrow>
      fold (\<lambda>(i, c) t. fold (\<lambda>m t. t[m := i]) c t) (enumerate k comps) t ! u = k + i"
  using assms
proof (induction comps arbitrary: k t i)
  case (Cons c comps)
  {
    case 1
    show ?case using Cons.IH(1) 1 by (simp add: assign_one_nth)
  next
    case 2
    show ?case using Cons.IH(2) 2 by (simp add: assign_one_nth)
  next
    case 3
    show ?case
    proof (cases i)
      case 0
      then have "u \<notin> set (concat comps)" using 3 by auto
      then show ?thesis using Cons.IH(2) 3 0 by (simp add: assign_one_nth)
    next
      case (Suc j)
      then show ?thesis using Cons.IH(3)[of j _ "Suc k"] 3 by (simp add: assign_one_nth)
    qed
  }
qed auto

lemma length_assign_sccs [simp]: "length (assign_sccs n comps) = n"
proof (cases n)
  case 0
  have "fold (\<lambda>(i, c) t. fold (\<lambda>m t. t[m := i]) c t) xs [] = []" for xs :: "(nat \<times> nat list) list"
    by (induction xs) (auto simp: assign_one_nth(1)[of _ _ "[]", simplified])
  then show ?thesis using 0 by (simp add: assign_sccs_def)
next
  case (Suc m)
  then show ?thesis unfolding assign_sccs_def by (subst assign_fold(1)[of 0]) simp_all
qed

lemma assign_sccs_nth:
  assumes "distinct (concat comps)" "i < length comps" "u \<in> set (comps ! i)" "u < n"
  shows "assign_sccs n comps ! u = i"
  using assign_fold(3)[OF _ assms(1-3), of "replicate n 0" 0] assms(4) by (simp add: assign_sccs_def)

section \<open>Condensation edges\<close>

lemma enumerate_upt: "enumerate 0 xs = map (\<lambda>i. (i, xs ! i)) [0..<length xs]"
  by (rule nth_equalityI) (auto simp: nth_enumerate_eq)

lemma cross_edges_iff:
  "(i, j) \<in> set (cross_edges adj table) \<longleftrightarrow> i \<noteq> j \<and> (\<exists>u v. edge adj u v \<and> table ! u = i \<and> table ! v = j)"
  by (auto simp: cross_edges_def edge_def enumerate_upt)

lemma sort_dedup [simp]: "set (sort_dedup xs) = set xs" "sorted_wrt (<) (sort_dedup xs)"
proof -
  show "set (sort_dedup xs) = set xs" by (simp add: sort_dedup_def)
  have "sorted ys \<Longrightarrow> sorted_wrt (<) (remdups_adj ys)" for ys :: "nat list"
    by (induction ys rule: remdups_adj.induct) auto
  then show "sorted_wrt (<) (sort_dedup xs)" by (simp add: sort_dedup_def)
qed

lemma distinct_sort_dedup [simp]: "distinct (sort_dedup xs)"
  using sort_dedup(2)[of xs] strict_sorted_iff by blast

lemma length_sort_dedup: "length (sort_dedup xs) = card (set xs)"
  using distinct_card[OF distinct_sort_dedup, of xs] by simp

section \<open>The schedule\<close>

text \<open>The import relation the schedule is built from, and the modules of one cycle.\<close>

definition module_imports :: "nat \<Rightarrow> (nat \<times> nat) list \<Rightarrow> nat \<Rightarrow> nat \<Rightarrow> bool" where
  "module_imports n edges u v \<longleftrightarrow> (u, v) \<in> set edges \<and> u < n \<and> v < n"

definition same_cycle :: "nat \<Rightarrow> (nat \<times> nat) list \<Rightarrow> nat \<Rightarrow> nat \<Rightarrow> bool" where
  "same_cycle n edges u v \<longleftrightarrow> (module_imports n edges)\<^sup>*\<^sup>* u v \<and> (module_imports n edges)\<^sup>*\<^sup>* v u"

lemma module_imports_edge: "module_imports n edges = edge (build_adjacency n edges)"
  by (simp add: fun_eq_iff module_imports_def edge_build_adjacency)

lemma mset_concat_sorted: fixes xs :: "'a::linorder list list" shows "mset (concat (sort_key f (map sort xs))) = mset (concat xs)"
proof -
  have "mset (concat ys) = sum_mset (image_mset mset (mset ys))" for ys :: "'a list list"
    by (simp add: mset_concat flip: sum_mset_sum_list)
  then show ?thesis by (simp add: multiset.map_comp comp_def)
qed

lemma sorted_key_strict:
  assumes "distinct (concat cs)" "\<forall>c \<in> set cs. c \<noteq> []" "sorted (map (\<lambda>c. c ! 0) cs)"
  shows "sorted_wrt (<) (map (\<lambda>c. c ! 0) cs)"
  using assms
proof (induction cs)
  case (Cons c cs)
  have "c ! 0 < d ! 0" if "d \<in> set cs" for d
  proof -
    have "c ! 0 \<le> d ! 0" using Cons.prems(3) that by simp
    moreover
    have "c ! 0 \<in> set c" "d ! 0 \<in> set d" using Cons.prems(2) that by (auto intro!: nth_mem)
    then have "c ! 0 \<noteq> d ! 0" using Cons.prems(1) that by auto
    ultimately show ?thesis by simp
  qed
  then show ?case using Cons by simp
qed simp

text \<open>The whole contract of \<open>build\<close>; \<open>rank\<close> witnesses that the condensation has no cycle.\<close>

lemma build_spec:
  obtains s rank where "build n edges = Some s" "length (scc_of s) = n"
    "\<And>u. u < n \<Longrightarrow> scc_of s ! u < length (sccs s) \<and> u \<in> set (members (sccs s ! (scc_of s ! u)))"
    "\<And>i u. i < length (sccs s) \<Longrightarrow> u \<in> set (members (sccs s ! i)) \<Longrightarrow> u < n \<and> scc_of s ! u = i"
    "\<And>u v. u < n \<Longrightarrow> v < n \<Longrightarrow> scc_of s ! u = scc_of s ! v \<longleftrightarrow> same_cycle n edges u v"
    "\<And>i. i < length (sccs s) \<Longrightarrow> members (sccs s ! i) \<noteq> [] \<and> sorted_wrt (<) (members (sccs s ! i))"
    "sorted_wrt (<) (map anchor (sccs s))"
    "\<And>i. i < length (sccs s) \<Longrightarrow> sorted_wrt (<) (dependencies (sccs s ! i))
       \<and> set (dependencies (sccs s ! i)) =
           {j. i \<noteq> j \<and> (\<exists>u v. module_imports n edges u v \<and> scc_of s ! u = i \<and> scc_of s ! v = j)}"
    "\<And>i. i < length (sccs s) \<Longrightarrow> sorted_wrt (<) (dependents (sccs s ! i))
       \<and> set (dependents (sccs s ! i)) = {j. j < length (sccs s) \<and> i \<in> set (dependencies (sccs s ! j))}"
    "\<And>i j. i < length (sccs s) \<Longrightarrow> j \<in> set (dependencies (sccs s ! i)) \<Longrightarrow>
       j < length (sccs s) \<and> rank j < (rank i :: nat)"
proof -
  let ?adj = "build_adjacency n edges"
  obtain raw where raw: "tarjan_scc ?adj = Some raw" "distinct (concat raw)" "set (concat raw) = {..<n}"
    "\<And>C. C \<in> set raw \<Longrightarrow> C \<noteq> []"
    "\<And>C u. C \<in> set raw \<Longrightarrow> u \<in> set C \<Longrightarrow> set C = {v. reach ?adj u v \<and> reach ?adj v u}"
    by (rule tarjan_scc_spec[OF graph_ok_build_adjacency[of n edges]]) simp
  define comps where "comps = sort_key (\<lambda>c. c ! 0) (map sort raw)"
  define table where "table = assign_sccs n comps"
  define cross where "cross = cross_edges ?adj table"
  define s where "s = \<lparr>scc_of = table, sccs = map (\<lambda>(i, mems).
      \<lparr>members = mems, dependencies = sort_dedup (map snd (filter (\<lambda>(f, _). f = i) cross)),
       dependents = sort_dedup (map fst (filter (\<lambda>(_, t). t = i) cross))\<rparr>) (enumerate 0 comps)\<rparr>"
  have build: "build n edges = Some s"
    by (simp add: build_def raw(1) Let_def s_def comps_def table_def cross_def)
  have sizes: "length (sccs s) = length comps" "length table = n" "scc_of s = table" by (simp_all add: s_def table_def)
  have field: "members (sccs s ! i) = comps ! i"
      "dependencies (sccs s ! i) = sort_dedup (map snd (filter (\<lambda>(f, _). f = i) cross))"
      "dependents (sccs s ! i) = sort_dedup (map fst (filter (\<lambda>(_, t). t = i) cross))" if "i < length comps" for i
    using that by (simp_all add: s_def enumerate_upt)
  have perm: "mset (concat comps) = mset (concat raw)" unfolding comps_def by (rule mset_concat_sorted)
  have dist: "distinct (concat comps)" using perm raw(2) mset_eq_imp_distinct_iff by blast
  have all: "set (concat comps) = {..<n}" using mset_eq_setD[OF perm] raw(3) by simp
  have comp: "c \<noteq> [] \<and> sorted c \<and> (\<forall>u \<in> set c. set c = {v. reach ?adj u v \<and> reach ?adj v u})"
    if c: "c \<in> set comps" for c
  proof -
    obtain r where r: "r \<in> set raw" "c = sort r" using c by (auto simp: comps_def)
    then have "set c = set r" "r \<noteq> []" using raw(4) by simp_all
    moreover from this have "c \<noteq> []" using set_empty[of c] set_empty[of r] by simp
    ultimately show ?thesis using raw(5)[OF r(1)] r(2) by simp
  qed
  have tab: "table ! u = i" "u < n" if "i < length comps" "u \<in> set (comps ! i)" for i u
  proof -
    have "u \<in> set (concat comps)" using that by auto
    then show "u < n" using all by blast
    then show "table ! u = i" using assign_sccs_nth[OF dist that] by (simp add: table_def)
  qed
  have inv: "table ! u < length comps \<and> u \<in> set (comps ! (table ! u))" if "u < n" for u
  proof -
    have "u \<in> set (concat comps)" using all that by simp
    then obtain i where "i < length comps" "u \<in> set (comps ! i)"
      using in_set_conv_nth[of _ comps] by auto
    then show ?thesis using tab[of i u] by simp
  qed
  have cyc: "table ! u = table ! v \<longleftrightarrow> same_cycle n edges u v" if "u < n" "v < n" for u v
  proof -
    have "set (comps ! (table ! u)) = {v. reach ?adj u v \<and> reach ?adj v u}" using comp inv[OF that(1)] by auto
    moreover have "table ! u = table ! v \<longleftrightarrow> v \<in> set (comps ! (table ! u))"
      using tab(1)[of "table ! u" v] inv[OF that(1)] inv[OF that(2)] by metis
    ultimately show ?thesis by (simp add: same_cycle_def module_imports_edge)
  qed
  have dep: "j \<in> set (dependencies (sccs s ! i)) \<longleftrightarrow> (i, j) \<in> set cross"
    and dpt: "j \<in> set (dependents (sccs s ! i)) \<longleftrightarrow> (j, i) \<in> set cross" if "i < length comps" for i j
    using that by (force simp: field)+
  have cross: "(i, j) \<in> set cross \<longleftrightarrow> i \<noteq> j \<and> (\<exists>u v. module_imports n edges u v \<and> table ! u = i \<and> table ! v = j)" for i j
    unfolding cross_def module_imports_edge by (rule cross_edges_iff)
  have deps: "set (dependencies (sccs s ! i)) =
      {j. i \<noteq> j \<and> (\<exists>u v. module_imports n edges u v \<and> table ! u = i \<and> table ! v = j)}" if "i < length comps" for i
    by (rule Set.set_eqI) (simp add: dep[OF that] cross)
  have dependents: "set (dependents (sccs s ! i)) = {j. j < length comps \<and> i \<in> set (dependencies (sccs s ! j))}"
    if "i < length comps" for i
  proof -
    have "j < length comps" if "(j, i) \<in> set cross" for j
      using that inv by (auto simp: cross module_imports_def)
    then show ?thesis using dpt[OF that] dep by blast
  qed
  define rank where "rank i = card {w. reach ?adj (comps ! i ! 0) w}" for i
  have rank: "j < length comps \<and> rank j < rank i" if i: "i < length comps" and j: "j \<in> set (dependencies (sccs s ! i))" for i j
  proof -
    obtain u v where uv: "edge ?adj u v" "table ! u = i" "table ! v = j" "i \<noteq> j"
      using j deps[OF i] by (auto simp: module_imports_edge)
    have lt: "u < n" "v < n" using uv(1) by (simp_all add: edge_build_adjacency)
    have j': "j < length comps" using inv[OF lt(2)] uv(3) by simp
    have hd: "comps ! k ! 0 \<in> set (comps ! k)" if "k < length comps" for k
      using comp[of "comps ! k"] that by auto
    have to: "reach ?adj (comps ! i ! 0) u" "reach ?adj v (comps ! j ! 0)"
      using comp[of "comps ! i"] comp[of "comps ! j"] hd i j' inv[OF lt(1)] inv[OF lt(2)] uv(2,3) by auto
    have "reach ?adj (comps ! i ! 0) v" using to(1) uv(1) by (rule rtranclp.rtrancl_into_rtrancl)
    then have ij: "reach ?adj (comps ! i ! 0) (comps ! j ! 0)" using to(2) by (rule rtranclp_trans)
    have sub: "{w. reach ?adj (comps ! j ! 0) w} \<subseteq> {w. reach ?adj (comps ! i ! 0) w}"
      using rtranclp_trans[OF ij] by blast
    have "comps ! i ! 0 \<notin> {w. reach ?adj (comps ! j ! 0) w}"
    proof
      assume "comps ! i ! 0 \<in> {w. reach ?adj (comps ! j ! 0) w}"
      then have "comps ! j ! 0 \<in> set (comps ! i)" using comp[of "comps ! i"] hd[OF i] ij i by auto
      then show False using tab(1)[OF i] tab(1)[OF j' hd[OF j']] uv(4) by auto
    qed
    then have less: "{w. reach ?adj (comps ! j ! 0) w} \<subset> {w. reach ?adj (comps ! i ! 0) w}" using sub by blast
    have "{w. reach ?adj (comps ! i ! 0) w} \<subseteq> {..<n}"
      using reach_closed[of ?adj "comps ! i ! 0" _ "{..<n}"] tab(2)[OF i hd[OF i]] by (auto simp: edge_build_adjacency)
    then have "finite {w. reach ?adj (comps ! i ! 0) w}" by (rule finite_subset) simp
    then show ?thesis using psubset_card_mono[OF _ less] j' by (simp add: rank_def)
  qed
  have strict: "sorted_wrt (<) (comps ! i)" if "i < length comps" for i
    using comp[of "comps ! i"] that dist by (auto simp: strict_sorted_iff distinct_concat_iff)
  have "sorted (map (\<lambda>c. c ! 0) comps)" unfolding comps_def by (rule sorted_sort_key)
  moreover have "map anchor (sccs s) = map (\<lambda>c. c ! 0) comps"
    by (rule nth_equalityI) (auto simp: sizes anchor_def field)
  ultimately have anchors: "sorted_wrt (<) (map anchor (sccs s))"
    using sorted_key_strict[OF dist] comp by simp
  show thesis
  proof (rule that[of s rank], unfold sizes(1,3))
    show "table ! u < length comps \<and> u \<in> set (members (sccs s ! (table ! u)))" if "u < n" for u
      using inv[OF that] field(1) by simp
    show "u < n \<and> table ! u = i" if "i < length comps" "u \<in> set (members (sccs s ! i))" for i u
      using tab[of i u] that by (simp add: field(1))
    show "members (sccs s ! i) \<noteq> [] \<and> sorted_wrt (<) (members (sccs s ! i))" if "i < length comps" for i
      using strict[OF that] comp[of "comps ! i"] that by (simp add: field(1))
    show "sorted_wrt (<) (dependencies (sccs s ! i)) \<and> set (dependencies (sccs s ! i)) =
        {j. i \<noteq> j \<and> (\<exists>u v. module_imports n edges u v \<and> table ! u = i \<and> table ! v = j)}" if "i < length comps" for i
      by (rule conjI[OF _ deps[OF that]]) (simp add: field(2)[OF that])
    show "sorted_wrt (<) (dependents (sccs s ! i)) \<and>
        set (dependents (sccs s ! i)) = {j. j < length comps \<and> i \<in> set (dependencies (sccs s ! j))}"
      if "i < length comps" for i
      by (rule conjI[OF _ dependents[OF that]]) (simp add: field(3)[OF that])
  qed (fact build sizes(2) cyc anchors rank)+
qed

section \<open>The commit order\<close>

lemma release_dependents_spec:
  assumes "distinct ds" "\<And>d. d \<in> set ds \<Longrightarrow> d < length remaining \<and> 0 < remaining ! d" "sorted ready"
    "distinct ready" "set ds \<inter> set ready = {}"
  obtains remaining' ready' where "release_dependents ds remaining ready = Some (remaining', ready')"
    "length remaining' = length remaining"
    "\<And>j. remaining' ! j = (if j \<in> set ds then remaining ! j - 1 else remaining ! j)"
    "sorted ready'" "distinct ready'" "set ready' = set ready \<union> {d \<in> set ds. remaining ! d = 1}"
  using assms
proof (induction ds arbitrary: remaining ready thesis)
  case (Cons d ds)
  let ?rem = "remaining[d := remaining ! d - 1]"
  let ?rdy = "if ?rem ! d = 0 then insort d ready else ready"
  have d: "d < length remaining" "0 < remaining ! d" "d \<notin> set ds" using Cons.prems(2,3) by auto
  obtain rem' rdy' where r: "release_dependents ds ?rem ?rdy = Some (rem', rdy')"
    "length rem' = length ?rem" "\<And>j. rem' ! j = (if j \<in> set ds then ?rem ! j - 1 else ?rem ! j)"
    "sorted rdy'" "distinct rdy'" "set rdy' = set ?rdy \<union> {e \<in> set ds. ?rem ! e = 1}"
  proof (rule Cons.IH[of ?rem ?rdy])
    show "e < length ?rem \<and> 0 < ?rem ! e" if "e \<in> set ds" for e
    proof -
      have "e \<noteq> d" using that d(3) by auto
      then show ?thesis using Cons.prems(3)[of e] that by simp
    qed
  qed (use Cons.prems d in \<open>auto simp: sorted_insort distinct_insort set_insort_key\<close>)
  show ?case
  proof (rule Cons.prems(1)[of rem' rdy'])
    show "release_dependents (d # ds) remaining ready = Some (rem', rdy')" using d r(1) by (simp add: Let_def)
    show "rem' ! j = (if j \<in> set (d # ds) then remaining ! j - 1 else remaining ! j)" for j
      using d by (auto simp: r(3) nth_list_update)
    have "?rem ! e = remaining ! e" if "e \<in> set ds" for e
      using that d(3) by (intro nth_list_update_neq) auto
    then show "set rdy' = set ready \<union> {e \<in> set (d # ds). remaining ! e = 1}"
      using d by (auto simp: r(6) set_insort_key)
  qed (use r in simp_all)
qed simp

text \<open>A component is available once its dependencies are committed.\<close>

definition available :: "scc list \<Rightarrow> nat list \<Rightarrow> nat set" where
  "available cs order = {j. j < length cs \<and> j \<notin> set order \<and> set (dependencies (cs ! j)) \<subseteq> set order}"

definition least_first :: "scc list \<Rightarrow> nat list \<Rightarrow> bool" where
  "least_first cs order \<longleftrightarrow> (\<forall>i < length order.
     order ! i \<in> available cs (take i order) \<and> Min (available cs (take i order)) = order ! i)"

definition condensation :: "scc list \<Rightarrow> (nat \<Rightarrow> nat) \<Rightarrow> bool" where
  "condensation cs rank \<longleftrightarrow>
     (\<forall>i < length cs. distinct (dependencies (cs ! i)) \<and> distinct (dependents (cs ! i))
        \<and> set (dependents (cs ! i)) = {j. j < length cs \<and> i \<in> set (dependencies (cs ! j))}
        \<and> (\<forall>j \<in> set (dependencies (cs ! i)). j < length cs \<and> rank j < rank i))"

definition kahn_inv :: "scc list \<Rightarrow> nat list \<Rightarrow> nat list \<Rightarrow> nat list \<Rightarrow> bool" where
  "kahn_inv cs remaining ready order \<longleftrightarrow>
     distinct order \<and> set order \<subseteq> {..<length cs} \<and> length remaining = length cs
     \<and> (\<forall>j < length cs. remaining ! j = card (set (dependencies (cs ! j)) - set order))
     \<and> sorted ready \<and> distinct ready \<and> set ready = available cs order
     \<and> least_first cs order"

lemma least_first_snoc:
  assumes "least_first cs order" "k \<in> available cs order" "Min (available cs order) = k"
  shows "least_first cs (order @ [k])"
  unfolding least_first_def
proof (intro allI impI)
  fix i assume "i < length (order @ [k])"
  then consider "i < length order" | "i = length order" by fastforce
  then show "(order @ [k]) ! i \<in> available cs (take i (order @ [k]))
    \<and> Min (available cs (take i (order @ [k]))) = (order @ [k]) ! i"
    using assms by cases (simp_all add: least_first_def nth_append)
qed

lemma available_progress:
  assumes "condensation cs rank" "j < length cs" "j \<notin> set order"
  shows "available cs order \<noteq> {}"
  using assms(2,3)
proof (induction "rank j" arbitrary: j rule: less_induct)
  case less
  show ?case
  proof (cases "j \<in> available cs order")
    case False
    then obtain d where "d \<in> set (dependencies (cs ! j))" "d \<notin> set order"
      using less.prems by (auto simp: available_def)
    then show ?thesis using less.hyps[of d] assms(1) less.prems by (auto simp: condensation_def)
  qed auto
qed

lemma kahn_step:
  assumes c: "condensation cs rank" and inv: "kahn_inv cs remaining (k # ready) order"
  obtains remaining' ready' where "release_dependents (dependents (cs ! k)) remaining ready = Some (remaining', ready')"
    "kahn_inv cs remaining' ready' (order @ [k])" "length order < length cs"
proof -
  have k: "k \<in> available cs order" "k < length cs" "k \<notin> set order" "k \<notin> set ready" "sorted ready" "distinct ready"
    using inv by (auto simp: kahn_inv_def available_def)
  have rdy: "set ready = available cs order - {k}" using inv k(4) by (auto simp: kahn_inv_def)
  let ?ds = "dependents (cs ! k)"
  have ds: "distinct ?ds" "set ?ds = {j. j < length cs \<and> k \<in> set (dependencies (cs ! j))}"
    using c k(2) by (auto simp: condensation_def)
  have rem: "remaining ! j = card (set (dependencies (cs ! j)) - set order)" "length remaining = length cs"
    if "j < length cs" for j using inv that by (auto simp: kahn_inv_def)
  have drop: "card (set (dependencies (cs ! j)) - set order) =
      card (set (dependencies (cs ! j)) - insert k (set order)) + (if j \<in> set ?ds then 1 else 0)"
    if "j < length cs" for j
  proof (cases "j \<in> set ?ds")
    case True
    then have "k \<in> set (dependencies (cs ! j)) - set order" using ds(2) k(3) by blast
    then have "card (set (dependencies (cs ! j)) - set order) = Suc (card (set (dependencies (cs ! j)) - set order - {k}))"
      by (intro card.remove) simp_all
    moreover have "set (dependencies (cs ! j)) - insert k (set order) = set (dependencies (cs ! j)) - set order - {k}"
      by blast
    ultimately show ?thesis using True by presburger
  next
    case False
    then have "set (dependencies (cs ! j)) - insert k (set order) = set (dependencies (cs ! j)) - set order"
      using ds(2) that by auto
    then show ?thesis using False by simp
  qed
  have fresh: "j \<notin> set order \<and> j \<noteq> k" if "j \<in> set ?ds" for j
  proof -
    have j: "j < length cs" "k \<in> set (dependencies (cs ! j))" using that ds(2) by auto
    then have "j \<noteq> k" using c by (auto simp: condensation_def)
    moreover have "j \<notin> set order"
    proof
      assume "j \<in> set order"
      then obtain i where "i < length order" "order ! i = j" by (auto simp: in_set_conv_nth)
      then have "j \<in> available cs (take i order)" using inv by (auto simp: kahn_inv_def least_first_def)
      then have "k \<in> set order" using j(2) by (auto simp: available_def dest: in_set_takeD)
      then show False using k(3) by simp
    qed
    ultimately show ?thesis by simp
  qed
  obtain remaining' ready' where r: "release_dependents ?ds remaining ready = Some (remaining', ready')"
    "length remaining' = length remaining"
    "\<And>j. remaining' ! j = (if j \<in> set ?ds then remaining ! j - 1 else remaining ! j)"
    "sorted ready'" "distinct ready'" "set ready' = set ready \<union> {d \<in> set ?ds. remaining ! d = 1}"
  proof (rule release_dependents_spec[OF ds(1) _ k(5,6)])
    show "d < length remaining \<and> 0 < remaining ! d" if "d \<in> set ?ds" for d
    proof -
      have "d < length cs" using that ds(2) by simp
      then show ?thesis using rem[of d] drop[of d] that by simp
    qed
    show "set ?ds \<inter> set ready = {}" using ds(2) rdy k(3) by (auto simp: available_def)
  qed blast
  have new: "set ready' = available cs (order @ [k])"
  proof (rule Set.set_eqI)
    fix j
    have one: "remaining ! j = 1 \<longleftrightarrow> set (dependencies (cs ! j)) \<subseteq> insert k (set order)" if "j \<in> set ?ds"
    proof -
      have "j < length cs" using that ds(2) by simp
      then have "remaining ! j = card (set (dependencies (cs ! j)) - insert k (set order)) + 1"
        using rem(1)[of j] drop[of j] that by simp
      then show ?thesis by (auto simp: card_eq_0_iff)
    qed
    show "j \<in> set ready' \<longleftrightarrow> j \<in> available cs (order @ [k])"
    proof (cases "j \<in> set ?ds")
      case True
      then show ?thesis using one fresh[OF True] ds(2) rdy by (auto simp: r(6) available_def)
    next
      case False
      then show ?thesis using ds(2) rdy by (auto simp: r(6) available_def)
    qed
  qed
  have "remaining' ! j = card (set (dependencies (cs ! j)) - set (order @ [k]))" if "j < length cs" for j
    using rem(1)[OF that] drop[OF that] by (simp add: r(3))
  moreover have min: "Min (available cs order) = k"
    using inv rdy k(1) by (intro Min_eqI) (auto simp: kahn_inv_def available_def)
  have ord: "distinct order" "set order \<subseteq> {..<length cs}" "least_first cs order" "length remaining = length cs"
    using inv by (simp_all add: kahn_inv_def)
  ultimately have "kahn_inv cs remaining' ready' (order @ [k])"
    using k(2,3) new r(2,4,5) least_first_snoc[OF ord(3) k(1) min] by (simp add: kahn_inv_def)
  moreover have "length order < length cs"
  proof -
    have "set order \<subset> {..<length cs}" using ord(2) k(2,3) by blast
    then show ?thesis using psubset_card_mono[of "{..<length cs}" "set order"] distinct_card[OF ord(1)] by simp
  qed
  ultimately show thesis using that r(1) by simp
qed

lemma kahn_loop_spec:
  assumes "condensation cs rank" "kahn_inv cs remaining ready order"
  shows "\<exists>result. kahn_loop cs remaining ready order = Some result \<and> distinct result
    \<and> set result = {..<length cs} \<and> least_first cs result"
  using assms(2)
proof (induction "length cs - length order" arbitrary: remaining ready order rule: less_induct)
  case less
  show ?case
  proof (cases ready)
    case Nil
    then have "available cs order = {}" using less.prems by (simp add: kahn_inv_def)
    then have "set order = {..<length cs}"
      using available_progress[OF assms(1)] less.prems by (auto simp: kahn_inv_def)
    then show ?thesis using Nil less.prems by (simp add: kahn_loop.simps kahn_inv_def)
  next
    case (Cons k ready1)
    obtain remaining' ready' where r:
      "release_dependents (dependents (cs ! k)) remaining ready1 = Some (remaining', ready')"
      "kahn_inv cs remaining' ready' (order @ [k])" "length order < length cs"
      using kahn_step[OF assms(1)] less.prems Cons by metis
    have "length cs - length (order @ [k]) < length cs - length order" using r(3) by simp
    from less.hyps[OF this r(2)] show ?thesis using r(1) Cons by (subst kahn_loop.simps) simp
  qed
qed

lemma kahn_start:
  assumes "condensation cs rank"
  shows "kahn_inv cs (map (\<lambda>c. length (dependencies c)) cs)
    (filter (\<lambda>i. dependencies (cs ! i) = []) [0..<length cs]) []"
  using assms by (auto simp: kahn_inv_def available_def least_first_def condensation_def distinct_card sorted_wrt_filter)

lemma build_condensation:
  obtains s rank where "build n edges = Some s" "condensation (sccs s) rank" "length (scc_of s) = n"
    "\<And>u. u < n \<Longrightarrow> scc_of s ! u < length (sccs s)"
    "\<And>u v. module_imports n edges u v \<Longrightarrow> scc_of s ! u \<noteq> scc_of s ! v \<Longrightarrow>
      scc_of s ! v \<in> set (dependencies (sccs s ! (scc_of s ! u)))"
proof (rule build_spec[of n edges])
  fix s rank
  assume s: "build n edges = Some s" "length (scc_of s) = n"
    and member: "\<And>u. u < n \<Longrightarrow> scc_of s ! u < length (sccs s) \<and> u \<in> set (members (sccs s ! (scc_of s ! u)))"
    and deps: "\<And>i. i < length (sccs s) \<Longrightarrow> sorted_wrt (<) (dependencies (sccs s ! i)) \<and> set (dependencies (sccs s ! i)) =
        {j. i \<noteq> j \<and> (\<exists>u v. module_imports n edges u v \<and> scc_of s ! u = i \<and> scc_of s ! v = j)}"
    and dpts: "\<And>i. i < length (sccs s) \<Longrightarrow> sorted_wrt (<) (dependents (sccs s ! i)) \<and>
        set (dependents (sccs s ! i)) = {j. j < length (sccs s) \<and> i \<in> set (dependencies (sccs s ! j))}"
    and rank: "\<And>i j. i < length (sccs s) \<Longrightarrow> j \<in> set (dependencies (sccs s ! i)) \<Longrightarrow>
        j < length (sccs s) \<and> rank j < (rank i :: nat)"
  have "condensation (sccs s) rank"
    unfolding condensation_def using deps dpts rank by (meson strict_sorted_iff)
  moreover have "scc_of s ! v \<in> set (dependencies (sccs s ! (scc_of s ! u)))"
    if "module_imports n edges u v" "scc_of s ! u \<noteq> scc_of s ! v" for u v
    using deps[of "scc_of s ! u"] member[of u] that by (auto simp: module_imports_def)
  ultimately show thesis using that s member by blast
qed

lemma least_first_before:
  assumes "least_first cs order" "set order = {..<length cs}" "i < length cs" "d \<in> set (dependencies (cs ! i))"
  shows "\<exists>a b. a < b \<and> b < length order \<and> order ! a = d \<and> order ! b = i"
proof -
  obtain b where b: "b < length order" "order ! b = i" using assms(2,3) by (metis in_set_conv_nth lessThan_iff)
  then have "d \<in> set (take b order)" using assms(1,4) by (auto simp: least_first_def available_def)
  then obtain a where "a < b" "order ! a = d" using b(1) by (auto simp: in_set_conv_nth)
  then show ?thesis using b by blast
qed

section \<open>Properties\<close>

text \<open>
  C2. The iterative Tarjan algorithm: on every graph whose edges stay in range it ends without a
  panic; each node is in exactly one of the components it returns; a component is exactly the set
  of nodes mutually reachable with any of its members; and an edge never leads from a component to
  a later one.
\<close>

theorem tarjan_scc_correct:
  assumes "graph_ok adj"
  shows "\<exists>comps. tarjan_scc adj = Some comps \<and> distinct (concat comps) \<and> set (concat comps) = {..<length adj}
    \<and> (\<forall>C \<in> set comps. C \<noteq> [] \<and> (\<forall>u \<in> set C. set C = {v. reach adj u v \<and> reach adj v u}))
    \<and> (\<forall>i < length comps. \<forall>u \<in> set (comps ! i). \<forall>v. edge adj u v \<longrightarrow> v \<in> set (concat (take (Suc i) comps)))"
  by (rule tarjan_scc_spec[OF assms]) (intro exI conjI ballI allI impI; (assumption | blast))

theorem tarjan_scc_correct_witness:
  "graph_ok [[1], [2], [0, 3], [], [4]] \<and>
   (\<exists>comps. tarjan_scc [[1], [2], [0, 3], [], [4]] = Some comps \<and> distinct (concat comps)
      \<and> set (concat comps) = {..<5} \<and> comps = [[3], [2, 1, 0], [4]])"
proof -
  let ?adj = "[[1], [2], [0, 3], [], [4]] :: nat list list"
  have ok: "graph_ok ?adj" by (simp add: graph_ok_def)
  obtain comps where comps: "tarjan_scc ?adj = Some comps" "distinct (concat comps)" "set (concat comps) = {..<length ?adj}"
    using tarjan_scc_correct[OF ok] by (elim exE conjE)
  have "tarjan_scc ?adj = Some [[3], [2, 1, 0], [4]]" by code_simp
  then have "comps = [[3], [2, 1, 0], [4]]" using comps(1) by simp
  moreover have "length ?adj = 5" by simp
  ultimately show ?thesis using ok comps by metis
qed



text \<open>
  C11. The commit order of every schedule exists (no counter underflows, the loop ends), lists every
  component once, puts a component after everything its members import, and is deterministic: each
  entry is the least component whose dependencies are all committed before it.
\<close>

theorem commit_order_topological:
  "\<exists>s order. build n edges = Some s \<and> commit_order s = Some order \<and> distinct order
    \<and> set order = {..<scc_count s} \<and> least_first (sccs s) order
    \<and> (\<forall>u v. module_imports n edges u v \<longrightarrow> scc_of s ! u \<noteq> scc_of s ! v \<longrightarrow>
         (\<exists>a b. a < b \<and> b < length order \<and> order ! a = scc_of s ! v \<and> order ! b = scc_of s ! u))"
proof (rule build_condensation[of n edges])
  fix s rank
  assume s: "build n edges = Some s" "condensation (sccs s) rank"
    "\<And>u. u < n \<Longrightarrow> scc_of s ! u < length (sccs s)"
    "\<And>u v. module_imports n edges u v \<Longrightarrow> scc_of s ! u \<noteq> scc_of s ! v \<Longrightarrow>
      scc_of s ! v \<in> set (dependencies (sccs s ! (scc_of s ! u)))"
  obtain order where order: "commit_order s = Some order" "distinct order" "set order = {..<length (sccs s)}"
    "least_first (sccs s) order"
    using kahn_loop_spec[OF s(2) kahn_start[OF s(2)]] by (auto simp: commit_order_def)
  have "\<exists>a b. a < b \<and> b < length order \<and> order ! a = scc_of s ! v \<and> order ! b = scc_of s ! u"
    if "module_imports n edges u v" "scc_of s ! u \<noteq> scc_of s ! v" for u v
    using least_first_before[OF order(4,3) _ s(4)[OF that]] s(3)[of u] that(1) by (simp add: module_imports_def)
  then show ?thesis using s(1) order by (auto simp: scc_count_def)
qed

theorem commit_order_topological_witness:
  "\<exists>s order. build 4 [(0, 1), (0, 2), (1, 3), (2, 3)] = Some s \<and> commit_order s = Some order \<and> order = [3, 1, 2, 0]
    \<and> (\<exists>a b. a < b \<and> b < length order \<and> order ! a = scc_of s ! 3 \<and> order ! b = scc_of s ! 1)"
proof -
  let ?e = "[(0, 1), (0, 2), (1, 3), (2, 3)]"
  obtain s order where s: "build 4 ?e = Some s" "commit_order s = Some order"
    "module_imports 4 ?e 1 3 \<longrightarrow> scc_of s ! 1 \<noteq> scc_of s ! 3 \<longrightarrow>
      (\<exists>a b. a < b \<and> b < length order \<and> order ! a = scc_of s ! 3 \<and> order ! b = scc_of s ! 1)"
    using commit_order_topological[of 4 ?e] by blast
  have "Option.bind (build 4 ?e) commit_order = Some [3, 1, 2, 0]" "map_option scc_of (build 4 ?e) = Some [0, 1, 2, 3]"
    by code_simp+
  then have eqs: "order = [3, 1, 2, 0]" "scc_of s = [0, 1, 2, 3]" using s(1,2) by simp_all
  have imp: "module_imports 4 ?e 1 3" by (simp add: module_imports_def)
  show ?thesis by (rule exI[of _ s], rule exI[of _ order]) (use s imp eqs in simp)
qed

end
