(* ===== verification/Utf8.thy ===== *)
theory Utf8
  imports Prelude
begin

text \<open>
  UTF-8 text. A Rust string is a valid UTF-8 byte list; \<open>char_indices\<close> are the indices of its bytes
  that are not continuation bytes, and a slice that does not start and end there panics (\<open>None\<close>).
\<close>

section \<open>UTF-8\<close>

definition is_continuation :: "char \<Rightarrow> bool" where
  "is_continuation b \<longleftrightarrow> 128 \<le> byte b \<and> byte b < 192"

fun valid_utf8 :: "rstr \<Rightarrow> bool" where
  "valid_utf8 [] = True"
| "valid_utf8 (b # s) =
     (if byte b < 128 then valid_utf8 s
      else if 194 \<le> byte b \<and> byte b < 224 then
        (case s of c1 # s1 \<Rightarrow> is_continuation c1 \<and> valid_utf8 s1 | _ \<Rightarrow> False)
      else if 224 \<le> byte b \<and> byte b < 240 then
        (case s of
           c1 # c2 # s2 \<Rightarrow>
             is_continuation c1 \<and> is_continuation c2 \<and> (byte b = 224 \<longrightarrow> 160 \<le> byte c1)
             \<and> (byte b = 237 \<longrightarrow> byte c1 < 160) \<and> valid_utf8 s2
         | _ \<Rightarrow> False)
      else if 240 \<le> byte b \<and> byte b < 245 then
        (case s of
           c1 # c2 # c3 # s3 \<Rightarrow>
             is_continuation c1 \<and> is_continuation c2 \<and> is_continuation c3
             \<and> (byte b = 240 \<longrightarrow> 144 \<le> byte c1) \<and> (byte b = 244 \<longrightarrow> byte c1 < 144) \<and> valid_utf8 s3
         | _ \<Rightarrow> False)
      else False)"

text \<open>The length of a character, from its first byte.\<close>

definition char_width :: "char \<Rightarrow> nat" where
  "char_width b = (if byte b < 128 then 1 else if byte b < 224 then 2 else if byte b < 240 then 3 else 4)"

definition char_indices :: "rstr \<Rightarrow> nat list" where
  "char_indices s = filter (\<lambda>i. \<not> is_continuation (s ! i)) [0..<length s]"

definition is_char_boundary :: "rstr \<Rightarrow> nat \<Rightarrow> bool" where
  "is_char_boundary s i \<longleftrightarrow> i = length s \<or> i < length s \<and> \<not> is_continuation (s ! i)"

definition slice :: "rstr \<Rightarrow> nat \<Rightarrow> nat \<Rightarrow> rstr option" where
  "slice s from to =
     (if from \<le> to \<and> is_char_boundary s from \<and> is_char_boundary s to
      then Some (take (to - from) (drop from s)) else None)"

lemma valid_utf8_hd: "valid_utf8 s \<Longrightarrow> s \<noteq> [] \<Longrightarrow> \<not> is_continuation (hd s)"
  by (cases s) (auto simp: is_continuation_def split: if_splits)

lemma continuation_not_ascii: "byte c < 128 \<Longrightarrow> \<not> is_continuation c"
  by (simp add: is_continuation_def)

text \<open>The first character of a valid text.\<close>

lemma valid_utf8_char:
  assumes "valid_utf8 (b # s)"
  obtains ch rest where "s = ch @ rest" "\<forall>x \<in> set ch. is_continuation x" "valid_utf8 rest" "Suc (length ch) = char_width b"
proof -
  consider "byte b < 128" | "\<not> byte b < 128" "194 \<le> byte b \<and> byte b < 224"
    | "\<not> byte b < 128" "224 \<le> byte b \<and> byte b < 240" | "\<not> byte b < 128" "240 \<le> byte b \<and> byte b < 245"
    | "\<not> byte b < 128" "\<not> (194 \<le> byte b \<and> byte b < 224)" "\<not> (224 \<le> byte b \<and> byte b < 240)"
        "\<not> (240 \<le> byte b \<and> byte b < 245)" by blast
  then show thesis
  proof cases
    case 1
    then show ?thesis using that[of "[]" s] assms by (simp add: char_width_def)
  next
    case 2
    then obtain c1 s1 where "s = [c1] @ s1" "is_continuation c1" "valid_utf8 s1"
      using assms by (cases s) simp_all
    then show ?thesis using 2 that[of "[c1]" s1] by (simp add: char_width_def)
  next
    case 3
    then have "valid_utf8 (b # s) \<longleftrightarrow> (case s of c1 # c2 # s2 \<Rightarrow>
             is_continuation c1 \<and> is_continuation c2 \<and> (byte b = 224 \<longrightarrow> 160 \<le> byte c1)
             \<and> (byte b = 237 \<longrightarrow> byte c1 < 160) \<and> valid_utf8 s2
         | _ \<Rightarrow> False)" by simp
    then obtain c1 c2 s2 where "s = [c1, c2] @ s2" "is_continuation c1" "is_continuation c2" "valid_utf8 s2"
      using assms by (cases s; cases "tl s") simp_all
    then show ?thesis using 3 that[of "[c1, c2]" s2] by (simp add: char_width_def)
  next
    case 4
    then have "valid_utf8 (b # s) \<longleftrightarrow> (case s of c1 # c2 # c3 # s3 \<Rightarrow>
             is_continuation c1 \<and> is_continuation c2 \<and> is_continuation c3
             \<and> (byte b = 240 \<longrightarrow> 144 \<le> byte c1) \<and> (byte b = 244 \<longrightarrow> byte c1 < 144) \<and> valid_utf8 s3
         | _ \<Rightarrow> False)" by simp
    then obtain c1 c2 c3 s3 where "s = [c1, c2, c3] @ s3" "is_continuation c1" "is_continuation c2"
        "is_continuation c3" "valid_utf8 s3"
      using assms by (cases s; cases "tl s"; cases "tl (tl s)") simp_all
    then show ?thesis using 4 that[of "[c1, c2, c3]" s3] by (simp add: char_width_def)
  next
    case 5
    then show ?thesis using assms by (simp only: valid_utf8.simps if_False)
  qed
qed

lemma valid_utf8_suffix:
  assumes "byte c < 128" "valid_utf8 (a @ c # b)"
  shows "valid_utf8 b"
  using assms(2)
proof (induction "length a" arbitrary: a rule: less_induct)
  case less
  show ?case
  proof (cases a)
    case Nil
    then have "valid_utf8 (c # b)" using less.prems by simp
    then show ?thesis using assms(1) by (elim valid_utf8_char) (simp add: char_width_def)
  next
    case (Cons x a1)
    then have "valid_utf8 (x # a1 @ c # b)" using less.prems by simp
    then obtain ch rest where r: "a1 @ c # b = ch @ rest" "\<forall>x \<in> set ch. is_continuation x" "valid_utf8 rest"
      by (rule valid_utf8_char)
    have "c \<notin> set ch" using r(2) continuation_not_ascii[OF assms(1)] by blast
    then obtain a2 where "rest = a2 @ c # b" "length a2 \<le> length a1"
      using r(1) by (auto simp: append_eq_append_conv2 Cons_eq_append_conv)
    then show ?thesis using less.hyps[of a2] r(3) Cons by simp
  qed
qed

lemma boundary_after_ascii:
  assumes "valid_utf8 s" "i < length s" "byte (s ! i) < 128"
  shows "is_char_boundary s (Suc i)" "is_char_boundary s i"
proof -
  have "valid_utf8 (drop (Suc i) s)"
    using assms valid_utf8_suffix[of "s ! i" "take i s" "drop (Suc i) s"] by (simp add: id_take_nth_drop[symmetric])
  then show "is_char_boundary s (Suc i)"
    using valid_utf8_hd[of "drop (Suc i) s"] assms(2) by (auto simp: is_char_boundary_def hd_drop_conv_nth)
  show "is_char_boundary s i" using assms(2,3) by (simp add: is_char_boundary_def is_continuation_def)
qed

lemma boundary_zero: "valid_utf8 s \<Longrightarrow> is_char_boundary s 0"
  using valid_utf8_hd[of s] by (cases s) (auto simp: is_char_boundary_def)

end
