(* ===== verification/Line_Index.thy ===== *)
theory Line_Index
  imports Utf8
begin

text \<open>
  The line index of diagnostics (\<open>crates/surge-ts-diagnostics/src/line_index.rs\<close>) and its
  equivalence with the naive scans the module's own tests compare it with.
\<close>

section \<open>The index\<close>

abbreviation newline :: char where
  "newline \<equiv> CHR 0x0A"

definition new_line_index :: "rstr \<Rightarrow> nat list" where
  "new_line_index source_text =
     0 # map Suc (filter (\<lambda>byte_index. source_text ! byte_index = newline) [0..<length source_text])"

text \<open>\<open>partition_point\<close> of an ascending list.\<close>

definition partition_point :: "(nat \<Rightarrow> bool) \<Rightarrow> nat list \<Rightarrow> nat" where
  "partition_point p xs = length (takeWhile p xs)"

definition line_col :: "nat list \<Rightarrow> rstr \<Rightarrow> nat \<Rightarrow> (nat \<times> nat) option" where
  "line_col line_starts source_text offset =
     (let target = min offset (length source_text);
          line_number = partition_point (\<lambda>start. start \<le> target) line_starts;
          line_start = line_starts ! (line_number - 1)
      in map_option (\<lambda>tail.
           (line_number,
            length (takeWhile (\<lambda>byte_index. line_start + byte_index < target) (char_indices tail)) + 1))
         (slice source_text line_start (length source_text)))"

definition line_bounds :: "nat list \<Rightarrow> rstr \<Rightarrow> nat \<Rightarrow> nat \<times> nat" where
  "line_bounds line_starts source_text offset =
     (let target = min offset (length source_text);
          line_number = partition_point (\<lambda>start. start \<le> target) line_starts;
          line_start = line_starts ! (line_number - 1);
          line_end = (if line_number < length line_starts then line_starts ! line_number - 1
                      else length source_text)
      in (line_start, line_end))"

definition line_text :: "nat list \<Rightarrow> rstr \<Rightarrow> nat \<Rightarrow> rstr option" where
  "line_text line_starts source_text offset =
     (let (line_start, line_end) = line_bounds line_starts source_text offset
      in slice source_text line_start line_end)"

section \<open>The naive scans\<close>

fun naive_loop :: "rstr \<Rightarrow> nat \<Rightarrow> nat list \<Rightarrow> nat \<times> nat \<Rightarrow> nat \<times> nat" where
  "naive_loop s target [] (line, column) = (line, column)"
| "naive_loop s target (byte_index # rest) (line, column) =
     (if target \<le> byte_index then (line, column)
      else naive_loop s target rest
             (if s ! byte_index = newline then (line + 1, 1) else (line, column + 1)))"

definition naive_line_col :: "rstr \<Rightarrow> nat \<Rightarrow> nat \<times> nat" where
  "naive_line_col source_text offset =
     naive_loop source_text (min offset (length source_text)) (char_indices source_text) (1, 1)"

section \<open>The scans in closed form\<close>

text \<open>The number of lines, the line start and the column before byte \<open>t\<close>.\<close>

definition lines_before :: "rstr \<Rightarrow> nat \<Rightarrow> nat" where
  "lines_before s t = length (filter (\<lambda>i. s ! i = newline) [0..<t])"

fun start_before :: "rstr \<Rightarrow> nat \<Rightarrow> nat" where
  "start_before s 0 = 0"
| "start_before s (Suc t) = (if s ! t = newline then Suc t else start_before s t)"

definition chars_between :: "rstr \<Rightarrow> nat \<Rightarrow> nat \<Rightarrow> nat" where
  "chars_between s a b = length (filter (\<lambda>i. \<not> is_continuation (s ! i)) [a..<b])"

lemma start_before_le: "start_before s t \<le> t"
  by (induction t) auto

lemma newline_no_continuation [simp]: "\<not> is_continuation newline"
  by (simp add: is_continuation_def)

lemma naive_loop_filter:
  "naive_loop s t (filter (\<lambda>i. \<not> is_continuation (s ! i)) [a..<b]) lc =
     foldl (\<lambda>(line, column) i. if s ! i = newline then (line + 1, 1) else (line, column + 1)) lc
       (filter (\<lambda>i. \<not> is_continuation (s ! i)) [a..<min t b])"
proof (induction "b - a" arbitrary: a lc)
  case 0
  then show ?case by (cases lc) simp
next
  case (Suc n)
  then have ab: "[a..<b] = a # [Suc a..<b]" by (simp add: upt_conv_Cons)
  have IH: "naive_loop s t (filter (\<lambda>i. \<not> is_continuation (s ! i)) [Suc a..<b]) lc =
     foldl (\<lambda>(line, column) i. if s ! i = newline then (line + 1, 1) else (line, column + 1)) lc
       (filter (\<lambda>i. \<not> is_continuation (s ! i)) [Suc a..<min t b])" for lc
    using Suc.hyps(1)[of "Suc a" lc] Suc.hyps(2) by simp
  show ?case
  proof (cases "a < t")
    case True
    then have "[a..<min t b] = a # [Suc a..<min t b]" using Suc.hyps(2) by (simp add: upt_conv_Cons)
    then show ?thesis using True IH ab by (cases lc) simp
  next
    case False
    have "naive_loop s t (filter (\<lambda>i. \<not> is_continuation (s ! i)) [a..<b]) lc = lc"
    proof (cases "filter (\<lambda>i. \<not> is_continuation (s ! i)) [a..<b]")
      case (Cons x xs)
      then have "x \<in> set [a..<b]" by (metis filter_is_subset list.set_intros(1) subsetD)
      then show ?thesis using Cons False by (cases lc) simp
    qed (cases lc, simp)
    then show ?thesis using False by simp
  qed
qed

lemma naive_closed:
  "foldl (\<lambda>(line, column) i. if s ! i = newline then (line + 1, 1) else (line, column + 1)) (1, 1)
     (filter (\<lambda>i. \<not> is_continuation (s ! i)) [0..<t]) =
   (lines_before s t + 1, chars_between s (start_before s t) t + 1)"
proof (induction t)
  case (Suc t)
  have "start_before s t \<le> t" by (rule start_before_le)
  then show ?case using Suc by (auto simp: lines_before_def chars_between_def)
qed (simp add: lines_before_def chars_between_def)

lemma naive_line_col_closed:
  "naive_line_col s offset =
     (let t = min offset (length s) in (lines_before s t + 1, chars_between s (start_before s t) t + 1))"
  unfolding naive_line_col_def char_indices_def naive_loop_filter Let_def
  by (simp only: naive_closed min.assoc min.idem)

section \<open>The index in closed form\<close>

lemma takeWhile_filter_upt:
  assumes "t \<le> n" "a \<le> t"
  shows "takeWhile (\<lambda>i. i < t) (filter P [a..<n]) = filter P [a..<t]"
proof -
  have "[a..<n] = [a..<t] @ [t..<n]" using assms by (metis le_add_diff_inverse upt_add_eq_append)
  moreover have "takeWhile (\<lambda>i. i < t) (filter P [t..<n]) = []" 
  proof -
    have "\<forall>x \<in> set (filter P [t..<n]). \<not> x < t" by auto
    then show ?thesis by (cases "filter P [t..<n]") auto
  qed
  ultimately show ?thesis by (simp add: takeWhile_append)
qed

lemma new_line_index_prefix:
  assumes "t \<le> length s"
  shows "takeWhile (\<lambda>start. start \<le> t) (new_line_index s) = 0 # map Suc (filter (\<lambda>i. s ! i = newline) [0..<t])"
  using takeWhile_filter_upt[OF assms, of 0 "\<lambda>i. s ! i = newline"]
  by (simp add: new_line_index_def takeWhile_map comp_def Suc_le_eq)

lemma line_number_closed:
  "t \<le> length s \<Longrightarrow> partition_point (\<lambda>start. start \<le> t) (new_line_index s) = lines_before s t + 1"
  by (simp add: partition_point_def new_line_index_prefix lines_before_def)

lemma last_start: "last (0 # map Suc (filter (\<lambda>i. s ! i = newline) [0..<t])) = start_before s t"
  by (induction t) auto

lemma line_start_closed:
  assumes "t \<le> length s"
  shows "new_line_index s ! lines_before s t = start_before s t"
proof -
  let ?p = "takeWhile (\<lambda>start. start \<le> t) (new_line_index s)"
  have "new_line_index s ! (length ?p - 1) = ?p ! (length ?p - 1)"
    using new_line_index_prefix[OF assms] by (intro takeWhile_nth[symmetric]) simp
  also have "\<dots> = last ?p" using new_line_index_prefix[OF assms] by (subst last_conv_nth) auto
  finally show ?thesis unfolding new_line_index_prefix[OF assms] last_start by (simp add: lines_before_def)
qed

lemma start_before_cases: "start_before s t = 0 \<or> (\<exists>i < t. start_before s t = Suc i \<and> s ! i = newline)"
  by (induction t) auto

lemma line_start_boundary:
  assumes "valid_utf8 s" "t \<le> length s"
  shows "is_char_boundary s (start_before s t)"
  using start_before_cases[of s t] assms boundary_zero boundary_after_ascii(1)[of s] by fastforce

lemma chars_tail:
  assumes "a \<le> t" "t \<le> length s"
  shows "length (takeWhile (\<lambda>i. a + i < t) (char_indices (drop a s))) = chars_between s a t"
proof -
  have "(\<lambda>i. a + i < t) = (\<lambda>i. i < t - a)" using assms(1) by (auto simp: fun_eq_iff)
  then have "takeWhile (\<lambda>i. a + i < t) (char_indices (drop a s)) =
      filter (\<lambda>i. \<not> is_continuation (drop a s ! i)) [0..<t - a]"
    using takeWhile_filter_upt[of "t - a" "length (drop a s)" 0] assms by (simp add: char_indices_def)
  also have "\<dots> = filter (\<lambda>i. \<not> is_continuation (s ! (i + a))) [0..<t - a]"
    using assms by (intro filter_cong) (auto simp: add.commute)
  also have "length \<dots> = length (filter (\<lambda>i. \<not> is_continuation (s ! i)) (map (\<lambda>i. i + a) [0..<t - a]))"
    by (simp add: filter_map comp_def)
  also have "map (\<lambda>i. i + a) [0..<t - a] = [a..<t]" using assms(1) map_add_upt[of a "t - a"] by simp
  finally show ?thesis by (simp add: chars_between_def)
qed

text \<open>
  C18. The line index agrees with a scan of the text from its beginning: for every valid UTF-8 text
  and every offset, also one inside a character or past the end, \<open>line_col\<close> on the index of the text
  does not panic and gives the line and the column the naive scan counts.
\<close>

theorem line_col_is_naive:
  assumes "valid_utf8 s"
  shows "line_col (new_line_index s) s offset = Some (naive_line_col s offset)"
proof -
  define t where "t = min offset (length s)"
  have t: "t \<le> length s" "start_before s t \<le> t" by (simp add: t_def) (rule start_before_le)
  then have "slice s (start_before s t) (length s) = Some (drop (start_before s t) s)"
    using line_start_boundary[OF assms t(1)] by (simp add: slice_def is_char_boundary_def)
  then show ?thesis
    unfolding line_col_def Let_def naive_line_col_closed t_def[symmetric] line_number_closed[OF t(1)]
    by (simp add: line_start_closed[OF t(1)] chars_tail[OF t(2,1)])
qed

theorem line_col_is_naive_witness:
  "valid_utf8 (''ab'' @ [newline, CHR 0xC3, CHR 0xA9] @ ''c'')
   \<and> line_col (new_line_index (''ab'' @ [newline, CHR 0xC3, CHR 0xA9] @ ''c'')) (''ab'' @ [newline, CHR 0xC3, CHR 0xA9] @ ''c'') 5
       = Some (2, 2)"
proof -
  let ?s = "''ab'' @ [newline, CHR 0xC3, CHR 0xA9] @ ''c''"
  have ok: "valid_utf8 ?s" by code_simp
  have "naive_line_col ?s 5 = (2, 2)" by code_simp
  then show ?thesis using ok line_col_is_naive[OF ok, of 5] by simp
qed

lemma first_newline:
  "t \<le> length s \<Longrightarrow> t + length (takeWhile (\<lambda>c. c \<noteq> newline) (drop t s)) =
     (case filter (\<lambda>i. s ! i = newline) [t..<length s] of [] \<Rightarrow> length s | i # _ \<Rightarrow> i)"
proof (induction "length s - t" arbitrary: t)
  case (Suc n)
  then have t: "t < length s" by simp
  then have "drop t s = s ! t # drop (Suc t) s" "[t..<length s] = t # [Suc t..<length s]"
    by (simp_all add: Cons_nth_drop_Suc upt_conv_Cons)
  then show ?case using Suc.hyps(1)[of "Suc t"] Suc.hyps(2) t by simp
qed simp

lemma line_bounds_closed:
  assumes "t = min offset (length s)"
  shows "line_bounds (new_line_index s) s offset =
    (start_before s t, t + length (takeWhile (\<lambda>c. c \<noteq> newline) (drop t s)))"
proof -
  have t: "t \<le> length s" using assms by simp
  let ?A = "filter (\<lambda>i. s ! i = newline) [0..<t]" and ?M = "filter (\<lambda>i. s ! i = newline) [t..<length s]"
  have "[0..<length s] = [0..<t] @ [t..<length s]" using t by (metis le_add_diff_inverse upt_add_eq_append zero_le)
  then have starts: "new_line_index s = 0 # map Suc (?A @ ?M)" by (simp add: new_line_index_def)
  have "(if lines_before s t + 1 < length (new_line_index s) then new_line_index s ! (lines_before s t + 1) - 1 else length s)
      = (case ?M of [] \<Rightarrow> length s | i # _ \<Rightarrow> i)"
    unfolding starts lines_before_def by (cases ?M) (simp_all add: nth_append)
  then show ?thesis
    unfolding line_bounds_def Let_def assms[symmetric] line_number_closed[OF t] first_newline[OF t]
    by (simp add: line_start_closed[OF t])
qed

lemma no_newline_between:
  assumes "start_before s t \<le> i" "i < t"
  shows "s ! i \<noteq> newline"
  using assms by (induction t) (auto split: if_splits simp: less_Suc_eq)

lemma takeWhile_stop: "length (takeWhile P xs) < length xs \<Longrightarrow> \<not> P (xs ! length (takeWhile P xs))"
  by (rule nth_length_takeWhile)

text \<open>
  The bounds of a line: for every valid UTF-8 text and every offset, \<open>line_bounds\<close> gives a range
  that contains the clamped offset, starts at the beginning of the text or after a newline, ends at
  the end of the text or before a newline, and has no newline inside; \<open>line_text\<close> slices exactly
  this range without a panic.
\<close>

theorem line_bounds_spec:
  assumes "valid_utf8 s" "line_bounds (new_line_index s) s offset = (a, b)"
  shows "a \<le> min offset (length s) \<and> min offset (length s) \<le> b \<and> b \<le> length s
    \<and> (a = 0 \<or> s ! (a - 1) = newline) \<and> (b = length s \<or> s ! b = newline)
    \<and> (\<forall>i. a \<le> i \<and> i < b \<longrightarrow> s ! i \<noteq> newline)
    \<and> line_text (new_line_index s) s offset = Some (take (b - a) (drop a s))"
proof -
  define t where "t = min offset (length s)"
  have t: "t \<le> length s" by (simp add: t_def)
  let ?k = "length (takeWhile (\<lambda>c. c \<noteq> newline) (drop t s))"
  have ab: "a = start_before s t" "b = t + ?k" using assms(2) line_bounds_closed[OF t_def] by simp_all
  have at: "a \<le> t" using start_before_le ab(1) by simp
  have b: "b \<le> length s" using t length_takeWhile_le[of "\<lambda>c. c \<noteq> newline" "drop t s"] ab(2) by simp
  have a0: "a = 0 \<or> s ! (a - 1) = newline" using start_before_cases[of s t] ab(1) by auto
  have bn: "b = length s \<or> s ! b = newline"
  proof (cases "b = length s")
    case False
    then have "?k < length (drop t s)" using b ab(2) by simp
    then show ?thesis using takeWhile_stop[of "\<lambda>c. c \<noteq> newline" "drop t s"] ab(2) t by simp
  qed simp
  have inside: "s ! i \<noteq> newline" if "a \<le> i" "i < b" for i
  proof (cases "i < t")
    case True
    then show ?thesis using no_newline_between ab(1) that(1) by simp
  next
    case False
    then have "takeWhile (\<lambda>c. c \<noteq> newline) (drop t s) ! (i - t) = s ! i" "i - t < ?k"
      using that(2) ab(2) b by (auto simp: takeWhile_nth)
    then show ?thesis using nth_mem[of "i - t" "takeWhile (\<lambda>c. c \<noteq> newline) (drop t s)"]
      by (auto dest: set_takeWhileD)
  qed
  have "is_char_boundary s a" using line_start_boundary[OF assms(1) t] ab(1) by simp
  moreover have "is_char_boundary s b"
    using bn b boundary_after_ascii(2)[OF assms(1), of b] by (auto simp: is_char_boundary_def)
  ultimately have "line_text (new_line_index s) s offset = Some (take (b - a) (drop a s))"
    using at ab(2) by (simp add: line_text_def assms(2) slice_def)
  then show ?thesis using at ab(2) b a0 bn inside unfolding t_def[symmetric] by auto
qed

theorem line_bounds_spec_witness:
  "line_bounds (new_line_index (''ab'' @ [newline] @ ''cd'')) (''ab'' @ [newline] @ ''cd'') 4 = (3, 5)
   \<and> line_text (new_line_index (''ab'' @ [newline] @ ''cd'')) (''ab'' @ [newline] @ ''cd'') 4 = Some ''cd''"
proof -
  let ?s = "''ab'' @ [newline] @ ''cd''"
  have ok: "valid_utf8 ?s" and b: "line_bounds (new_line_index ?s) ?s 4 = (3, 5)" by code_simp+
  show ?thesis using b line_bounds_spec[OF ok b] by simp
qed

end
