(* ===== verification/Paths.thy ===== *)
theory Paths
  imports Utf8
begin

text \<open>
  Textual path handling: \<open>normalize_path_buf\<close> of \<open>crates/surge-ts-config/src/paths.rs\<close>, which
  \<open>crates/surge-ts-checker/src/paths.rs\<close> repeats, and the memoised canonicalisation of both.

  A path is its UTF-8 text (\<open>to_string_lossy\<close> and \<open>PathBuf::from\<close> are the identity on it); paths are
  Unix paths. The realpath of the operating system is a parameter. The leaf-probe shortcut
  \<open>resolve_via_parent\<close> is compiled for macOS only and not modelled: elsewhere it is \<open>None\<close>.
\<close>

section \<open>Normalisation\<close>

text \<open>\<open>path.chars().nth(1) == Some(':')\<close>\<close>

definition second_char_is_colon :: "rstr \<Rightarrow> bool" where
  "second_char_is_colon s = (case s of [] \<Rightarrow> False | b # _ \<Rightarrow> starts_with (drop (char_width b) s) '':'')"

fun normalize_segments :: "bool \<Rightarrow> rstr list \<Rightarrow> rstr list \<Rightarrow> rstr list" where
  "normalize_segments rooted stack [] = rev stack"
| "normalize_segments rooted stack (segment # rest) =
     (if segment = [] \<or> segment = ''.'' then normalize_segments rooted stack rest
      else if segment = ''..'' then
        (case stack of
           last_seg # stack' \<Rightarrow>
             if last_seg \<noteq> ''..'' then normalize_segments rooted stack' rest
             else if \<not> rooted then normalize_segments rooted (segment # stack) rest
             else normalize_segments rooted stack rest
         | [] \<Rightarrow>
             if \<not> rooted then normalize_segments rooted (segment # stack) rest
             else normalize_segments rooted stack rest)
      else normalize_segments rooted (segment # stack) rest)"

definition replace_char :: "char \<Rightarrow> char \<Rightarrow> rstr \<Rightarrow> rstr" where
  "replace_char a b s = map (\<lambda>c. if c = a then b else c) s"

text \<open>The drive prefix \<open>&path[0..2]\<close> and the rest; both slices panic off a character boundary.\<close>

definition split_drive :: "rstr \<Rightarrow> (rstr \<times> rstr) option" where
  "split_drive path =
     (if second_char_is_colon path
      then Option.bind (slice path 0 2) (\<lambda>drive. map_option (\<lambda>rest. (drive, rest)) (slice path 2 (length path)))
      else Some ([], path))"

definition assemble_path :: "bool \<Rightarrow> rstr \<Rightarrow> rstr \<Rightarrow> rstr" where
  "assemble_path is_absolute drive_letter path_to_split =
     (let segments = normalize_segments (is_absolute \<or> drive_letter \<noteq> []) [] (split_on (CHR ''/'') path_to_split);
          result = (if drive_letter \<noteq> []
                    then drive_letter @ (if starts_with path_to_split ''/'' then ''/'' else [])
                    else if is_absolute then ''/'' else []) @ join_with ''/'' segments
      in if result = [] then (if is_absolute then ''/'' else ''.'') else result)"

definition normalize_path_buf :: "rstr \<Rightarrow> rstr option" where
  "normalize_path_buf raw =
     (let path = replace_char (CHR 0x5C) (CHR ''/'') raw
      in map_option (\<lambda>(drive_letter, path_to_split).
           assemble_path (starts_with path ''/'') drive_letter path_to_split)
         (split_drive path))"

definition normalize_path_string :: "rstr \<Rightarrow> rstr option" where
  "normalize_path_string path = map_option (replace_char (CHR 0x5C) (CHR ''/'')) (normalize_path_buf path)"

section \<open>Joining\<close>

definition is_absolute_path :: "rstr \<Rightarrow> bool" where
  "is_absolute_path path = starts_with path ''/''"

definition path_join :: "rstr \<Rightarrow> rstr \<Rightarrow> rstr" where
  "path_join base path =
     (if is_absolute_path path then path
      else if base = [] \<or> ends_with base ''/'' then base @ path
      else base @ ''/'' @ path)"

definition resolve_path :: "rstr \<Rightarrow> rstr \<Rightarrow> rstr" where
  "resolve_path base_dir raw = (if is_absolute_path raw then raw else path_join base_dir raw)"

definition absolutize :: "rstr option \<Rightarrow> rstr \<Rightarrow> rstr" where
  "absolutize current_dir path =
     (if is_absolute_path path then path
      else case current_dir of Some cwd \<Rightarrow> path_join cwd path | None \<Rightarrow> path)"

section \<open>Memoised canonicalisation\<close>

record canon_entry =
  canonical :: rstr
  canonical_str :: rstr
  resolved :: bool

definition new_entry :: "rstr \<Rightarrow> bool \<Rightarrow> canon_entry" where
  "new_entry path ok = \<lparr>canonical = path, canonical_str = replace_char (CHR 0x5C) (CHR ''/'') path, resolved = ok\<rparr>"

definition full_realpath_entry :: "(rstr \<Rightarrow> rstr option) \<Rightarrow> rstr \<Rightarrow> canon_entry option" where
  "full_realpath_entry realpath path =
     (case realpath path of
        Some real \<Rightarrow> map_option (\<lambda>p. new_entry p True) (normalize_path_buf real)
      | None \<Rightarrow> map_option (\<lambda>p. new_entry p False) (normalize_path_buf path))"

definition with_canonical_entry ::
    "(rstr \<Rightarrow> rstr option) \<Rightarrow> rstr \<Rightarrow> (rstr \<rightharpoonup> canon_entry) \<Rightarrow> (canon_entry \<times> (rstr \<rightharpoonup> canon_entry)) option" where
  "with_canonical_entry realpath path cache =
     (case cache path of
        Some cached \<Rightarrow> Some (cached, cache)
      | None \<Rightarrow> map_option (\<lambda>entry. (entry, cache(path \<mapsto> entry))) (full_realpath_entry realpath path))"

definition canonicalize_if_exists ::
    "(rstr \<Rightarrow> rstr option) \<Rightarrow> rstr \<Rightarrow> (rstr \<rightharpoonup> canon_entry) \<Rightarrow> (rstr \<times> (rstr \<rightharpoonup> canon_entry)) option" where
  "canonicalize_if_exists realpath path cache =
     map_option (\<lambda>(entry, cache'). (canonical entry, cache')) (with_canonical_entry realpath path cache)"

definition canonicalize_if_exists_string ::
    "(rstr \<Rightarrow> rstr option) \<Rightarrow> rstr \<Rightarrow> (rstr \<rightharpoonup> canon_entry) \<Rightarrow> (rstr \<times> (rstr \<rightharpoonup> canon_entry)) option" where
  "canonicalize_if_exists_string realpath path cache =
     map_option (\<lambda>(entry, cache'). (canonical_str entry, cache')) (with_canonical_entry realpath path cache)"

end
