(* ===== verification/Path_Laws.thy ===== *)
theory Path_Laws
  imports Paths
begin

text \<open>
  Laws of path normalisation and of the canonicalisation memo. The meaning of a path is where it
  leads: a walk from a directory, given by the names on the way to it, the innermost first.
\<close>

section \<open>Where a path leads\<close>

definition enter_segment :: "rstr \<Rightarrow> rstr list \<Rightarrow> rstr list" where
  "enter_segment segment dir =
     (if segment = [] \<or> segment = ''.'' then dir else if segment = ''..'' then tl dir else segment # dir)"

definition leads_to :: "rstr list \<Rightarrow> rstr list \<Rightarrow> rstr list" where
  "leads_to dir segments = fold enter_segment segments dir"

lemma leads_to_simps [simp]:
  "leads_to dir [] = dir" "leads_to dir (s # ss) = leads_to (enter_segment s dir) ss"
  "leads_to dir (ss @ ts) = leads_to (leads_to dir ss) ts"
  by (simp_all add: leads_to_def)

text \<open>The stack of \<open>normalize_segments\<close>: names and, in a relative path, leading parent steps.\<close>

definition is_name :: "rstr \<Rightarrow> bool" where
  "is_name s \<longleftrightarrow> s \<noteq> [] \<and> s \<noteq> ''.'' \<and> s \<noteq> ''..'' \<and> CHR ''/'' \<notin> set s"

definition clean_stack :: "bool \<Rightarrow> rstr list \<Rightarrow> bool" where
  "clean_stack rooted stack \<longleftrightarrow>
     (\<exists>names k. stack = names @ replicate k ''..'' \<and> (\<forall>s \<in> set names. is_name s) \<and> (rooted \<longrightarrow> k = 0))"

lemma clean_push: "clean_stack rooted stack \<Longrightarrow> is_name s \<Longrightarrow> clean_stack rooted (s # stack)"
  unfolding clean_stack_def by (metis append_Cons set_ConsD)

lemma clean_pop: "clean_stack rooted (s # stack) \<Longrightarrow> s \<noteq> ''..'' \<Longrightarrow> clean_stack rooted stack \<and> is_name s"
  unfolding clean_stack_def
proof (elim exE conjE)
  fix names k
  assume *: "s \<noteq> ''..''" "s # stack = names @ replicate k ''..''" "\<forall>s \<in> set names. is_name s" "rooted \<longrightarrow> k = 0"
  then obtain names' where "names = s # names'" "stack = names' @ replicate k ''..''"
    by (cases names; cases k) auto
  then show "(\<exists>names k. stack = names @ replicate k ''..'' \<and> (\<forall>s \<in> set names. is_name s) \<and> (rooted \<longrightarrow> k = 0)) \<and> is_name s"
    using * by auto
qed

lemma clean_parent:
  assumes "clean_stack False stack" "stack = [] \<or> hd stack = ''..''"
  shows "clean_stack False (''..'' # stack)"
proof -
  obtain names k where n: "stack = names @ replicate k ''..''" "\<forall>s \<in> set names. is_name s"
    using assms(1) by (auto simp: clean_stack_def)
  then have "names = []" using assms(2) by (cases names) (auto simp: is_name_def)
  then have "''..'' # stack = [] @ replicate (Suc k) ''..''" using n by simp
  then show ?thesis unfolding clean_stack_def by fastforce
qed

lemma clean_rooted: "clean_stack True stack \<Longrightarrow> s \<in> set stack \<Longrightarrow> is_name s"
  by (auto simp: clean_stack_def)

text \<open>One segment.\<close>

definition next_stack :: "bool \<Rightarrow> rstr \<Rightarrow> rstr list \<Rightarrow> rstr list" where
  "next_stack rooted seg stack = rev (normalize_segments rooted stack [seg])"

lemma normalize_segments_fold: "normalize_segments rooted stack segs = rev (fold (next_stack rooted) segs stack)"
proof -
  have "normalize_segments rooted stack (seg # rest) = normalize_segments rooted (next_stack rooted seg stack) rest"
    for stack seg rest by (simp add: next_stack_def split: list.split)
  then show ?thesis by (induction segs arbitrary: stack) simp_all
qed

lemma next_stack_spec:
  assumes "clean_stack rooted stack" "CHR ''/'' \<notin> set seg" "rooted \<longrightarrow> dir = []"
  shows "clean_stack rooted (next_stack rooted seg stack)
    \<and> leads_to dir (rev (next_stack rooted seg stack)) = enter_segment seg (leads_to dir (rev stack))"
proof -
  consider (skip) "seg = [] \<or> seg = ''.''" | (name) "is_name seg"
    | (pop) t ts where "seg = ''..''" "stack = t # ts" "t \<noteq> ''..''"
    | (parent) "seg = ''..''" "stack = [] \<or> hd stack = ''..''" "\<not> rooted"
    | (root) "seg = ''..''" "stack = [] \<or> hd stack = ''..''" "rooted"
    using assms(2) by (cases stack) (auto simp: is_name_def)
  then show ?thesis
  proof cases
    case skip
    then show ?thesis using assms by (auto simp: next_stack_def enter_segment_def)
  next
    case name
    then show ?thesis using assms clean_push[OF assms(1) name]
      by (simp add: next_stack_def enter_segment_def is_name_def)
  next
    case pop
    then have "is_name t" "clean_stack rooted ts" using clean_pop[of rooted t ts] assms(1) by auto
    then show ?thesis using pop by (simp add: next_stack_def enter_segment_def is_name_def)
  next
    case parent
    then have "clean_stack False (''..'' # stack)" using clean_parent assms(1) by simp
    then show ?thesis using parent by (cases stack) (auto simp: next_stack_def enter_segment_def)
  next
    case root
    then have "stack = []" using clean_rooted[of stack "''..''"] assms(1) by (cases stack) (auto simp: is_name_def)
    then show ?thesis using root assms by (simp add: next_stack_def enter_segment_def)
  qed
qed

lemma fold_next_stack:
  assumes "clean_stack rooted stack" "\<forall>s \<in> set segs. CHR ''/'' \<notin> set s" "rooted \<longrightarrow> dir = []"
  shows "clean_stack rooted (fold (next_stack rooted) segs stack)
    \<and> leads_to dir (rev (fold (next_stack rooted) segs stack)) = leads_to (leads_to dir (rev stack)) segs"
  using assms
proof (induction segs arbitrary: stack)
  case (Cons seg segs)
  then show ?case using next_stack_spec[of rooted stack seg dir] by simp
qed simp

text \<open>A clean stack is a normal form: the loop leaves it as it is.\<close>

lemma fold_next_stack_clean:
  assumes "clean_stack rooted stack"
  shows "fold (next_stack rooted) (rev stack) [] = stack"
proof -
  obtain names k where n: "stack = names @ replicate k ''..''" "\<forall>s \<in> set names. is_name s" "rooted \<longrightarrow> k = 0"
    using assms by (auto simp: clean_stack_def)
  have parents: "fold (next_stack rooted) (replicate k ''..'') [] = replicate k ''..''" if "rooted \<longrightarrow> k = 0" for k
    using that
  proof (induction k)
    case (Suc k)
    have r: "replicate (Suc k) ''..'' = replicate k ''..'' @ [''..'']" by (simp add: replicate_append_same)
    have "fold (next_stack rooted) (replicate k ''..'') [] = replicate k ''..''" using Suc by blast
    then have "fold (next_stack rooted) (replicate (Suc k) ''..'') [] = next_stack rooted ''..'' (replicate k ''..'')"
      by (simp only: r fold_append fold_simps comp_apply)
    also have "\<dots> = replicate (Suc k) ''..''" using Suc.prems by (cases k) (simp_all add: next_stack_def)
    finally show ?case .
  qed simp
  have "fold (next_stack rooted) (rev names) st = names @ st" for st
    using n(2) by (induction names) (auto simp: next_stack_def is_name_def)
  then show ?thesis using parents[OF n(3)] n(1) by simp
qed

section \<open>Normal forms\<close>

lemma split_no_slash: "\<forall>s \<in> set (split_on (CHR ''/'') p). CHR ''/'' \<notin> set s"
  by (auto dest: split_on_pieces)

lemma clean_no_slash: "clean_stack rooted stack \<Longrightarrow> s \<in> set stack \<Longrightarrow> CHR ''/'' \<notin> set s"
proof -
  assume "clean_stack rooted stack" "s \<in> set stack"
  then have "is_name s \<or> s = ''..''" by (auto simp: clean_stack_def)
  then show ?thesis by (auto simp: is_name_def)
qed

lemma normalize_stack:
  obtains stack where "clean_stack rooted stack"
    "normalize_segments rooted [] (split_on (CHR ''/'') p) = rev stack"
    "\<And>dir. rooted \<longrightarrow> dir = [] \<Longrightarrow> leads_to dir (rev stack) = leads_to dir (split_on (CHR ''/'') p)"
proof -
  have clean: "clean_stack rooted []" by (simp add: clean_stack_def)
  let ?stack = "fold (next_stack rooted) (split_on (CHR ''/'') p) []"
  show thesis
    by (rule that[of ?stack])
      (use fold_next_stack[OF clean split_no_slash] in \<open>auto simp: normalize_segments_fold\<close>)
qed

lemma split_on_subset: "p \<in> set (split_on c s) \<Longrightarrow> set p \<subseteq> set s"
  by (induction s arbitrary: p) (fastforce split: list.splits if_splits)+

lemma next_stack_subset: "set (next_stack rooted seg stack) \<subseteq> insert seg (set stack)"
  by (auto simp: next_stack_def split: list.splits if_splits)

lemma fold_next_stack_subset: "set (fold (next_stack rooted) segs stack) \<subseteq> set segs \<union> set stack"
proof (induction segs arbitrary: stack)
  case (Cons seg segs)
  then show ?case using next_stack_subset[of rooted seg stack] by fastforce
qed simp

lemma normalize_segments_chars:
  assumes "s \<in> set (normalize_segments rooted [] (split_on c p))"
  shows "set s \<subseteq> set p"
proof -
  have "s \<in> set (split_on c p)"
    using assms fold_next_stack_subset[of rooted "split_on c p" "[]"] by (auto simp: normalize_segments_fold)
  then show ?thesis by (rule split_on_subset)
qed

lemma join_with_chars: "set (join_with sep segs) \<subseteq> set sep \<union> (\<Union>s \<in> set segs. set s)"
  by (induction sep segs rule: join_with.induct) auto

abbreviation slashed :: "rstr \<Rightarrow> rstr" where
  "slashed p \<equiv> replace_char (CHR 0x5C) (CHR ''/'') p"

lemma slashed_id: "CHR 0x5C \<notin> set p \<Longrightarrow> slashed p = p"
  by (auto simp: replace_char_def intro: map_idI)

lemma slashed_no_backslash: "CHR 0x5C \<notin> set (slashed p)"
  by (auto simp: replace_char_def)

lemma split_join_segments:
  assumes "\<forall>s \<in> set segs. s \<noteq> [] \<and> CHR ''/'' \<notin> set s"
  shows "split_on (CHR ''/'') (join_with ''/'' segs) = (if segs = [] then [[]] else segs)"
  using assms by (cases "segs = []") (auto simp: split_on_join)

lemma join_segments_start:
  assumes "\<forall>s \<in> set segs. s \<noteq> [] \<and> CHR ''/'' \<notin> set s"
  shows "\<not> starts_with (join_with ''/'' segs) ''/''" "join_with ''/'' segs = [] \<longleftrightarrow> segs = []"
  using assms by (cases segs; cases "hd segs"; cases "tl segs"; auto)+

lemma clean_segments:
  assumes "clean_stack rooted stack"
  shows "\<forall>s \<in> set (rev stack). s \<noteq> [] \<and> CHR ''/'' \<notin> set s"
proof
  fix s assume "s \<in> set (rev stack)"
  then have "is_name s \<or> s = ''..''" using assms by (auto simp: clean_stack_def)
  then show "s \<noteq> [] \<and> CHR ''/'' \<notin> set s" by (auto simp: is_name_def)
qed

lemma normalize_plain:
  assumes plain: "\<not> second_char_is_colon (slashed p)"
  obtains stack where "clean_stack (is_absolute_path (slashed p)) stack"
    "normalize_path_buf p = Some (if is_absolute_path (slashed p) then ''/'' @ join_with ''/'' (rev stack)
       else if stack = [] then ''.'' else join_with ''/'' (rev stack))"
    "\<And>dir. is_absolute_path (slashed p) \<longrightarrow> dir = [] \<Longrightarrow>
       leads_to dir (rev stack) = leads_to dir (split_on (CHR ''/'') (slashed p))"
proof (rule normalize_stack[of "is_absolute_path (slashed p)" "slashed p"])
  fix stack
  assume s: "clean_stack (is_absolute_path (slashed p)) stack"
    "normalize_segments (is_absolute_path (slashed p)) [] (split_on (CHR ''/'') (slashed p)) = rev stack"
    "\<And>dir. is_absolute_path (slashed p) \<longrightarrow> dir = [] \<Longrightarrow>
       leads_to dir (rev stack) = leads_to dir (split_on (CHR ''/'') (slashed p))"
  have "join_with ''/'' (rev stack) = [] \<longleftrightarrow> stack = []" using join_segments_start(2)[OF clean_segments[OF s(1)]] by simp
  then have "normalize_path_buf p = Some (if is_absolute_path (slashed p) then ''/'' @ join_with ''/'' (rev stack)
       else if stack = [] then ''.'' else join_with ''/'' (rev stack))"
    using plain s(2) by (cases "is_absolute_path (slashed p)")
      (auto simp: normalize_path_buf_def split_drive_def assemble_path_def is_absolute_path_def Let_def)
  then show thesis using that s(1,3) by blast
qed

lemma leads_to_join:
  assumes "clean_stack rooted stack"
  shows "leads_to dir (split_on (CHR ''/'') (join_with ''/'' (rev stack))) = leads_to dir (rev stack)"
  by (simp add: split_join_segments[OF clean_segments[OF assms]] enter_segment_def)

lemma split_slash: "split_on (CHR ''/'') (''/'' @ s) = [] # split_on (CHR ''/'') s"
  by simp

text \<open>
  C19. Normalisation keeps the meaning of a path: a path without a drive prefix normalises without a
  panic to a path of the same kind, absolute or relative, that leads to the same place, from the
  root for an absolute path and from every directory for a relative one.
\<close>

theorem normalize_keeps_target:
  assumes "\<not> second_char_is_colon (slashed p)"
  shows "\<exists>q. normalize_path_buf p = Some q \<and> is_absolute_path q = is_absolute_path (slashed p)
    \<and> (\<forall>dir. (is_absolute_path (slashed p) \<longrightarrow> dir = []) \<longrightarrow>
         leads_to dir (split_on (CHR ''/'') q) = leads_to dir (split_on (CHR ''/'') (slashed p)))"
proof (rule normalize_plain[OF assms])
  fix stack
  let ?abs = "is_absolute_path (slashed p)"
  let ?q = "if ?abs then ''/'' @ join_with ''/'' (rev stack) else if stack = [] then ''.'' else join_with ''/'' (rev stack)"
  assume clean: "clean_stack ?abs stack" and q: "normalize_path_buf p = Some ?q"
    and leads: "\<And>dir. ?abs \<longrightarrow> dir = [] \<Longrightarrow> leads_to dir (rev stack) = leads_to dir (split_on (CHR ''/'') (slashed p))"
  have "is_absolute_path ?q = ?abs"
    using join_segments_start(1)[OF clean_segments[OF clean]] by (simp add: is_absolute_path_def)
  moreover have "leads_to dir (split_on (CHR ''/'') ?q) = leads_to dir (rev stack)" for dir
    using leads_to_join[OF clean, of dir] by (auto simp: split_slash enter_segment_def simp del: append.simps)
  ultimately show ?thesis using q leads by auto
qed

theorem normalize_keeps_target_witness:
  "normalize_path_buf ''src/./a/../b'' = Some ''src/b''
   \<and> leads_to [''root''] (split_on (CHR ''/'') ''src/b'') = leads_to [''root''] (split_on (CHR ''/'') ''src/./a/../b'')"
proof -
  have plain: "\<not> second_char_is_colon (slashed ''src/./a/../b'')" by code_simp
  have q: "normalize_path_buf ''src/./a/../b'' = Some ''src/b''" and rel: "\<not> is_absolute_path (slashed ''src/./a/../b'')"
    and same: "slashed ''src/./a/../b'' = ''src/./a/../b''" by code_simp+
  show ?thesis using q rel same normalize_keeps_target[OF plain] by auto
qed

lemma normalize_segments_join:
  assumes "clean_stack rooted stack"
  shows "normalize_segments rooted [] (split_on (CHR ''/'') (join_with ''/'' (rev stack))) = rev stack"
    and "normalize_segments rooted [] (split_on (CHR ''/'') (''/'' @ join_with ''/'' (rev stack))) = rev stack"
proof -
  have "fold (next_stack rooted) (split_on (CHR ''/'') (join_with ''/'' (rev stack))) [] = stack"
    using fold_next_stack_clean[OF assms]
    by (simp add: split_join_segments[OF clean_segments[OF assms]] next_stack_def)
  then show *: "normalize_segments rooted [] (split_on (CHR ''/'') (join_with ''/'' (rev stack))) = rev stack"
    by (simp add: normalize_segments_fold)
  then show "normalize_segments rooted [] (split_on (CHR ''/'') (''/'' @ join_with ''/'' (rev stack))) = rev stack"
    unfolding split_slash by simp
qed

text \<open>Backslashes are gone after normalisation.\<close>

lemma assemble_no_backslash:
  assumes "CHR 0x5C \<notin> set d" "CHR 0x5C \<notin> set t"
  shows "CHR 0x5C \<notin> set (assemble_path absolute d t)"
proof -
  have "CHR 0x5C \<notin> set (join_with ''/'' (normalize_segments r [] (split_on (CHR ''/'') t)))" for r
  proof -
    have "(\<Union>s \<in> set (normalize_segments r [] (split_on (CHR ''/'') t)). set s) \<subseteq> set t"
      using normalize_segments_chars by blast
    then have "set (join_with ''/'' (normalize_segments r [] (split_on (CHR ''/'') t))) \<subseteq> set ''/'' \<union> set t"
      by (rule subset_trans[OF join_with_chars Un_mono[OF subset_refl]])
    moreover have "CHR 0x5C \<notin> set ''/'' \<union> set t" using assms(2) by simp
    ultimately show ?thesis by (rule contra_subsetD)
  qed
  then show ?thesis using assms(1) by (simp add: assemble_path_def Let_def)
qed

lemma split_drive_chars: "split_drive path = Some (d, t) \<Longrightarrow> set d \<subseteq> set path \<and> set t \<subseteq> set path"
  by (auto simp: split_drive_def slice_def bind_eq_Some_conv split: if_splits dest: in_set_takeD in_set_dropD)

lemma normalize_no_backslash:
  assumes "normalize_path_buf p = Some q"
  shows "CHR 0x5C \<notin> set q"
proof -
  obtain d t where dt: "split_drive (slashed p) = Some (d, t)" "q = assemble_path (starts_with (slashed p) ''/'') d t"
    using assms by (auto simp: normalize_path_buf_def Let_def)
  show ?thesis unfolding dt(2)
    using split_drive_chars[OF dt(1)] slashed_no_backslash[of p] by (intro assemble_no_backslash) auto
qed

lemma second_char_drive: "byte d < 128 \<Longrightarrow> second_char_is_colon (d # CHR '':'' # rest)"
  by (simp add: second_char_is_colon_def char_width_def)

lemma slice_drive:
  assumes "byte d < 128"
  shows "split_drive (d # CHR '':'' # CHR ''/'' # rest) = Some ([d, CHR '':''], CHR ''/'' # rest)"
  using assms second_char_drive[OF assms, of "CHR ''/'' # rest"]
  by (simp add: split_drive_def slice_def is_char_boundary_def is_continuation_def numeral_2_eq_2)

text \<open>
  Normalisation is idempotent: the normal form of a path is its own normal form, for every path
  without a drive prefix whose normal form does not look like one, and for every absolute path on a
  drive.
\<close>

theorem normalize_idempotent:
  assumes q: "normalize_path_buf p = Some q"
    and shape: "\<not> second_char_is_colon (slashed p) \<and> \<not> second_char_is_colon q
      \<or> (\<exists>d rest. slashed p = d # CHR '':'' # CHR ''/'' # rest \<and> byte d < 128)"
  shows "normalize_path_buf q = Some q"
  using shape
proof (elim disjE conjE exE)
  assume plain: "\<not> second_char_is_colon (slashed p)" "\<not> second_char_is_colon q"
  have slq: "slashed q = q" using slashed_id[OF normalize_no_backslash[OF q]] .
  show ?thesis
  proof (rule normalize_plain[OF plain(1)])
    fix stack
    let ?abs = "is_absolute_path (slashed p)"
    assume clean: "clean_stack ?abs stack" and q': "normalize_path_buf p = Some (if ?abs then ''/'' @ join_with ''/'' (rev stack)
        else if stack = [] then ''.'' else join_with ''/'' (rev stack))"
    then have q'': "q = (if ?abs then ''/'' @ join_with ''/'' (rev stack)
        else if stack = [] then ''.'' else join_with ''/'' (rev stack))" using q by simp
    have "starts_with q ''/'' = ?abs"
      using join_segments_start(1)[OF clean_segments[OF clean]] by (simp add: q'')
    then have "normalize_path_buf q = Some (assemble_path ?abs [] q)"
      using plain(2) by (simp add: normalize_path_buf_def slq split_drive_def)
    moreover have "assemble_path ?abs [] q = q"
      using normalize_segments_join[OF clean] join_segments_start(2)[OF clean_segments[OF clean]]
      by (auto simp: assemble_path_def q'' Let_def)
    ultimately show ?thesis by simp
  qed
next
  fix d rest assume p: "slashed p = d # CHR '':'' # CHR ''/'' # rest" "byte d < 128"
  let ?segs = "normalize_segments True [] (split_on (CHR ''/'') (CHR ''/'' # rest))"
  obtain stack where stack: "clean_stack True stack" "?segs = rev stack"
    by (rule normalize_stack[of True "CHR ''/'' # rest"])
  have "d \<noteq> CHR ''/'' \<Longrightarrow> q = [d, CHR '':''] @ ''/'' @ join_with ''/'' (rev stack)" and
    "d = CHR ''/'' \<Longrightarrow> q = [d, CHR '':''] @ ''/'' @ join_with ''/'' (rev stack)"
    using q stack(2) by (simp_all add: normalize_path_buf_def p slice_drive assemble_path_def Let_def)
  then have q': "q = d # CHR '':'' # CHR ''/'' # join_with ''/'' (rev stack)" by fastforce
  have "slashed q = q" using slashed_id[OF normalize_no_backslash[OF q]] .
  then show ?thesis using normalize_segments_join(2)[OF stack(1)] p(2)
    by (simp add: normalize_path_buf_def q' slice_drive assemble_path_def Let_def)
qed

theorem normalize_idempotent_witness:
  "normalize_path_buf ''C:/x/../y'' = Some ''C:/y'' \<and> normalize_path_buf ''C:/y'' = Some ''C:/y''"
proof -
  have q: "normalize_path_buf ''C:/x/../y'' = Some ''C:/y''" by code_simp
  have "slashed ''C:/x/../y'' = CHR ''C'' # CHR '':'' # CHR ''/'' # ''x/../y''" "byte (CHR ''C'') < 128" by code_simp+
  then show ?thesis using q normalize_idempotent[OF q] by blast
qed

text \<open>
  Where normalisation panics: on a valid UTF-8 path exactly if its second character is a colon
  and its first takes three or four bytes, because the drive prefix is sliced at byte 2 while the
  colon was found at character 1.
\<close>

theorem normalize_panics_iff:
  assumes "valid_utf8 (slashed p)"
  shows "normalize_path_buf p = None \<longleftrightarrow>
    second_char_is_colon (slashed p) \<and> 3 \<le> char_width (hd (slashed p))"
proof (cases "second_char_is_colon (slashed p)")
  case True
  then obtain b s where path: "slashed p = b # s" by (cases "slashed p") (auto simp: second_char_is_colon_def)
  obtain ch rest where ch: "s = ch @ rest" "\<forall>x \<in> set ch. is_continuation x" "Suc (length ch) = char_width b"
    by (rule valid_utf8_char[of b s]) (use assms path in simp_all)
  have "starts_with rest '':''" using True ch(1) unfolding ch(3)[symmetric] path second_char_is_colon_def
    by (simp add: path ch(3)[symmetric])
  then obtain r where r: "rest = CHR '':'' # r" by (cases rest) auto
  have zero: "is_char_boundary (slashed p) 0" using boundary_zero[OF assms] .
  have two: "is_char_boundary (slashed p) 2 \<longleftrightarrow> char_width b < 3"
  proof (cases ch)
    case Nil
    then have "byte (slashed p ! 1) < 128" "1 < length (slashed p)" using path ch(1) r by simp_all
    then show ?thesis using boundary_after_ascii(1)[OF assms, of 1] ch(3) Nil by (simp add: numeral_2_eq_2)
  next
    case (Cons c1 ch1)
    then show ?thesis using path ch r
      by (cases ch1) (auto simp: is_char_boundary_def is_continuation_def numeral_2_eq_2)
  qed
  have "2 \<le> length (slashed p)" using path ch(1) r by simp
  then have "split_drive (slashed p) = None \<longleftrightarrow> \<not> char_width b < 3"
    using True zero two by (auto simp: split_drive_def slice_def is_char_boundary_def)
  then show ?thesis using True path by (auto simp: normalize_path_buf_def Let_def)
qed (auto simp: normalize_path_buf_def split_drive_def Let_def)

theorem normalize_panics_iff_witness:
  "normalize_path_buf ([CHR 0xED, CHR 0x95, CHR 0x9C] @ '':x'') = None"
proof -
  have ok: "valid_utf8 (slashed ([CHR 0xED, CHR 0x95, CHR 0x9C] @ '':x''))"
    "second_char_is_colon (slashed ([CHR 0xED, CHR 0x95, CHR 0x9C] @ '':x''))"
    "3 \<le> char_width (hd (slashed ([CHR 0xED, CHR 0x95, CHR 0x9C] @ '':x'')))" by code_simp+
  then show ?thesis using normalize_panics_iff[OF ok(1)] by blast
qed

section \<open>Memo tables\<close>

text \<open>A memo table in front of a computation that may panic: a hit answers from the table, a miss
  computes and remembers. The canonicalisation memo of the configuration loader and the relative
  resolution memo of the checker are such tables.\<close>

locale memo_table =
  fixes fresh :: "'k \<Rightarrow> 'v option" and ask :: "'k \<Rightarrow> ('k \<rightharpoonup> 'v) \<Rightarrow> ('v \<times> ('k \<rightharpoonup> 'v)) option"
  assumes hit: "cache k = Some v \<Longrightarrow> ask k cache = Some (v, cache)"
    and miss: "cache k = None \<Longrightarrow> ask k cache = map_option (\<lambda>v. (v, cache(k \<mapsto> v))) (fresh k)"
begin

definition sound :: "('k \<rightharpoonup> 'v) \<Rightarrow> bool" where
  "sound cache \<longleftrightarrow> (\<forall>k v. cache k = Some v \<longrightarrow> fresh k = Some v)"

lemma sound_empty: "sound Map.empty"
  by (simp add: sound_def)

lemma transparent: "sound cache \<Longrightarrow> map_option fst (ask k cache) = fresh k"
  by (cases "cache k"; cases "fresh k") (auto simp: hit miss sound_def)

lemma sound_ask: "sound cache \<Longrightarrow> ask k cache = Some (v, cache') \<Longrightarrow> sound cache'"
  by (cases "cache k") (auto simp: hit miss sound_def split: if_splits)

text \<open>A sequence of questions, each asked of the table the previous one left.\<close>

fun ask_all :: "'k list \<Rightarrow> ('k \<rightharpoonup> 'v) \<Rightarrow> 'v list option" where
  "ask_all [] cache = Some []"
| "ask_all (k # ks) cache =
     (case ask k cache of None \<Rightarrow> None | Some (v, cache') \<Rightarrow> map_option ((#) v) (ask_all ks cache'))"

lemma ask_all_fresh: "sound cache \<Longrightarrow> ask_all ks cache = those (map fresh ks)"
proof (induction ks arbitrary: cache)
  case (Cons k ks)
  show ?case
  proof (cases "ask k cache")
    case None
    then have "fresh k = None" using transparent[OF Cons.prems, of k] by simp
    then show ?thesis using None by simp
  next
    case (Some x)
    obtain v cache' where x: "x = (v, cache')" by (cases x)
    have "fresh k = Some v" using transparent[OF Cons.prems, of k] Some x by simp
    then show ?thesis using Cons.IH[OF sound_ask[OF Cons.prems]] Some x by simp
  qed
qed simp

end

interpretation canon: memo_table "full_realpath_entry realpath" "with_canonical_entry realpath"
  by unfold_locales (simp_all add: with_canonical_entry_def)

text \<open>A run of canonicalisations through the memo of one thread.\<close>

fun canonicalize_all :: "(rstr \<Rightarrow> rstr option) \<Rightarrow> rstr list \<Rightarrow> (rstr \<rightharpoonup> canon_entry) \<Rightarrow> rstr list option" where
  "canonicalize_all realpath [] cache = Some []"
| "canonicalize_all realpath (path # paths) cache =
     Option.bind (canonicalize_if_exists_string realpath path cache)
       (\<lambda>(name, cache'). map_option ((#) name) (canonicalize_all realpath paths cache'))"

lemma canonicalize_all_ask:
  "canonicalize_all realpath paths cache = map_option (map canonical_str) (canon.ask_all realpath paths cache)"
  by (induction paths arbitrary: cache)
    (auto simp: canonicalize_if_exists_string_def option.map_comp comp_def split: option.split)

text \<open>
  The canonicalisation memo is transparent: a sequence of canonicalisations through one memo
  gives the canonical names, or the panic, that each path gives on its own.
\<close>

theorem canonicalize_memo_transparent:
  "canonicalize_all realpath paths Map.empty =
     those (map (\<lambda>path. map_option canonical_str (full_realpath_entry realpath path)) paths)"
proof -
  have "those (map (\<lambda>path. map_option canonical_str (full_realpath_entry realpath path)) ps) =
      map_option (map canonical_str) (those (map (full_realpath_entry realpath) ps))" for ps
    by (induction ps) (auto split: option.split simp: option.map_comp comp_def)
  then show ?thesis by (simp add: canonicalize_all_ask canon.ask_all_fresh[OF canon.sound_empty])
qed

end
