(* ===== verification/Star_Patterns.thy ===== *)
theory Star_Patterns
  imports Prelude
begin

text \<open>
  Patterns with one star, the keys of the \<open>paths\<close> option and of the \<open>exports\<close>, \<open>imports\<close> and
  \<open>typesVersions\<close> maps of a package: when a pattern covers a text, which pattern of a list is the most
  specific one, and the scan that finds it. The scan occurs three times in the source, over three
  kinds of entries; the locale \<open>star_table\<close> states what the three have in common and proves the
  choice once.
\<close>

section \<open>Patterns\<close>

definition single_star_parts :: "rstr \<Rightarrow> (rstr \<times> rstr) option" where
  "single_star_parts pat =
     Option.bind (split_once (CHR ''*'') pat) (\<lambda>(before, after). if CHR ''*'' \<in> set after then None else Some (before, after))"

definition splice_star :: "rstr \<Rightarrow> rstr \<Rightarrow> rstr" where
  "splice_star captured substitution = concat (map (\<lambda>c. if c = CHR ''*'' then captured else [c]) substitution)"

text \<open>A pattern with one star covers a text, capturing a part of it.\<close>

definition covers :: "rstr \<Rightarrow> rstr \<Rightarrow> rstr \<Rightarrow> rstr \<Rightarrow> bool" where
  "covers pat specifier before captured \<longleftrightarrow>
     (\<exists>after. pat = before @ CHR ''*'' # after \<and> CHR ''*'' \<notin> set before \<and> CHR ''*'' \<notin> set after
        \<and> specifier = before @ captured @ after)"

definition star_match :: "rstr \<Rightarrow> rstr \<Rightarrow> (rstr \<times> rstr) option" where
  "star_match specifier pat =
     (case single_star_parts pat of
        None \<Rightarrow> None
      | Some (before, after) \<Rightarrow>
          if length specifier < length before + length after \<or> \<not> starts_with specifier before \<or> \<not> ends_with specifier after
          then None
          else Some (before, take (length specifier - length after - length before) (drop (length before) specifier)))"

lemma single_star_parts_iff:
  "single_star_parts pat = Some (before, after) \<longleftrightarrow>
     pat = before @ CHR ''*'' # after \<and> CHR ''*'' \<notin> set before \<and> CHR ''*'' \<notin> set after"
proof
  assume "single_star_parts pat = Some (before, after)"
  then show "pat = before @ CHR ''*'' # after \<and> CHR ''*'' \<notin> set before \<and> CHR ''*'' \<notin> set after"
    by (auto simp: single_star_parts_def bind_eq_Some_conv split: if_splits dest: split_once_Some)
qed (simp add: single_star_parts_def)

lemma star_match_iff: "star_match specifier pat = Some (before, captured) \<longleftrightarrow> covers pat specifier before captured"
proof
  assume "star_match specifier pat = Some (before, captured)"
  then obtain after where *: "single_star_parts pat = Some (before, after)"
    "\<not> length specifier < length before + length after" "starts_with specifier before" "ends_with specifier after"
    "captured = take (length specifier - length after - length before) (drop (length before) specifier)"
    by (auto simp: star_match_def split: option.splits if_splits)
  obtain r where r: "specifier = before @ r" using *(3) by (auto simp: starts_with_append)
  obtain q where q: "specifier = q @ after" using *(4) by (auto simp: ends_with_append)
  have "length before \<le> length q" using *(2) q by simp
  then obtain c where "q = before @ c" using r q by (auto simp: append_eq_append_conv2)
  then show "covers pat specifier before captured"
    using * q unfolding covers_def single_star_parts_iff by (intro exI[of _ after]) simp
next
  assume "covers pat specifier before captured"
  then obtain after where "single_star_parts pat = Some (before, after)" "specifier = before @ captured @ after"
    by (auto simp: covers_def single_star_parts_iff)
  then show "star_match specifier pat = Some (before, captured)"
    by (auto simp: star_match_def starts_with_append ends_with_append)
qed

lemma covers_unique: "covers pat specifier b c \<Longrightarrow> covers pat specifier b' c' \<Longrightarrow> b' = b \<and> c' = c"
  using star_match_iff[of specifier pat b c] star_match_iff[of specifier pat b' c'] by auto

lemma covers_star: "covers pat specifier b c \<Longrightarrow> CHR ''*'' \<in> set pat"
  by (auto simp: covers_def)

text \<open>Substituting the captured text into the covering pattern gives back the specifier.\<close>

lemma splice_star_free: "CHR ''*'' \<notin> set s \<Longrightarrow> splice_star captured s = s"
  by (induction s) (auto simp: splice_star_def)

lemma splice_covers: "covers pat specifier before captured \<Longrightarrow> splice_star captured pat = specifier"
proof -
  assume "covers pat specifier before captured"
  then obtain after where *: "pat = before @ CHR ''*'' # after" "CHR ''*'' \<notin> set before" "CHR ''*'' \<notin> set after"
    "specifier = before @ captured @ after" by (auto simp: covers_def)
  have "splice_star captured pat = splice_star captured before @ captured @ splice_star captured after"
    by (simp add: *(1) splice_star_def)
  then show ?thesis using * by (simp add: splice_star_free)
qed

section \<open>The most specific pattern\<close>

text \<open>Position \<open>i\<close> holds the first of the patterns with the longest literal prefix.\<close>

definition dominated :: "rstr \<Rightarrow> nat \<Rightarrow> rstr \<Rightarrow> nat \<Rightarrow> rstr \<Rightarrow> bool" where
  "dominated specifier i before j pat \<longleftrightarrow>
     (\<forall>b c. covers pat specifier b c \<longrightarrow>
        length b \<le> length before \<and> (j < i \<longrightarrow> length b < length before))"

definition is_best :: "rstr \<Rightarrow> rstr list \<Rightarrow> nat \<Rightarrow> rstr \<Rightarrow> rstr \<Rightarrow> bool" where
  "is_best specifier pats i before captured \<longleftrightarrow>
     i < length pats \<and> covers (pats ! i) specifier before captured
     \<and> (\<forall>j < length pats. dominated specifier i before j (pats ! j))"

lemma dominated_covers:
  "covers pat specifier b c \<Longrightarrow>
     dominated specifier i before j pat \<longleftrightarrow> length b \<le> length before \<and> (j < i \<longrightarrow> length b < length before)"
  using covers_unique unfolding dominated_def by blast

lemma dominated_free: "CHR ''*'' \<notin> set pat \<Longrightarrow> dominated specifier i before j pat"
  using covers_star unfolding dominated_def by blast

lemma all_less_snoc:
  "(\<forall>j < length (xs @ [x]). P j ((xs @ [x]) ! j)) \<longleftrightarrow> (\<forall>j < length xs. P j (xs ! j)) \<and> P (length xs) x"
  by (auto simp: nth_append less_Suc_eq)

lemma is_best_keep:
  assumes "is_best specifier seen i before captured"
    "\<And>b c. covers pat specifier b c \<Longrightarrow> length b \<le> length before"
  shows "is_best specifier (seen @ [pat]) i before captured"
proof -
  have "dominated specifier i before (length seen) pat" using assms by (auto simp: dominated_def is_best_def)
  then show ?thesis using assms(1) unfolding is_best_def all_less_snoc by (simp add: nth_append)
qed

lemma is_best_new:
  assumes "\<forall>j < length seen. \<forall>b c. covers (seen ! j) specifier b c \<longrightarrow> length b < length before"
    and cov: "covers pat specifier before captured"
  shows "is_best specifier (seen @ [pat]) (length seen) before captured"
proof -
  have "dominated specifier (length seen) before (length seen) pat"
    using covers_unique[OF cov] by (auto simp: dominated_def)
  moreover have "dominated specifier (length seen) before j (seen ! j)" if "j < length seen" for j
    using assms(1) that by (auto simp: dominated_def less_imp_le)
  ultimately show ?thesis using cov unfolding is_best_def all_less_snoc by simp
qed

lemma is_best_unique:
  assumes "is_best specifier pats i b c" "is_best specifier pats i' b' c'"
  shows "i' = i \<and> b' = b \<and> c' = c"
proof -
  have d: "dominated specifier i b i' (pats ! i')" "dominated specifier i' b' i (pats ! i)"
    and cov: "covers (pats ! i) specifier b c" "covers (pats ! i') specifier b' c'"
    using assms by (auto simp: is_best_def)
  have "length b' \<le> length b" "i' < i \<longrightarrow> length b' < length b" "length b \<le> length b'" "i < i' \<longrightarrow> length b < length b'"
    using d cov by (auto simp: dominated_def)
  then have "i' = i" by linarith
  then show ?thesis using covers_unique[OF cov(1)] cov(2) by blast
qed

section \<open>The scan\<close>

text \<open>
  One round of the scan over entries with keys \<open>key\<close>: an entry that covers the text replaces the
  choice so far only with a longer prefix. \<open>choice\<close> is what the source remembers of a choice and
  \<open>weight\<close> reads the length of its prefix.
\<close>

definition scan_round :: "('e \<Rightarrow> rstr) \<Rightarrow> (rstr \<Rightarrow> 'e \<Rightarrow> rstr \<Rightarrow> 'b) \<Rightarrow> ('b \<Rightarrow> nat) \<Rightarrow> rstr \<Rightarrow> 'b option \<Rightarrow> 'e \<Rightarrow> 'b option" where
  "scan_round key choice weight specifier best e =
     (case star_match specifier (key e) of
        None \<Rightarrow> best
      | Some (before, captured) \<Rightarrow>
          if (case best of Some b \<Rightarrow> weight b < length before | None \<Rightarrow> True)
          then Some (choice before e captured) else best)"

definition best_inv :: "('e \<Rightarrow> rstr) \<Rightarrow> (rstr \<Rightarrow> 'e \<Rightarrow> rstr \<Rightarrow> 'b) \<Rightarrow> rstr \<Rightarrow> 'e list \<Rightarrow> 'b option \<Rightarrow> bool" where
  "best_inv key choice specifier seen best \<longleftrightarrow>
     (case best of
        None \<Rightarrow> \<forall>e \<in> set seen. \<forall>b c. \<not> covers (key e) specifier b c
      | Some x \<Rightarrow> \<exists>i before captured. is_best specifier (map key seen) i before captured \<and> x = choice before (seen ! i) captured)"

locale star_table =
  fixes key :: "'e \<Rightarrow> rstr" and choice :: "rstr \<Rightarrow> 'e \<Rightarrow> rstr \<Rightarrow> 'b" and weight :: "'b \<Rightarrow> nat"
    and scan :: "rstr \<Rightarrow> 'b option \<Rightarrow> 'e list \<Rightarrow> 'b option"
  assumes weight_choice: "weight (choice before e captured) = length before"
    and scan_Nil: "scan specifier best [] = best"
    and scan_Cons: "scan specifier best (e # es) = scan specifier (scan_round key choice weight specifier best e) es"
begin

lemma round_keeps:
  assumes "is_best specifier (map key seen) i before captured"
    "\<And>b c. covers (key e) specifier b c \<Longrightarrow> length b \<le> length before"
  shows "best_inv key choice specifier (seen @ [e]) (Some (choice before (seen ! i) captured))"
proof -
  have "is_best specifier (map key (seen @ [e])) i before captured" using is_best_keep[OF assms] by simp
  moreover have "(seen @ [e]) ! i = seen ! i" using assms(1) by (simp add: is_best_def nth_append)
  ultimately show ?thesis unfolding best_inv_def by fastforce
qed

lemma round_replaces:
  assumes "\<forall>j < length seen. \<forall>b c. covers (key (seen ! j)) specifier b c \<longrightarrow> length b < length before"
    and "covers (key e) specifier before captured"
  shows "best_inv key choice specifier (seen @ [e]) (Some (choice before e captured))"
proof -
  have "is_best specifier (map key (seen @ [e])) (length seen) before captured"
    using is_best_new[of "map key seen" specifier before "key e"] assms by simp
  then show ?thesis unfolding best_inv_def option.case
    by (intro exI[of _ "length seen"] exI[of _ before] exI[of _ captured]) simp
qed

lemma round_inv:
  assumes inv: "best_inv key choice specifier seen best"
  shows "best_inv key choice specifier (seen @ [e]) (scan_round key choice weight specifier best e)"
proof (cases best)
  case None
  then have "\<not> covers (key x) specifier b c" if "x \<in> set seen" for x b c using inv that by (auto simp: best_inv_def)
  then have none: "\<not> covers (key (seen ! j)) specifier b c" if "j < length seen" for j b c using that by simp
  show ?thesis
  proof (cases "star_match specifier (key e)")
    case N: None
    then have "\<not> covers (key e) specifier b c" for b c by (simp flip: star_match_iff)
    then show ?thesis using inv None N by (simp add: best_inv_def scan_round_def)
  next
    case (Some y)
    obtain b c where y: "y = (b, c)" by (cases y)
    then have "covers (key e) specifier b c" using Some star_match_iff by blast
    then have "best_inv key choice specifier (seen @ [e]) (Some (choice b e c))" using none round_replaces by simp
    then show ?thesis using None Some y by (simp add: scan_round_def)
  qed
next
  case (Some x)
  then obtain i before captured where i: "is_best specifier (map key seen) i before captured" "x = choice before (seen ! i) captured"
    using inv by (auto simp: best_inv_def)
  have dom: "length b \<le> length before" if "j < length seen" "covers (key (seen ! j)) specifier b c" for j b c
    using i(1) that unfolding is_best_def dominated_def by fastforce
  show ?thesis
  proof (cases "star_match specifier (key e)")
    case N: None
    then have "\<not> covers (key e) specifier b c" for b c by (simp flip: star_match_iff)
    then have "best_inv key choice specifier (seen @ [e]) (Some x)" using round_keeps[OF i(1), of e] i(2) by blast
    then show ?thesis using Some N by (simp add: scan_round_def)
  next
    case S: (Some y)
    obtain b c where y: "y = (b, c)" by (cases y)
    then have cov: "covers (key e) specifier b c" using S star_match_iff by blast
    have "best_inv key choice specifier (seen @ [e]) (Some (choice b e c))" if "length before < length b"
      using round_replaces[of seen specifier b e c] dom cov that order_le_less_trans by blast
    moreover have "best_inv key choice specifier (seen @ [e]) (Some x)" if "\<not> length before < length b"
      using round_keeps[OF i(1), of e] covers_unique[OF cov] that i(2) by fastforce
    ultimately show ?thesis using Some S y i(2) by (simp add: scan_round_def weight_choice)
  qed
qed

lemma scan_inv: "best_inv key choice specifier seen best \<Longrightarrow> best_inv key choice specifier (seen @ es) (scan specifier best es)"
proof (induction es arbitrary: seen best)
  case (Cons e es)
  then show ?case using Cons.IH[OF round_inv[OF Cons.prems, of e]] by (simp add: scan_Cons)
qed (simp add: scan_Nil)

lemma scan_Some_iff:
  "scan specifier None es = Some x \<longleftrightarrow>
     (\<exists>i before captured. is_best specifier (map key es) i before captured \<and> x = choice before (es ! i) captured)"
proof -
  have inv: "best_inv key choice specifier es (scan specifier None es)"
    using scan_inv[of specifier "[]" None es] by (simp add: best_inv_def)
  show ?thesis
  proof (cases "scan specifier None es")
    case None
    then have "\<not> is_best specifier (map key es) i before captured" for i before captured
      using inv by (auto simp: best_inv_def is_best_def)
    then show ?thesis using None by simp
  next
    case (Some y)
    then obtain i before captured where i: "is_best specifier (map key es) i before captured" "y = choice before (es ! i) captured"
      using inv by (auto simp: best_inv_def)
    have "(\<exists>i before captured. is_best specifier (map key es) i before captured \<and> x = choice before (es ! i) captured) \<longleftrightarrow> x = y"
      using i is_best_unique[OF i(1)] by blast
    then show ?thesis using Some by auto
  qed
qed

lemma scan_None_iff: "scan specifier None es = None \<longleftrightarrow> (\<forall>i before captured. \<not> is_best specifier (map key es) i before captured)"
proof -
  have "scan specifier None es = None \<longleftrightarrow> (\<nexists>x. scan specifier None es = Some x)" by (cases "scan specifier None es") auto
  then show ?thesis unfolding scan_Some_iff by blast
qed

end

end
