(* ===== verification/Module_Resolution.thy ===== *)
theory Module_Resolution
  imports Path_Laws Star_Patterns
begin

text \<open>
  Resolution of module specifiers: the extension-substitution candidates
  (\<open>crates/surge-ts-checker/src/modules/candidates.rs\<close>), relative resolution against the program's
  files (\<open>modules/resolution.rs\<close>), \<open>paths\<close> pattern selection
  (\<open>crates/surge-ts-config/src/mapping.rs\<close>) and the \<open>paths\<close>/\<open>baseUrl\<close> pass
  (\<open>crates/surge-ts/src/path_mapping.rs\<close>, \<open>specifier.rs\<close>).

  The static settings of a check (\<open>NODE_ESM_FILES\<close>, \<open>ALLOW_ARBITRARY_EXTENSIONS\<close>) and the operating
  system's realpath are a record \<open>resolver_env\<close>. A function that normalises a path is \<open>None\<close> where
  the normalisation panics; a specifier that does not resolve is \<open>Some None\<close>.
\<close>

section \<open>String helpers\<close>

definition rsplit_once :: "char \<Rightarrow> rstr \<Rightarrow> (rstr \<times> rstr) option" where
  "rsplit_once c s = map_option (\<lambda>(a, b). (rev b, rev a)) (split_once c (rev s))"

definition strip_suffix :: "rstr \<Rightarrow> rstr \<Rightarrow> rstr option" where
  "strip_suffix s tail_str = (if ends_with s tail_str then Some (take (length s - length tail_str) s) else None)"

definition ascii_lower :: "char \<Rightarrow> char" where
  "ascii_lower c = (if 65 \<le> byte c \<and> byte c \<le> 90 then char_of (byte c + 32) else c)"

definition is_separator :: "char \<Rightarrow> bool" where
  "is_separator c \<longleftrightarrow> c = CHR ''/'' \<or> c = CHR 0x5C"

text \<open>\<open>rsplit(['/', '\\']).next()\<close>\<close>

definition base_name :: "rstr \<Rightarrow> rstr" where
  "base_name s = rev (takeWhile (\<lambda>c. \<not> is_separator c) (rev s))"

definition trim_end_separators :: "rstr \<Rightarrow> rstr" where
  "trim_end_separators s = rev (dropWhile is_separator (rev s))"

fun contains_str :: "rstr \<Rightarrow> rstr \<Rightarrow> bool" where
  "contains_str [] pat = (pat = [])"
| "contains_str (c # s) pat = (starts_with (c # s) pat \<or> contains_str s pat)"

section \<open>Candidates\<close>

datatype relative_specifier_shape =
  ExplicitTs | ExplicitTsx | ExplicitJs | ExplicitMjs | ExplicitCjs | Extensionless | ExplicitJson

definition classify_relative_specifier :: "rstr \<Rightarrow> relative_specifier_shape" where
  "classify_relative_specifier specifier =
     (let last_segment = last (split_on (CHR ''/'') specifier) in
      if last_segment = ''.'' \<or> last_segment = ''..'' then Extensionless
      else if ends_with last_segment ''.json'' then ExplicitJson
      else if ends_with last_segment ''.tsx'' then ExplicitTsx
      else if ends_with last_segment ''.ts'' then ExplicitTs
      else if ends_with last_segment ''.js'' \<or> ends_with last_segment ''.jsx'' then ExplicitJs
      else if ends_with last_segment ''.mjs'' \<or> ends_with last_segment ''.mts'' then ExplicitMjs
      else if ends_with last_segment ''.cjs'' \<or> ends_with last_segment ''.cts'' then ExplicitCjs
      else Extensionless)"

definition strip_extension :: "rstr \<Rightarrow> rstr" where
  "strip_extension path = (case rsplit_once (CHR ''.'') path of Some (head, _) \<Rightarrow> head | None \<Rightarrow> path)"

definition strip_ts_extension :: "rstr \<Rightarrow> rstr" where
  "strip_ts_extension path =
     (case strip_suffix path ''.d.ts'' of
        Some stem \<Rightarrow> stem
      | None \<Rightarrow> (case strip_suffix path ''.d.mts'' of
            Some stem \<Rightarrow> stem
          | None \<Rightarrow> (case strip_suffix path ''.d.cts'' of Some stem \<Rightarrow> stem | None \<Rightarrow> strip_extension path)))"

definition substitution_candidates_js :: "rstr \<Rightarrow> rstr list" where
  "substitution_candidates_js stem = [stem @ ''.ts'', stem @ ''.tsx'', stem @ ''.d.ts'']"

definition substitution_candidates_mjs :: "rstr \<Rightarrow> rstr list" where
  "substitution_candidates_mjs stem = [stem @ ''.mts'', stem @ ''.d.mts'']"

definition substitution_candidates_cjs :: "rstr \<Rightarrow> rstr list" where
  "substitution_candidates_cjs stem = [stem @ ''.cts'', stem @ ''.d.cts'']"

definition with_exact :: "rstr \<Rightarrow> rstr list \<Rightarrow> rstr list" where
  "with_exact exact substitutions = exact # substitutions"

definition module_flavor_candidates :: "rstr \<Rightarrow> rstr \<Rightarrow> (rstr \<Rightarrow> rstr list) \<Rightarrow> rstr list" where
  "module_flavor_candidates joined runtime_extension substitutions =
     (let stem = strip_ts_extension joined
      in if ends_with joined runtime_extension then with_exact joined (substitutions stem) else substitutions stem)"

definition directory_index_candidates :: "rstr \<Rightarrow> rstr list" where
  "directory_index_candidates base = [base @ ''/index.ts'', base @ ''/index.tsx'', base @ ''/index.d.ts'']"

definition extensionless_candidates :: "rstr \<Rightarrow> rstr list" where
  "extensionless_candidates base =
     [base, base @ ''.ts'', base @ ''.tsx'', base @ ''.d.ts''] @ directory_index_candidates base"

definition relative_import_candidates :: "rstr \<Rightarrow> rstr \<Rightarrow> rstr list" where
  "relative_import_candidates joined specifier =
     (case classify_relative_specifier specifier of
        ExplicitTs \<Rightarrow> substitution_candidates_js (strip_ts_extension joined)
      | ExplicitTsx \<Rightarrow> (let stem = strip_extension joined in [stem @ ''.tsx'', stem @ ''.ts'', stem @ ''.d.ts''])
      | ExplicitJs \<Rightarrow> with_exact joined (substitution_candidates_js (strip_extension joined))
      | ExplicitMjs \<Rightarrow> module_flavor_candidates joined ''.mjs'' substitution_candidates_mjs
      | ExplicitCjs \<Rightarrow> module_flavor_candidates joined ''.cjs'' substitution_candidates_cjs
      | ExplicitJson \<Rightarrow> [joined]
      | Extensionless \<Rightarrow> extensionless_candidates joined)"

definition mapped_target_candidates :: "rstr \<Rightarrow> rstr list" where
  "mapped_target_candidates target =
     (let lower = map ascii_lower target in
      if ends_with lower ''.d.ts'' \<or> ends_with lower ''.d.mts'' \<or> ends_with lower ''.d.cts'' then [target]
      else if ends_with lower ''.ts'' \<or> ends_with lower ''.tsx'' then [target]
      else if ends_with lower ''.js'' \<or> ends_with lower ''.jsx'' then substitution_candidates_js (strip_extension target)
      else if ends_with lower ''.mjs'' then substitution_candidates_mjs (strip_extension target)
      else if ends_with lower ''.cjs'' then substitution_candidates_cjs (strip_extension target)
      else extensionless_candidates target)"

definition relative_specifier_names_directory :: "rstr \<Rightarrow> bool" where
  "relative_specifier_names_directory specifier =
     (if ends_with specifier ''/'' \<or> ends_with specifier [CHR 0x5C] then True
      else let last_segment = base_name specifier in last_segment = ''.'' \<or> last_segment = ''..'')"

section \<open>Relative resolution\<close>

definition is_relative_specifier :: "rstr \<Rightarrow> bool" where
  "is_relative_specifier specifier \<longleftrightarrow>
     specifier = ''.'' \<or> specifier = ''..'' \<or> starts_with specifier ''./'' \<or> starts_with specifier ''../''
     \<or> starts_with specifier [CHR ''.'', CHR 0x5C] \<or> starts_with specifier [CHR ''.'', CHR ''.'', CHR 0x5C]"

definition is_external_specifier :: "rstr \<Rightarrow> bool" where
  "is_external_specifier specifier \<longleftrightarrow> \<not> is_relative_specifier specifier"

datatype resolution_mode_override = ImportMode | RequireMode

record module_resolution =
  resolved_file_index :: nat
  resolved_file_name :: rstr

record resolver_env =
  node_esm_files :: "rstr set option"
  allow_arbitrary_extensions :: bool
  env_realpath :: "rstr \<Rightarrow> rstr option"
  program_files :: "rstr list"
  file_index_by_identity :: "rstr \<rightharpoonup> nat"

definition is_declaration_file_name :: "rstr \<Rightarrow> bool" where
  "is_declaration_file_name file_name =
     (let base = base_name file_name; lower = map ascii_lower base
      in ends_with lower ''.d.ts'' \<or> ends_with lower ''.d.mts'' \<or> ends_with lower ''.d.cts''
         \<or> ends_with base ''.ts'' \<and> contains_str base ''.d.'')"

definition arbitrary_extension_resolution_allowed :: "resolver_env \<Rightarrow> rstr \<Rightarrow> bool" where
  "arbitrary_extension_resolution_allowed env importer \<longleftrightarrow>
     allow_arbitrary_extensions env \<or> is_declaration_file_name importer"

definition arbitrary_extension_declaration :: "rstr \<Rightarrow> rstr \<Rightarrow> rstr option" where
  "arbitrary_extension_declaration joined specifier =
     (if classify_relative_specifier specifier \<notin> {Extensionless, ExplicitJson} then None
      else
        let (directory, base) = (case rsplit_once (CHR ''/'') joined of
                                   Some (directory, base) \<Rightarrow> (Some directory, base)
                                 | None \<Rightarrow> (None, joined))
        in Option.bind (rsplit_once (CHR ''.'') base) (\<lambda>(stem, extension).
             if extension = [] \<or> is_declaration_file_name base then None
             else let file = stem @ ''.d.'' @ extension @ ''.ts''
                  in Some (case directory of Some d \<Rightarrow> d @ ''/'' @ file | None \<Rightarrow> file)))"

definition resolves_in_node_esm_mode :: "resolver_env \<Rightarrow> rstr \<Rightarrow> bool" where
  "resolves_in_node_esm_mode env importer =
     (case node_esm_files env of Some files \<Rightarrow> importer \<in> files | None \<Rightarrow> False)"

definition relative_resolution_is_esm :: "resolver_env \<Rightarrow> rstr \<Rightarrow> resolution_mode_override option \<Rightarrow> bool" where
  "relative_resolution_is_esm env importer mode =
     (case mode of
        None \<Rightarrow> resolves_in_node_esm_mode env importer
      | Some RequireMode \<Rightarrow> False
      | Some ImportMode \<Rightarrow> node_esm_files env \<noteq> None)"

definition is_extensionless_relative_specifier :: "rstr \<Rightarrow> bool" where
  "is_extensionless_relative_specifier specifier \<longleftrightarrow>
     CHR ''.'' \<notin> set (base_name (trim_end_separators specifier))"

definition module_directory :: "rstr \<Rightarrow> rstr option" where
  "module_directory file_name =
     map_option (\<lambda>normalized. case rsplit_once (CHR ''/'') normalized of Some (directory, _) \<Rightarrow> directory | None \<Rightarrow> [])
       (normalize_path_string file_name)"

definition canonical_file_identity :: "resolver_env \<Rightarrow> rstr \<Rightarrow> rstr option" where
  "canonical_file_identity env file_name = map_option canonical_str (full_realpath_entry (env_realpath env) file_name)"

definition program_file :: "resolver_env \<Rightarrow> nat \<Rightarrow> module_resolution option" where
  "program_file env index =
     (if index < length (program_files env)
      then Some \<lparr>resolved_file_index = index, resolved_file_name = program_files env ! index\<rparr> else None)"

definition relative_specifier_path :: "rstr \<Rightarrow> rstr \<Rightarrow> rstr option" where
  "relative_specifier_path importer specifier =
     Option.bind (module_directory importer) (\<lambda>importer_dir.
       if importer_dir = [] then normalize_path_string specifier
       else normalize_path_string (importer_dir @ ''/'' @ specifier))"

fun first_program_file :: "resolver_env \<Rightarrow> rstr list \<Rightarrow> module_resolution option option" where
  "first_program_file env [] = Some None"
| "first_program_file env (candidate # candidates) =
     Option.bind (canonical_file_identity env candidate) (\<lambda>identity.
       case Option.bind (file_index_by_identity env identity) (program_file env) of
         Some r \<Rightarrow> Some (Some r)
       | None \<Rightarrow> first_program_file env candidates)"

text \<open>The loop of \<open>resolve_relative_module_uncached\<close>: an index without a file ends it with no result.\<close>

fun first_indexed_file :: "resolver_env \<Rightarrow> rstr list \<Rightarrow> module_resolution option option" where
  "first_indexed_file env [] = Some None"
| "first_indexed_file env (candidate # candidates) =
     Option.bind (canonical_file_identity env candidate) (\<lambda>identity.
       case file_index_by_identity env identity of
         Some index \<Rightarrow> Some (program_file env index)
       | None \<Rightarrow> first_indexed_file env candidates)"

definition joined_specifier :: "rstr \<Rightarrow> rstr \<Rightarrow> (rstr \<times> rstr) option" where
  "joined_specifier importer specifier =
     Option.bind (module_directory importer) (\<lambda>importer_dir.
       Option.bind (normalize_path_string specifier) (\<lambda>normalized.
         if importer_dir = [] then Some (normalized, normalized)
         else map_option (\<lambda>joined. (normalized, joined)) (normalize_path_string (importer_dir @ ''/'' @ normalized))))"

definition resolve_relative_module_uncached :: "resolver_env \<Rightarrow> rstr \<Rightarrow> rstr \<Rightarrow> module_resolution option option" where
  "resolve_relative_module_uncached env importer specifier =
     Option.bind (joined_specifier importer specifier) (\<lambda>(normalized, joined).
       let candidates = first_indexed_file env (relative_import_candidates joined normalized)
       in case arbitrary_extension_declaration joined normalized of
            None \<Rightarrow> candidates
          | Some declaration \<Rightarrow>
              Option.bind (canonical_file_identity env declaration) (\<lambda>identity.
                case file_index_by_identity env identity of
                  None \<Rightarrow> candidates
                | Some index \<Rightarrow>
                    if \<not> arbitrary_extension_resolution_allowed env importer then Some None
                    else Some (program_file env index)))"

definition resolve_relative_directory :: "resolver_env \<Rightarrow> rstr \<Rightarrow> rstr \<Rightarrow> module_resolution option option" where
  "resolve_relative_directory env importer specifier =
     Option.bind (relative_specifier_path importer specifier) (\<lambda>directory.
       first_program_file env (directory_index_candidates directory))"

definition resolve_relative_path_with_implicit_extensions ::
    "resolver_env \<Rightarrow> rstr \<Rightarrow> rstr \<Rightarrow> module_resolution option option" where
  "resolve_relative_path_with_implicit_extensions env importer specifier =
     Option.bind (normalize_path_string specifier) (\<lambda>normalized.
       if classify_relative_specifier normalized \<notin> {ExplicitTs, ExplicitJs, ExplicitMjs, ExplicitCjs, ExplicitJson}
       then Some None
       else Option.bind (relative_specifier_path importer specifier) (\<lambda>path.
         first_program_file env ([path @ ''.ts'', path @ ''.tsx'', path @ ''.d.ts''] @ directory_index_candidates path)))"

definition resolve_fresh :: "resolver_env \<Rightarrow> rstr \<times> rstr \<times> bool \<Rightarrow> module_resolution option option" where
  "resolve_fresh env = (\<lambda>(importer, specifier, esm).
     if relative_specifier_names_directory specifier
     then (if esm then Some None else resolve_relative_directory env importer specifier)
     else Option.bind (resolve_relative_module_uncached env importer specifier) (\<lambda>found.
       case found of
         Some r \<Rightarrow> Some (Some r)
       | None \<Rightarrow> if esm then Some None else resolve_relative_path_with_implicit_extensions env importer specifier))"

type_synonym relative_module_cache = "(rstr \<times> rstr \<times> bool) \<rightharpoonup> module_resolution option"

text \<open>\<open>RELATIVE_MODULE_CACHE\<close> in front of it.\<close>

definition relative_module_cached ::
    "resolver_env \<Rightarrow> rstr \<times> rstr \<times> bool \<Rightarrow> relative_module_cache
      \<Rightarrow> (module_resolution option \<times> relative_module_cache) option" where
  "relative_module_cached env cache_key cache =
     (case cache cache_key of
        Some cached \<Rightarrow> Some (cached, cache)
      | None \<Rightarrow> map_option (\<lambda>found. (found, cache(cache_key \<mapsto> found))) (resolve_fresh env cache_key))"

definition resolve_relative_module_in_mode ::
    "resolver_env \<Rightarrow> rstr \<Rightarrow> rstr \<Rightarrow> resolution_mode_override option \<Rightarrow> relative_module_cache
      \<Rightarrow> (module_resolution option \<times> relative_module_cache) option" where
  "resolve_relative_module_in_mode env importer specifier mode cache =
     (if \<not> is_relative_specifier specifier then Some (None, cache)
      else if program_files env = [] then Some (None, cache)
      else let esm = relative_resolution_is_esm env importer mode
           in if esm \<and> is_extensionless_relative_specifier specifier then Some (None, cache)
              else relative_module_cached env (importer, specifier, esm) cache)"

definition resolve_relative_module ::
    "resolver_env \<Rightarrow> rstr \<Rightarrow> rstr \<Rightarrow> relative_module_cache \<Rightarrow> (module_resolution option \<times> relative_module_cache) option" where
  "resolve_relative_module env importer specifier cache =
     resolve_relative_module_in_mode env importer specifier None cache"

section \<open>Path mappings\<close>

record path_mapping =
  pattern :: rstr
  substitutions :: "rstr list"

fun exact_mapping :: "rstr \<Rightarrow> path_mapping list \<Rightarrow> rstr list option" where
  "exact_mapping specifier [] = None"
| "exact_mapping specifier (mapping # mappings) =
     (if CHR ''*'' \<notin> set (pattern mapping) \<and> pattern mapping = specifier then Some (substitutions mapping)
      else exact_mapping specifier mappings)"

fun best_mapping :: "rstr \<Rightarrow> (nat \<times> path_mapping \<times> rstr) option \<Rightarrow> path_mapping list
    \<Rightarrow> (nat \<times> path_mapping \<times> rstr) option" where
  "best_mapping specifier best [] = best"
| "best_mapping specifier best (mapping # mappings) =
     (case single_star_parts (pattern mapping) of
        None \<Rightarrow> best_mapping specifier best mappings
      | Some (before, after) \<Rightarrow>
          if length specifier < length before + length after \<or> \<not> starts_with specifier before \<or> \<not> ends_with specifier after
          then best_mapping specifier best mappings
          else
            let captured = take (length specifier - length after - length before) (drop (length before) specifier);
                more_specific = (case best of Some (best_len, _, _) \<Rightarrow> best_len < length before | None \<Rightarrow> True)
            in best_mapping specifier (if more_specific then Some (length before, mapping, captured) else best) mappings)"

definition select_path_mapping_targets :: "rstr \<Rightarrow> path_mapping list \<Rightarrow> rstr list option" where
  "select_path_mapping_targets specifier mappings =
     (case exact_mapping specifier mappings of
        Some targets \<Rightarrow> Some targets
      | None \<Rightarrow> map_option (\<lambda>(_, mapping, captured).
            map (splice_star captured)
              (filter (\<lambda>substitution. count_list substitution (CHR ''*'') \<le> 1) (substitutions mapping)))
          (best_mapping specifier None mappings))"

section \<open>The \<open>paths\<close> and \<open>baseUrl\<close> pass\<close>

fun first_loaded :: "(rstr \<rightharpoonup> rstr) \<Rightarrow> rstr list \<Rightarrow> rstr option" where
  "first_loaded loaded_files [] = None"
| "first_loaded loaded_files (candidate # candidates) =
     (case loaded_files candidate of Some original_name \<Rightarrow> Some original_name | None \<Rightarrow> first_loaded loaded_files candidates)"

definition canonical_string :: "(rstr \<Rightarrow> rstr option) \<Rightarrow> rstr \<Rightarrow> rstr option" where
  "canonical_string realpath path = map_option canonical_str (full_realpath_entry realpath path)"

definition try_resolve_base_url :: "(rstr \<Rightarrow> rstr option) \<Rightarrow> rstr \<Rightarrow> rstr \<Rightarrow> (rstr \<rightharpoonup> rstr) \<Rightarrow> rstr option option" where
  "try_resolve_base_url realpath specifier base_url loaded_files =
     map_option (\<lambda>normalized. first_loaded loaded_files (mapped_target_candidates normalized))
       (canonical_string realpath (path_join base_url specifier))"

fun first_target :: "(rstr \<Rightarrow> rstr option) \<Rightarrow> rstr \<Rightarrow> (rstr \<rightharpoonup> rstr) \<Rightarrow> rstr list \<Rightarrow> rstr option option" where
  "first_target realpath mapping_base loaded_files [] = Some None"
| "first_target realpath mapping_base loaded_files (target # targets) =
     Option.bind (canonical_string realpath (path_join mapping_base target)) (\<lambda>normalized.
       case first_loaded loaded_files (mapped_target_candidates normalized) of
         Some original_name \<Rightarrow> Some (Some original_name)
       | None \<Rightarrow> first_target realpath mapping_base loaded_files targets)"

definition try_resolve_path_mapping ::
    "(rstr \<Rightarrow> rstr option) \<Rightarrow> rstr \<Rightarrow> path_mapping list \<Rightarrow> rstr \<Rightarrow> (rstr \<rightharpoonup> rstr) \<Rightarrow> rstr option option" where
  "try_resolve_path_mapping realpath specifier paths mapping_base loaded_files =
     (case select_path_mapping_targets specifier paths of
        None \<Rightarrow> Some None
      | Some targets \<Rightarrow> first_target realpath mapping_base loaded_files targets)"

text \<open>What \<open>resolve_path_mappings\<close> records for one external specifier.\<close>

definition resolve_path_mapping_of ::
    "(rstr \<Rightarrow> rstr option) \<Rightarrow> path_mapping list \<Rightarrow> rstr option \<Rightarrow> rstr \<Rightarrow> (rstr \<rightharpoonup> rstr) \<Rightarrow> rstr \<Rightarrow> rstr option option" where
  "resolve_path_mapping_of realpath paths base_url root_dir loaded_files specifier =
     (if paths = [] \<and> base_url = None then Some None
      else
        Option.bind (try_resolve_path_mapping realpath specifier paths
            (case base_url of Some base \<Rightarrow> base | None \<Rightarrow> root_dir) loaded_files) (\<lambda>mapped.
          case mapped of
            Some name \<Rightarrow> Some (Some name)
          | None \<Rightarrow> (case base_url of
                Some base \<Rightarrow> try_resolve_base_url realpath specifier base loaded_files
              | None \<Rightarrow> Some None)))"

fun loaded_lookup :: "(rstr \<Rightarrow> rstr option) \<Rightarrow> rstr list \<Rightarrow> (rstr \<rightharpoonup> rstr) \<Rightarrow> (rstr \<rightharpoonup> rstr) option" where
  "loaded_lookup realpath [] loaded_files = Some loaded_files"
| "loaded_lookup realpath (file_name # inputs) loaded_files =
     Option.bind (canonical_string realpath file_name)
       (\<lambda>identity. loaded_lookup realpath inputs (loaded_files(identity \<mapsto> file_name)))"

fun resolve_specifiers :: "(rstr \<Rightarrow> rstr option option) \<Rightarrow> rstr list \<Rightarrow> (rstr \<rightharpoonup> rstr) \<Rightarrow> (rstr \<rightharpoonup> rstr) option" where
  "resolve_specifiers resolve_one [] resolved_modules = Some resolved_modules"
| "resolve_specifiers resolve_one (specifier # specifiers) resolved_modules =
     Option.bind (resolve_one specifier) (\<lambda>found.
       resolve_specifiers resolve_one specifiers
         (case found of Some path \<Rightarrow> resolved_modules(specifier \<mapsto> path) | None \<Rightarrow> resolved_modules))"

text \<open>The pass itself; \<open>scanned\<close> lists the specifiers the scanner finds in the sources.\<close>

definition resolve_path_mappings ::
    "(rstr \<Rightarrow> rstr option) \<Rightarrow> rstr list \<Rightarrow> rstr list \<Rightarrow> path_mapping list \<Rightarrow> rstr option \<Rightarrow> rstr \<Rightarrow> (rstr \<rightharpoonup> rstr) option" where
  "resolve_path_mappings realpath inputs scanned paths base_url root_dir =
     (if paths = [] \<and> base_url = None then Some Map.empty
      else Option.bind (loaded_lookup realpath inputs Map.empty) (\<lambda>loaded_files.
        resolve_specifiers (resolve_path_mapping_of realpath paths base_url root_dir loaded_files)
          (remdups (filter is_external_specifier scanned)) Map.empty))"

end
