(* ===== verification/Resolution_Laws.thy ===== *)
theory Resolution_Laws
  imports Module_Resolution
begin

text \<open>
  Laws of module resolution: the candidate table, the selection of \<open>paths\<close> patterns, the
  transparency of the resolution memo, and two places where the resolver departs from its
  documentation.
\<close>

section \<open>Path mapping selection\<close>

text \<open>The scan of \<open>paths\<close> finds the most specific pattern.\<close>

lemma best_mapping_round:
  "best_mapping specifier best (mapping # mappings) =
     best_mapping specifier (scan_round pattern (\<lambda>before mapping captured. (length before, mapping, captured)) fst specifier best mapping) mappings"
  by (auto simp: scan_round_def star_match_def Let_def split: option.split)

interpretation path_table: star_table pattern "\<lambda>before mapping captured. (length before, mapping, captured)" fst best_mapping
  by unfold_locales (simp_all only: fst_conv best_mapping.simps(1) best_mapping_round)

definition exact_key :: "rstr \<Rightarrow> path_mapping \<Rightarrow> bool" where
  "exact_key specifier m \<longleftrightarrow> CHR ''*'' \<notin> set (pattern m) \<and> pattern m = specifier"

lemma exact_mapping_find: "exact_mapping specifier ms = map_option substitutions (find (exact_key specifier) ms)"
  by (induction ms) (auto simp: exact_key_def)

definition mapped_targets :: "rstr \<Rightarrow> path_mapping \<Rightarrow> rstr list" where
  "mapped_targets captured m =
     map (splice_star captured) (filter (\<lambda>substitution. count_list substitution (CHR ''*'') \<le> 1) (substitutions m))"

lemma select_best_mapping:
  "map_option (\<lambda>(_, m, captured). map (splice_star captured)
      (filter (\<lambda>substitution. count_list substitution (CHR ''*'') \<le> 1) (substitutions m)))
      (best_mapping specifier None ms) = Some targets \<longleftrightarrow>
   (\<exists>i before captured. is_best specifier (map pattern ms) i before captured \<and> targets = mapped_targets captured (ms ! i))"
  unfolding map_option_eq_Some path_table.scan_Some_iff mapped_targets_def by fastforce

text \<open>
  C20. The \<open>paths\<close> entry a specifier selects: the first exact key, if there is one, with its
  substitutions as they are; otherwise the pattern that covers the specifier with the longest
  literal prefix, the first of them in the configuration on a tie, with the captured text put in
  place of the star; and nothing if no entry covers the specifier.
\<close>

theorem select_path_mapping_spec:
  "select_path_mapping_targets specifier mappings = Some targets \<longleftrightarrow>
     (\<exists>i < length mappings. exact_key specifier (mappings ! i) \<and> (\<forall>j < i. \<not> exact_key specifier (mappings ! j))
        \<and> targets = substitutions (mappings ! i))
     \<or> (\<forall>m \<in> set mappings. \<not> exact_key specifier m)
        \<and> (\<exists>i before captured. is_best specifier (map pattern mappings) i before captured
             \<and> targets = mapped_targets captured (mappings ! i))"
proof (cases "find (exact_key specifier) mappings")
  case None
  then have "\<forall>m \<in> set mappings. \<not> exact_key specifier m" by (simp add: find_None_iff)
  moreover from this have "\<not> (\<exists>i < length mappings. exact_key specifier (mappings ! i))" by simp
  moreover have "select_path_mapping_targets specifier mappings = Some targets \<longleftrightarrow>
      (\<exists>i before captured. is_best specifier (map pattern mappings) i before captured \<and> targets = mapped_targets captured (mappings ! i))"
    using None unfolding select_best_mapping[symmetric] by (simp add: select_path_mapping_targets_def exact_mapping_find)
  ultimately show ?thesis by blast
next
  case (Some m)
  then obtain i where i: "i < length mappings" "exact_key specifier (mappings ! i)" "m = mappings ! i"
    "\<forall>j < i. \<not> exact_key specifier (mappings ! j)" by (auto simp: find_Some_iff)
  have "\<not> (\<forall>m \<in> set mappings. \<not> exact_key specifier m)" using i(1,2) nth_mem by blast
  moreover have "i' = i" if "exact_key specifier (mappings ! i')" "\<forall>j < i'. \<not> exact_key specifier (mappings ! j)" for i'
    using that i(2,4) by (cases i' i rule: linorder_cases) auto
  moreover have "select_path_mapping_targets specifier mappings = Some (substitutions (mappings ! i))"
    using Some i(3) by (simp add: select_path_mapping_targets_def exact_mapping_find)
  ultimately show ?thesis using i(1,2,4) by (metis option.inject)
qed

theorem select_path_mapping_spec_witness:
  "select_path_mapping_targets ''@/core/v'' [\<lparr>pattern = ''@/*'', substitutions = [''any/*'']\<rparr>,
      \<lparr>pattern = ''@/core/*'', substitutions = [''core/*'', ''*/*'']\<rparr>] = Some [''core/v'']
   \<and> (\<exists>i before captured. is_best ''@/core/v'' [''@/*'', ''@/core/*''] i before captured)"
proof -
  let ?ms = "[\<lparr>pattern = ''@/*'', substitutions = [''any/*'']\<rparr>,
      \<lparr>pattern = ''@/core/*'', substitutions = [''core/*'', ''*/*'']\<rparr>]"
  have sel: "select_path_mapping_targets ''@/core/v'' ?ms = Some [''core/v'']" by code_simp
  have "\<not> exact_key ''@/core/v'' m" if "m \<in> set ?ms" for m using that by (auto simp: exact_key_def)
  then have "\<not> (\<exists>i < length ?ms. exact_key ''@/core/v'' (?ms ! i))" using nth_mem by blast
  then have "\<exists>i before captured. is_best ''@/core/v'' (map pattern ?ms) i before captured"
    using iffD1[OF select_path_mapping_spec sel] by blast
  then show ?thesis using sel by simp
qed

section \<open>The candidate table\<close>

text \<open>The extension-substitution matrix of the documentation of \<open>candidates.rs\<close>: whether the path
  itself is tried first, and the extensions that replace the written one.\<close>

definition extension_matrix :: "rstr \<rightharpoonup> bool \<times> rstr list" where
  "extension_matrix = map_of
     [(''.ts'', False, [''.ts'', ''.tsx'', ''.d.ts'']),
      (''.d.ts'', False, [''.ts'', ''.tsx'', ''.d.ts'']),
      (''.js'', True, [''.ts'', ''.tsx'', ''.d.ts'']),
      (''.jsx'', True, [''.ts'', ''.tsx'', ''.d.ts'']),
      (''.tsx'', False, [''.tsx'', ''.ts'', ''.d.ts'']),
      (''.mjs'', True, [''.mts'', ''.d.mts'']),
      (''.mts'', False, [''.mts'', ''.d.mts'']),
      (''.d.mts'', False, [''.mts'', ''.d.mts'']),
      (''.cjs'', True, [''.cts'', ''.d.cts'']),
      (''.cts'', False, [''.cts'', ''.d.cts'']),
      (''.d.cts'', False, [''.cts'', ''.d.cts'']),
      (''.json'', True, [])]"

lemma ends_with_rev: "ends_with s p \<longleftrightarrow> starts_with (rev s) (rev p)"
  by (metis ends_with_append starts_with_append rev_append rev_rev_ident)

lemma split_on_append_free:
  "c \<notin> set t \<Longrightarrow> split_on c (s @ t) = butlast (split_on c s) @ [last (split_on c s) @ t]"
proof (induction s)
  case (Cons d s)
  then show ?case by (cases "split_on c s") auto
qed simp

lemma split_on_tail: "c \<notin> set t \<Longrightarrow> last (split_on c (s @ t)) = last (split_on c s) @ t"
  by (simp add: split_on_append_free)

lemma strip_extension_append: "CHR ''.'' \<notin> set e \<Longrightarrow> strip_extension (stem @ CHR ''.'' # e) = stem"
  by (simp add: strip_extension_def rsplit_once_def)

lemma strip_suffix_append: "strip_suffix (s @ t) t = Some s"
  by (simp add: strip_suffix_def ends_with_append)

lemma last_segment_ext:
  assumes "ends_with specifier ext" "CHR ''/'' \<notin> set ext"
  obtains name where "last (split_on (CHR ''/'') specifier) = name @ ext"
  using assms split_on_tail by (auto simp: ends_with_append)

lemma join_with_last: "ps \<noteq> [] \<Longrightarrow> \<exists>r. join_with sep ps = r @ last ps"
proof (induction ps rule: list_nonempty_induct)
  case (cons p ps)
  then obtain r where "join_with sep ps = r @ last ps" by blast
  then show ?case using cons.hyps by (intro exI[of _ "p @ sep @ r"]) (simp add: join_with_Cons)
qed simp

lemma split_on_last_tail: "ends_with s (last (split_on c s))"
  unfolding ends_with_append using join_with_last[of "split_on c s" "[c]"] by (simp add: join_with_split_on)

lemma last_segment_ends:
  assumes "CHR ''/'' \<notin> set ext"
  shows "ends_with (last (split_on (CHR ''/'') specifier)) ext \<longleftrightarrow> ends_with specifier ext"
proof
  assume "ends_with (last (split_on (CHR ''/'') specifier)) ext"
  moreover have "ends_with specifier (last (split_on (CHR ''/'') specifier))"
    by (rule split_on_last_tail)
  ultimately show "ends_with specifier ext" by (auto simp: ends_with_append)
next
  assume "ends_with specifier ext"
  then show "ends_with (last (split_on (CHR ''/'') specifier)) ext"
    using last_segment_ext[OF _ assms] unfolding ends_with_append by blast
qed

lemma classify_by_ends:
  "classify_relative_specifier specifier =
     (let last_segment = last (split_on (CHR ''/'') specifier) in
      if last_segment = ''.'' \<or> last_segment = ''..'' then Extensionless
      else if ends_with specifier ''.json'' then ExplicitJson
      else if ends_with specifier ''.tsx'' then ExplicitTsx
      else if ends_with specifier ''.ts'' then ExplicitTs
      else if ends_with specifier ''.js'' \<or> ends_with specifier ''.jsx'' then ExplicitJs
      else if ends_with specifier ''.mjs'' \<or> ends_with specifier ''.mts'' then ExplicitMjs
      else if ends_with specifier ''.cjs'' \<or> ends_with specifier ''.cts'' then ExplicitCjs
      else Extensionless)"
proof -
  have "ends_with (last (split_on (CHR ''/'') specifier)) ext = ends_with specifier ext"
    if "ext \<in> {''.json'', ''.tsx'', ''.ts'', ''.js'', ''.jsx'', ''.mjs'', ''.mts'', ''.cjs'', ''.cts''}" for ext
    using that by (intro last_segment_ends) auto
  then show ?thesis unfolding classify_relative_specifier_def Let_def by simp
qed

lemma not_dot_segment:
  assumes "ends_with specifier ext" "CHR ''/'' \<notin> set ext" "2 < length ext"
  shows "last (split_on (CHR ''/'') specifier) \<notin> {''.'', ''..''}"
proof (rule last_segment_ext[OF assms(1,2)])
  fix name assume "last (split_on (CHR ''/'') specifier) = name @ ext"
  then have "2 < length (last (split_on (CHR ''/'') specifier))" using assms(3) by simp
  then show ?thesis by auto
qed

lemma classify_append:
  assumes "CHR ''/'' \<notin> set ext" "2 < length ext"
  shows "classify_relative_specifier (s @ ext) =
     (if ends_with (s @ ext) ''.json'' then ExplicitJson
      else if ends_with (s @ ext) ''.tsx'' then ExplicitTsx
      else if ends_with (s @ ext) ''.ts'' then ExplicitTs
      else if ends_with (s @ ext) ''.js'' \<or> ends_with (s @ ext) ''.jsx'' then ExplicitJs
      else if ends_with (s @ ext) ''.mjs'' \<or> ends_with (s @ ext) ''.mts'' then ExplicitMjs
      else if ends_with (s @ ext) ''.cjs'' \<or> ends_with (s @ ext) ''.cts'' then ExplicitCjs
      else Extensionless)"
proof -
  have "ends_with (s @ ext) ext" by (auto simp: ends_with_append)
  from not_dot_segment[OF this assms] show ?thesis unfolding classify_by_ends Let_def by simp
qed

lemmas candidate_simps = relative_import_candidates_def substitution_candidates_js_def substitution_candidates_mjs_def
  substitution_candidates_cjs_def with_exact_def module_flavor_candidates_def

lemma strip_extensions:
  "strip_extension (s @ ''.js'') = s" "strip_extension (s @ ''.jsx'') = s" "strip_extension (s @ ''.tsx'') = s"
  "strip_extension (s @ ''.ts'') = s" "strip_extension (s @ ''.mts'') = s" "strip_extension (s @ ''.cts'') = s"
  "strip_extension (s @ ''.mjs'') = s" "strip_extension (s @ ''.cjs'') = s"
  using strip_extension_append[of _ s] by simp_all

lemma strip_ts_extensions:
  "strip_ts_extension (s @ ''.d.ts'') = s" "strip_ts_extension (s @ ''.d.mts'') = s" "strip_ts_extension (s @ ''.d.cts'') = s"
  "strip_ts_extension (s @ ''.mjs'') = s" "strip_ts_extension (s @ ''.cjs'') = s"
  "\<not> ends_with s ''.d'' \<Longrightarrow> strip_ts_extension (s @ ''.ts'') = s"
  "\<not> ends_with s ''.d'' \<Longrightarrow> strip_ts_extension (s @ ''.mts'') = s"
  "\<not> ends_with s ''.d'' \<Longrightarrow> strip_ts_extension (s @ ''.cts'') = s"
  by (simp_all add: strip_ts_extension_def strip_suffix_def ends_with_rev strip_extensions)

lemma candidates_matrix_row:
  assumes "extension_matrix ext = Some (exact, replacements)"
    "ext \<in> {''.ts'', ''.mts'', ''.cts''} \<longrightarrow> \<not> ends_with stem ''.d''"
  shows "relative_import_candidates (stem @ ext) (s @ ext) =
    (if exact then [stem @ ext] else []) @ map ((@) stem) replacements"
  using assms(2) map_of_SomeD[OF assms(1)[unfolded extension_matrix_def]]
  by (simp, elim disjE) (simp_all add: candidate_simps classify_append ends_with_rev strip_extensions strip_ts_extensions)

text \<open>
  C21. The candidates of a relative import follow the documented matrix. A specifier with a known
  extension tries the path itself, for a runtime extension and for JSON, and then the extensions of
  its row in their order in place of the written one, and never a directory index; any other
  specifier tries the path, the three TypeScript extensions and the three directory indices.
\<close>

theorem relative_import_candidates_matrix:
  "(\<forall>ext exact replacements stem.
      extension_matrix ext = Some (exact, replacements) \<longrightarrow> ends_with specifier ext
      \<longrightarrow> (ext \<in> {''.ts'', ''.mts'', ''.cts''} \<longrightarrow> \<not> ends_with stem ''.d'')
      \<longrightarrow> relative_import_candidates (stem @ ext) specifier =
           (if exact then [stem @ ext] else []) @ map ((@) stem) replacements)
   \<and> ((\<forall>ext \<in> dom extension_matrix. \<not> ends_with specifier ext) \<longrightarrow>
      relative_import_candidates joined specifier =
        map ((@) joined) [[], ''.ts'', ''.tsx'', ''.d.ts'', ''/index.ts'', ''/index.tsx'', ''/index.d.ts''])"
proof (intro conjI allI impI)
  fix ext exact replacements stem
  assume row: "extension_matrix ext = Some (exact, replacements)" and ends: "ends_with specifier ext"
    and d: "ext \<in> {''.ts'', ''.mts'', ''.cts''} \<longrightarrow> \<not> ends_with stem ''.d''"
  from ends obtain s where "specifier = s @ ext" by (auto simp: ends_with_append)
  then show "relative_import_candidates (stem @ ext) specifier =
           (if exact then [stem @ ext] else []) @ map ((@) stem) replacements"
    using candidates_matrix_row[OF row d] by simp
next
  assume none: "\<forall>ext \<in> dom extension_matrix. \<not> ends_with specifier ext"
  have "ext \<in> dom extension_matrix" if "ext \<in> {''.json'', ''.tsx'', ''.ts'', ''.js'', ''.jsx'', ''.mjs'', ''.mts'', ''.cjs'', ''.cts''}" for ext
    using that unfolding extension_matrix_def dom_map_of_conv_image_fst by (simp, elim disjE) simp_all
  then have "classify_relative_specifier specifier = Extensionless"
    using none by (simp add: classify_by_ends)
  then show "relative_import_candidates joined specifier =
        map ((@) joined) [[], ''.ts'', ''.tsx'', ''.d.ts'', ''/index.ts'', ''/index.tsx'', ''/index.d.ts'']"
    by (simp add: relative_import_candidates_def extensionless_candidates_def directory_index_candidates_def)
qed

theorem relative_import_candidates_matrix_witness:
  "relative_import_candidates ''src/util.mjs'' ''./util.mjs'' = [''src/util.mjs'', ''src/util.mts'', ''src/util.d.mts'']"
proof -
  have "extension_matrix ''.mjs'' = Some (True, [''.mts'', ''.d.mts''])" "ends_with ''./util.mjs'' ''.mjs''"
    by code_simp+
  then show ?thesis
    using conjunct1[OF relative_import_candidates_matrix[of "''./util.mjs''" "[]"],
        rule_format, of "''.mjs''" True "[''.mts'', ''.d.mts'']" "''src/util''"] by simp
qed

section \<open>The resolution memo\<close>

interpretation rel: memo_table "resolve_fresh env" "relative_module_cached env"
  by unfold_locales (simp_all add: relative_module_cached_def)

text \<open>The caches a check can hold: cleared at its start, then changed by resolutions only.\<close>

inductive reached_cache :: "resolver_env \<Rightarrow> relative_module_cache \<Rightarrow> bool" for env where
  cleared: "reached_cache env Map.empty"
| resolved: "reached_cache env cache \<Longrightarrow>
    resolve_relative_module_in_mode env importer specifier mode cache = Some (r, cache') \<Longrightarrow> reached_cache env cache'"

definition resolve_without_cache ::
    "resolver_env \<Rightarrow> rstr \<Rightarrow> rstr \<Rightarrow> resolution_mode_override option \<Rightarrow> module_resolution option option" where
  "resolve_without_cache env importer specifier mode =
     (let esm = relative_resolution_is_esm env importer mode in
      if \<not> is_relative_specifier specifier \<or> program_files env = [] \<or> esm \<and> is_extensionless_relative_specifier specifier
      then Some None
      else if relative_specifier_names_directory specifier
      then (if esm then Some None else resolve_relative_directory env importer specifier)
      else case resolve_relative_module_uncached env importer specifier of
             Some None \<Rightarrow>
               if esm then Some None else resolve_relative_path_with_implicit_extensions env importer specifier
           | answer \<Rightarrow> answer)"

lemma resolve_fresh_without_cache:
  "resolve_without_cache env importer specifier mode =
     (let esm = relative_resolution_is_esm env importer mode in
      if \<not> is_relative_specifier specifier \<or> program_files env = [] \<or> esm \<and> is_extensionless_relative_specifier specifier
      then Some None else resolve_fresh env (importer, specifier, esm))"
  by (simp add: resolve_without_cache_def resolve_fresh_def Let_def split: option.split)

lemma reached_sound: "reached_cache env cache \<Longrightarrow> rel.sound env cache"
proof (induction rule: reached_cache.induct)
  case (resolved cache importer specifier mode r cache')
  then show ?case
    by (auto simp: resolve_relative_module_in_mode_def Let_def intro: rel.sound_ask split: if_splits)
qed (rule rel.sound_empty)

text \<open>
  C22. The resolution memo is transparent: from every cache a check can hold, resolving a specifier
  in a mode gives the answer, or the panic, of the resolution without a cache.
\<close>

theorem resolution_memo_transparent:
  assumes "reached_cache env cache"
  shows "map_option fst (resolve_relative_module_in_mode env importer specifier mode cache) =
      resolve_without_cache env importer specifier mode"
  using rel.transparent[OF reached_sound[OF assms]]
  by (simp add: resolve_relative_module_in_mode_def resolve_fresh_without_cache Let_def)

definition demo_env :: resolver_env where
  "demo_env = \<lparr>node_esm_files = Some {''/p/main.mts''}, allow_arbitrary_extensions = False,
     env_realpath = Some, program_files = [''/p/main.mts'', ''/p/util.ts'', ''/p/foo.bar.ts''],
     file_index_by_identity = map_of [(''/p/main.mts'', 0), (''/p/util.ts'', 1), (''/p/foo.bar.ts'', 2)]\<rparr>"

definition demo_cache :: relative_module_cache where
  "demo_cache = [(''/p/main.mts'', ''./util'', False) \<mapsto> Some \<lparr>resolved_file_index = 1, resolved_file_name = ''/p/util.ts''\<rparr>]"

theorem resolution_memo_transparent_witness:
  "resolve_relative_module_in_mode demo_env ''/p/main.mts'' ''./util'' (Some RequireMode) demo_cache =
     Some (Some \<lparr>resolved_file_index = 1, resolved_file_name = ''/p/util.ts''\<rparr>, demo_cache)
   \<and> resolve_without_cache demo_env ''/p/main.mts'' ''./util'' (Some RequireMode) =
     Some (Some \<lparr>resolved_file_index = 1, resolved_file_name = ''/p/util.ts''\<rparr>)"
proof -
  have "resolve_fresh demo_env (''/p/main.mts'', ''./util'', False) =
      Some (Some \<lparr>resolved_file_index = 1, resolved_file_name = ''/p/util.ts''\<rparr>)"
    by code_simp
  then have "resolve_relative_module_in_mode demo_env ''/p/main.mts'' ''./util'' (Some RequireMode) Map.empty =
      Some (Some \<lparr>resolved_file_index = 1, resolved_file_name = ''/p/util.ts''\<rparr>,
        [(''/p/main.mts'', ''./util'', False) \<mapsto> Some \<lparr>resolved_file_index = 1, resolved_file_name = ''/p/util.ts''\<rparr>])"
    by (simp add: resolve_relative_module_in_mode_def is_relative_specifier_def demo_env_def relative_resolution_is_esm_def
        relative_module_cached_def)
  then have "reached_cache demo_env demo_cache"
    unfolding demo_cache_def by (rule reached_cache.resolved[OF reached_cache.cleared])
  moreover have "resolve_relative_module_in_mode demo_env ''/p/main.mts'' ''./util'' (Some RequireMode) demo_cache =
      Some (Some \<lparr>resolved_file_index = 1, resolved_file_name = ''/p/util.ts''\<rparr>, demo_cache)"
    by (simp add: resolve_relative_module_in_mode_def is_relative_specifier_def demo_env_def relative_resolution_is_esm_def
        relative_module_cached_def demo_cache_def)
  ultimately show ?thesis
    using resolution_memo_transparent[of demo_env demo_cache "''/p/main.mts''" "''./util''" "Some RequireMode"] by simp
qed

section \<open>Where the resolver departs from its documentation\<close>

text \<open>
  A module in the root directory is resolved as a module without a directory: a relative
  specifier of \<open>/main.ts\<close> leads to a relative path, which names a file of the working
  directory and not of the root.
\<close>

theorem root_importer_loses_root:
  assumes "normalize_path_string (''/'' @ name) = Some (''/'' @ name)" "CHR ''/'' \<notin> set name"
  shows "relative_specifier_path (''/'' @ name) specifier = normalize_path_string specifier"
  using assms by (simp add: relative_specifier_path_def module_directory_def rsplit_once_def)

theorem root_importer_loses_root_witness:
  "relative_specifier_path ''/main.ts'' ''./util'' = Some ''util''
   \<and> relative_specifier_path ''/src/main.ts'' ''../util'' = Some ''/util''"
proof -
  have "normalize_path_string (''/'' @ ''main.ts'') = Some (''/'' @ ''main.ts'')" "CHR ''/'' \<notin> set ''main.ts''"
    by code_simp+
  from root_importer_loses_root[OF this, of "''./util''"]
  have "relative_specifier_path ''/main.ts'' ''./util'' = normalize_path_string ''./util''" by simp
  moreover have "normalize_path_string ''./util'' = Some ''util''"
    "relative_specifier_path ''/src/main.ts'' ''../util'' = Some ''/util''" by code_simp+
  ultimately show ?thesis by simp
qed

text \<open>
  A specifier whose last segment has a dot but no known extension resolves with an appended
  extension in ESM mode too, where a relative specifier is to get none: the guard looks for a dot
  only, and the candidates of such a specifier are those of one without an extension.
\<close>

theorem esm_appends_extension:
  "relative_resolution_is_esm demo_env ''/p/main.mts'' None
   \<and> map_option fst (resolve_relative_module demo_env ''/p/main.mts'' ''./foo.bar'' Map.empty) =
       Some (Some \<lparr>resolved_file_index = 2, resolved_file_name = ''/p/foo.bar.ts''\<rparr>)
   \<and> map_option fst (resolve_relative_module demo_env ''/p/main.mts'' ''./util'' Map.empty) = Some None"
  by code_simp

text \<open>
  The fallback to \<open>baseUrl\<close> is not limited to specifiers no \<open>paths\<close> pattern matches: where a
  pattern matches but none of its targets is loaded, the specifier still resolves against
  \<open>baseUrl\<close>.
\<close>

theorem base_url_after_match:
  assumes "select_path_mapping_targets specifier paths = Some targets"
    "first_target realpath base loaded_files targets = Some None"
  shows "resolve_path_mapping_of realpath paths (Some base) root_dir loaded_files specifier =
    try_resolve_base_url realpath specifier base loaded_files"
  using assms by (simp add: resolve_path_mapping_of_def try_resolve_path_mapping_def)

theorem base_url_after_match_witness:
  "select_path_mapping_targets ''lib/x'' [\<lparr>pattern = ''lib/*'', substitutions = [''gone/*'']\<rparr>] = Some [''gone/x'']
   \<and> resolve_path_mapping_of Some [\<lparr>pattern = ''lib/*'', substitutions = [''gone/*'']\<rparr>] (Some ''/p'') ''/p''
       [''/p/lib/x.ts'' \<mapsto> ''/p/lib/x.ts''] ''lib/x'' = Some (Some ''/p/lib/x.ts'')"
proof -
  have sel: "select_path_mapping_targets ''lib/x'' [\<lparr>pattern = ''lib/*'', substitutions = [''gone/*'']\<rparr>] = Some [''gone/x'']"
    "first_target Some ''/p'' [''/p/lib/x.ts'' \<mapsto> ''/p/lib/x.ts''] [''gone/x''] = Some None"
    "try_resolve_base_url Some ''lib/x'' ''/p'' [''/p/lib/x.ts'' \<mapsto> ''/p/lib/x.ts''] = Some (Some ''/p/lib/x.ts'')"
    by code_simp+
  then show ?thesis using base_url_after_match[OF sel(1,2)] by simp
qed

section \<open>The path mapping pass\<close>

lemma resolve_specifiers_total:
  assumes "\<forall>s \<in> set specifiers. resolve_one s \<noteq> None" "distinct specifiers"
  shows "\<exists>m. resolve_specifiers resolve_one specifiers m0 = Some m
    \<and> (\<forall>s. m s = (if s \<in> set specifiers then (case the (resolve_one s) of Some p \<Rightarrow> Some p | None \<Rightarrow> m0 s) else m0 s))"
  using assms
proof (induction specifiers arbitrary: m0)
  case (Cons a specifiers)
  then obtain found where found: "resolve_one a = Some found" by auto
  show ?case using Cons.IH[of "case found of Some path \<Rightarrow> m0(a \<mapsto> path) | None \<Rightarrow> m0"] Cons.prems found
    by (auto split: option.split if_splits)
qed simp

text \<open>
  What the pass over all sources records: if no path panics, each external specifier of the
  sources is recorded with exactly the file its own resolution finds, and nothing else is recorded;
  the order in which the specifiers are visited does not matter.
\<close>

theorem resolve_path_mappings_spec:
  assumes "loaded_lookup realpath inputs Map.empty = Some loaded_files"
    "\<forall>s \<in> set scanned. resolve_path_mapping_of realpath paths base_url root_dir loaded_files s \<noteq> None"
  shows "\<exists>resolved_modules. resolve_path_mappings realpath inputs scanned paths base_url root_dir = Some resolved_modules
    \<and> (\<forall>s p. resolved_modules s = Some p \<longleftrightarrow>
         s \<in> set scanned \<and> is_external_specifier s
         \<and> resolve_path_mapping_of realpath paths base_url root_dir loaded_files s = Some (Some p))"
proof (cases "paths = [] \<and> base_url = None")
  case True
  then show ?thesis by (simp add: resolve_path_mappings_def resolve_path_mapping_of_def)
next
  case False
  let ?one = "resolve_path_mapping_of realpath paths base_url root_dir loaded_files"
  let ?ss = "remdups (filter is_external_specifier scanned)"
  obtain m where m: "resolve_specifiers ?one ?ss Map.empty = Some m"
    "\<forall>s. m s = (if s \<in> set ?ss then (case the (?one s) of Some p \<Rightarrow> Some p | None \<Rightarrow> None) else None)"
    using resolve_specifiers_total[of ?ss ?one Map.empty] assms(2) by auto
  have "m s = Some p \<longleftrightarrow> s \<in> set scanned \<and> is_external_specifier s \<and> ?one s = Some (Some p)" for s p
  proof (cases "s \<in> set scanned \<and> is_external_specifier s")
    case True
    then obtain found where "?one s = Some found" using assms(2) by auto
    then show ?thesis using m(2) True by (cases found) auto
  qed (use m(2) in auto)
  moreover have "resolve_path_mappings realpath inputs scanned paths base_url root_dir = Some m"
    using False assms(1) m(1) by (auto simp: resolve_path_mappings_def)
  ultimately show ?thesis by blast
qed

theorem resolve_path_mappings_spec_witness:
  "\<exists>resolved_modules. resolve_path_mappings Some [''/p/core/v.ts''] [''@/v'', ''./x''] [\<lparr>pattern = ''@/*'', substitutions = [''core/*'']\<rparr>]
      None ''/p'' = Some resolved_modules \<and> resolved_modules ''@/v'' = Some ''/p/core/v.ts'' \<and> resolved_modules ''./x'' = None"
proof -
  let ?paths = "[\<lparr>pattern = ''@/*'', substitutions = [''core/*'']\<rparr>]"
  have "canonical_string Some ''/p/core/v.ts'' = Some ''/p/core/v.ts''" by code_simp
  then have loaded: "loaded_lookup Some [''/p/core/v.ts''] Map.empty = Some [''/p/core/v.ts'' \<mapsto> ''/p/core/v.ts'']" by simp
  have v: "resolve_path_mapping_of Some ?paths None ''/p'' [''/p/core/v.ts'' \<mapsto> ''/p/core/v.ts''] ''@/v'' = Some (Some ''/p/core/v.ts'')"
    and x: "resolve_path_mapping_of Some ?paths None ''/p'' [''/p/core/v.ts'' \<mapsto> ''/p/core/v.ts''] ''./x'' = Some None"
    and ext: "is_external_specifier ''@/v''" by code_simp+
  have "\<forall>s \<in> set [''@/v'', ''./x'']. resolve_path_mapping_of Some ?paths None ''/p'' [''/p/core/v.ts'' \<mapsto> ''/p/core/v.ts''] s \<noteq> None"
    using v x by simp
  then obtain m where m: "resolve_path_mappings Some [''/p/core/v.ts''] [''@/v'', ''./x''] ?paths None ''/p'' = Some m"
    "\<And>s p. m s = Some p \<longleftrightarrow> s \<in> set [''@/v'', ''./x''] \<and> is_external_specifier s
       \<and> resolve_path_mapping_of Some ?paths None ''/p'' [''/p/core/v.ts'' \<mapsto> ''/p/core/v.ts''] s = Some (Some p)"
    using resolve_path_mappings_spec[OF loaded] by blast
  have "m ''@/v'' = Some ''/p/core/v.ts''" using v ext by (simp add: m(2))
  moreover have "m ''./x'' = None" using m(2)[of "''./x''"] x by (metis not_Some_eq option.inject)
  ultimately show ?thesis using m(1) by blast
qed

end
