(* ===== verification/Types.thy ===== *)
theory Types
  imports Program_Caches
begin

text \<open>
  The type representation of the checker (\<open>crates/surge-ts-types/src/ty.rs\<close>, \<open>function.rs\<close>,
  \<open>object.rs\<close>, \<open>reference.rs\<close>, \<open>union.rs\<close>), its \<open>PartialEq\<close>, and the two structural digests of
  \<open>union.rs\<close>: the coarse \<open>dedup_key\<close> of union deduplication and the fine \<open>type_conflict_digest\<close> of
  the speculative checker.

  \<^item> \<open>Arc\<close> and \<open>Box\<close> are transparent; the \<open>Arc::ptr_eq\<close> tests in front of a structural comparison
    only decide how fast it answers. The addresses of function payloads and property maps, which the
    interner compares, are fields of the values. Of the handles, the fields that neither the
    equality, the digests, the union operations nor the interner read (display names of signatures,
    provenance marks of references) are left out.
  \<^item> A \<open>PropertyMap\<close> is an \<open>IndexMap\<close>: an association list with distinct keys, whose equality
    ignores the order. \<open>wf_type\<close> says that the keys are distinct.
  \<^item> Depths and budgets are \<open>nat\<close>: the source counts them up to 8 and down from 64 in \<open>u8\<close> and
    \<open>u32\<close>, after a test.
\<close>

section \<open>The types\<close>

datatype ty =
    StringT | NumberT | BooleanT | BigIntT | SymbolT | UndefinedT | NullT | VoidT | AnyT | UnknownT
  | GenuineUnknownT | ErrorT
  | TypeParameterT rstr u32
  | NeverT
  | StringLiteralT rstr
  | NumberLiteralT rstr
  | BooleanLiteralT bool
  | FunctionT function_type
  | ObjectT object_type
  | ArrayT ty
  | TupleT "ty list"
  | OpenTupleT (leading: "ty list") (rest_slot: ty) (trailing: "ty list")
  | UnionT union_handle
  | ReferenceT type_reference
and function_type =
  FunctionType (parameters: "ty list") (parameter_list_id: "u64 option") (return_type: ty) (is_variadic: bool)
    (required_parameter_count: u64) (payload_address: u64)
    (type_parameter_head: "rstr option")
and object_type =
  ObjectType (properties: "(rstr \<times> object_property) list") (string_index_type: "ty option")
    (number_index_type: "ty option") (string_index_readonly: bool) (number_index_readonly: bool)
    (construct_signature: "function_type option") (call_signature: "function_type option")
    (is_intersection: bool) (non_primitive: bool) (intersection_operands: "ty list option")
    (properties_address: u64) (object_alias_name: "rstr option") (object_alias_id: "rstr option")
and object_property =
  ObjectProperty (property_ty: ty) (optional: bool) (method_flag: bool) (readonly: bool)
    (restriction: "(bool \<times> rstr) option") (index_slot: bool)
and union_handle =
  UnionHandle (union_types: "ty list") (list_id: "u64 option") (alias_name: "rstr option")
and type_reference =
  TypeReference (reference_id: rstr) (reference_display: rstr) (arguments: "ty list")

section \<open>Equality\<close>

definition is_memberless_intersection :: "object_type \<Rightarrow> bool" where
  "is_memberless_intersection obj \<longleftrightarrow>
     is_intersection obj \<and> properties obj = [] \<and> string_index_type obj = None
     \<and> number_index_type obj = None \<and> intersection_operands obj \<noteq> None"

text \<open>Equality of two vectors, and of two \<open>IndexMap\<close>s: as many entries, and each entry of the first
  is found in the second. The first argument carries the comparisons of its elements.\<close>

definition vec_eq :: "('a \<Rightarrow> bool) list \<Rightarrow> 'a list \<Rightarrow> bool" where
  "vec_eq es ys \<longleftrightarrow> list_all2 (\<lambda>e y. e y) es ys"

definition opt_eq :: "('a \<Rightarrow> bool) option \<Rightarrow> 'a option \<Rightarrow> bool" where
  "opt_eq e y = (case e of None \<Rightarrow> y = None | Some e \<Rightarrow> (case y of None \<Rightarrow> False | Some y \<Rightarrow> e y))"

definition index_map_eq :: "(rstr \<times> ('a \<Rightarrow> bool)) list \<Rightarrow> (rstr \<times> 'a) list \<Rightarrow> bool" where
  "index_map_eq es ys \<longleftrightarrow>
     length es = length ys
     \<and> list_all (\<lambda>(k, e). case map_of ys k of None \<Rightarrow> False | Some y \<Rightarrow> e y) es"

primrec type_eq :: "ty \<Rightarrow> ty \<Rightarrow> bool"
  and function_eq :: "function_type \<Rightarrow> function_type \<Rightarrow> bool"
  and object_eq :: "object_type \<Rightarrow> object_type \<Rightarrow> bool"
  and property_eq :: "object_property \<Rightarrow> object_property \<Rightarrow> bool"
  and union_eq :: "union_handle \<Rightarrow> union_handle \<Rightarrow> bool"
  and nominal_eq :: "type_reference \<Rightarrow> type_reference \<Rightarrow> bool" where
  "type_eq StringT = (\<lambda>b. b = StringT)"
| "type_eq NumberT = (\<lambda>b. b = NumberT)"
| "type_eq BooleanT = (\<lambda>b. b = BooleanT)"
| "type_eq BigIntT = (\<lambda>b. b = BigIntT)"
| "type_eq SymbolT = (\<lambda>b. b = SymbolT)"
| "type_eq UndefinedT = (\<lambda>b. b = UndefinedT)"
| "type_eq NullT = (\<lambda>b. b = NullT)"
| "type_eq VoidT = (\<lambda>b. b = VoidT)"
| "type_eq AnyT = (\<lambda>b. b = AnyT)"
| "type_eq UnknownT = (\<lambda>b. b = UnknownT)"
| "type_eq GenuineUnknownT = (\<lambda>b. b = GenuineUnknownT)"
| "type_eq ErrorT = (\<lambda>b. b = ErrorT)"
| "type_eq (TypeParameterT n owner) = (\<lambda>b. b = TypeParameterT n owner)"
| "type_eq NeverT = (\<lambda>b. b = NeverT)"
| "type_eq (StringLiteralT s) = (\<lambda>b. b = StringLiteralT s)"
| "type_eq (NumberLiteralT s) = (\<lambda>b. b = NumberLiteralT s)"
| "type_eq (BooleanLiteralT v) = (\<lambda>b. b = BooleanLiteralT v)"
| "type_eq (FunctionT f) = (\<lambda>b. case b of FunctionT g \<Rightarrow> function_eq f g | _ \<Rightarrow> False)"
| "type_eq (ObjectT obj) = (\<lambda>b. case b of ObjectT other \<Rightarrow> object_eq obj other | _ \<Rightarrow> False)"
| "type_eq (ArrayT e) = (\<lambda>b. case b of ArrayT e' \<Rightarrow> type_eq e e' | _ \<Rightarrow> False)"
| "type_eq (TupleT es) = (\<lambda>b. case b of TupleT es' \<Rightarrow> vec_eq (map type_eq es) es' | _ \<Rightarrow> False)"
| "type_eq (OpenTupleT ls r ts) = (\<lambda>b. case b of
     OpenTupleT ls' r' ts' \<Rightarrow> vec_eq (map type_eq ls) ls' \<and> type_eq r r' \<and> vec_eq (map type_eq ts) ts'
   | _ \<Rightarrow> False)"
| "type_eq (UnionT u) = (\<lambda>b. case b of UnionT v \<Rightarrow> union_eq u v | _ \<Rightarrow> False)"
| "type_eq (ReferenceT r) = (\<lambda>b. case b of ReferenceT r' \<Rightarrow> nominal_eq r r' | _ \<Rightarrow> False)"
| "function_eq (FunctionType ps pid r v c addr thd) = (\<lambda>g.
     vec_eq (map type_eq ps) (parameters g) \<and> pid = parameter_list_id g \<and> type_eq r (return_type g)
     \<and> v = is_variadic g \<and> c = required_parameter_count g)"
| "object_eq (ObjectType ps si ni sr nr cons call isec np ops addr al aid) = (\<lambda>other.
     index_map_eq (map (map_prod id property_eq) ps) (properties other)
     \<and> opt_eq (map_option type_eq si) (string_index_type other)
     \<and> opt_eq (map_option type_eq ni) (number_index_type other)
     \<and> sr = string_index_readonly other \<and> nr = number_index_readonly other
     \<and> opt_eq (map_option function_eq cons) (construct_signature other)
     \<and> opt_eq (map_option function_eq call) (call_signature other)
     \<and> (\<not> (is_memberless_intersection (ObjectType ps si ni sr nr cons call isec np ops addr al aid)
            \<or> is_memberless_intersection other)
        \<or> opt_eq (map_option vec_eq (map_option (map type_eq) ops)) (intersection_operands other)
          \<and> np = non_primitive other))"
| "property_eq (ObjectProperty t opt me ro res slot) = (\<lambda>q.
     type_eq t (property_ty q) \<and> opt = optional q \<and> me = method_flag q \<and> ro = readonly q
     \<and> res = restriction q \<and> slot = index_slot q)"
| "union_eq (UnionHandle ts lid al) = (\<lambda>v. vec_eq (map type_eq ts) (union_types v) \<and> lid = list_id v)"
| "nominal_eq (TypeReference rid disp as) = (\<lambda>r. rid = reference_id r \<and> vec_eq (map type_eq as) (arguments r))"

section \<open>Digests\<close>

fun type_discriminant :: "ty \<Rightarrow> nat" where
  "type_discriminant StringT = 0"
| "type_discriminant NumberT = 1"
| "type_discriminant BooleanT = 2"
| "type_discriminant BigIntT = 3"
| "type_discriminant SymbolT = 4"
| "type_discriminant UndefinedT = 5"
| "type_discriminant NullT = 6"
| "type_discriminant VoidT = 7"
| "type_discriminant AnyT = 8"
| "type_discriminant UnknownT = 9"
| "type_discriminant GenuineUnknownT = 10"
| "type_discriminant ErrorT = 11"
| "type_discriminant (TypeParameterT _ _) = 12"
| "type_discriminant NeverT = 13"
| "type_discriminant (StringLiteralT _) = 14"
| "type_discriminant (NumberLiteralT _) = 15"
| "type_discriminant (BooleanLiteralT _) = 16"
| "type_discriminant (FunctionT _) = 17"
| "type_discriminant (ObjectT _) = 18"
| "type_discriminant (ArrayT _) = 19"
| "type_discriminant (TupleT _) = 20"
| "type_discriminant (OpenTupleT _ _ _) = 21"
| "type_discriminant (UnionT _) = 22"
| "type_discriminant (ReferenceT _) = 23"

definition hash_usize :: "nat \<Rightarrow> u64 \<Rightarrow> u64" where
  "hash_usize n h = add_to_hash h (of_nat n)"

definition hash_list_id :: "u64 option \<Rightarrow> u64 \<Rightarrow> u64" where
  "hash_list_id i h = (case i of None \<Rightarrow> hash_usize 0 h | Some x \<Rightarrow> hash_u64 x (hash_usize 1 h))"

function dedup_key_into :: "ty \<Rightarrow> nat \<Rightarrow> u64 \<Rightarrow> u64" where
  "dedup_key_into t depth h =
     (let h = hash_usize (type_discriminant t) h in
      if 3 \<le> depth then h
      else case t of
          StringLiteralT v \<Rightarrow> hash_str v h
        | NumberLiteralT v \<Rightarrow> hash_str v h
        | BooleanLiteralT v \<Rightarrow> hash_bool v h
        | ReferenceT (TypeReference rid disp args) \<Rightarrow>
            fold (\<lambda>a. dedup_key_into a (depth + 1)) args (hash_usize (length args) (hash_str rid h))
        | ArrayT e \<Rightarrow> dedup_key_into e (depth + 1) h
        | OpenTupleT ls r ts \<Rightarrow>
            dedup_key_into r (depth + 1)
              (fold (\<lambda>e. dedup_key_into e (depth + 1)) (ls @ ts)
                (hash_usize (length ts) (hash_usize (length ls) h)))
        | TupleT es \<Rightarrow> fold (\<lambda>e. dedup_key_into e (depth + 1)) es (hash_usize (length es) h)
        | UnionT (UnionHandle ts lid al) \<Rightarrow>
            fold (\<lambda>e. dedup_key_into e (depth + 1)) ts (hash_usize (length ts) h)
        | ObjectT (ObjectType ps si ni sr nr cons call isec np ops addr al aid) \<Rightarrow>
            let h = hash_usize (length ps) h;
                total = fold (\<lambda>(n, p) acc. acc +
                  dedup_key_into (property_ty p) (depth + 1) (hash_bool (optional p) (hash_str n 0))) ps 0;
                h = hash_u64 total h;
                h = (case ni of None \<Rightarrow> add_to_hash h 0 | Some i \<Rightarrow> dedup_key_into i (depth + 1) (add_to_hash h 1))
            in (case si of None \<Rightarrow> add_to_hash h 0 | Some i \<Rightarrow> dedup_key_into i (depth + 1) (add_to_hash h 1))
        | FunctionT (FunctionType ps pid r v c addr thd) \<Rightarrow>
            dedup_key_into r (depth + 1)
              (fold (\<lambda>e. dedup_key_into e (depth + 1)) ps
                (hash_u64 c (hash_bool v (hash_usize (length ps) h))))
        | _ \<Rightarrow> h)"
  by pat_completeness simp
termination by (relation "measure (\<lambda>(t, depth, h). 3 - depth)") auto

declare dedup_key_into.simps [simp del]

definition dedup_key :: "ty \<Rightarrow> u64" where
  "dedup_key t = dedup_key_into t 0 0"

definition FINE_KEY_NODE_BUDGET :: nat where
  "FINE_KEY_NODE_BUDGET = 64"

definition FINE_KEY_MAX_DEPTH :: nat where
  "FINE_KEY_MAX_DEPTH = 8"

definition FINE_KEY_PROPERTY_BUDGET :: nat where
  "FINE_KEY_PROPERTY_BUDGET = 32"

text \<open>The hasher and the remaining budget are threaded through the walk.\<close>

function fine_key_into :: "ty \<Rightarrow> nat \<Rightarrow> u64 \<times> nat \<Rightarrow> u64 \<times> nat" where
  "fine_key_into t depth s =
     (let h = hash_usize (type_discriminant t) (fst s) in
      if FINE_KEY_MAX_DEPTH \<le> depth \<or> snd s = 0 then (h, snd s)
      else let budget = snd s - 1 in
        case t of
          StringLiteralT v \<Rightarrow> (hash_str v h, budget)
        | NumberLiteralT v \<Rightarrow> (hash_str v h, budget)
        | BooleanLiteralT v \<Rightarrow> (hash_bool v h, budget)
        | ReferenceT (TypeReference rid disp args) \<Rightarrow>
            fold (\<lambda>a. fine_key_into a (depth + 1)) args (hash_usize (length args) (hash_str rid h), budget)
        | ArrayT e \<Rightarrow> fine_key_into e (depth + 1) (h, budget)
        | TupleT es \<Rightarrow> fold (\<lambda>e. fine_key_into e (depth + 1)) es (hash_usize (length es) h, budget)
        | UnionT (UnionHandle ts lid al) \<Rightarrow>
            fold (\<lambda>e. fine_key_into e (depth + 1)) ts (hash_usize (length ts) (hash_list_id lid h), budget)
        | ObjectT (ObjectType ps si ni sr nr cons call isec np ops addr al aid) \<Rightarrow>
            let h = hash_usize (length ps) h;
                combined = fold (\<lambda>(n, p) acc. acc +
                  fst (fine_key_into (property_ty p) (depth + 1)
                    (hash_bool (optional p) (hash_str n 0), FINE_KEY_PROPERTY_BUDGET))) ps 0;
                h = hash_u64 combined h;
                (h, budget) = (case ni of None \<Rightarrow> (add_to_hash h 0, budget)
                                | Some i \<Rightarrow> fine_key_into i (depth + 1) (add_to_hash h 1, budget))
            in (case si of None \<Rightarrow> (add_to_hash h 0, budget)
                | Some i \<Rightarrow> fine_key_into i (depth + 1) (add_to_hash h 1, budget))
        | FunctionT (FunctionType ps pid r v c addr thd) \<Rightarrow>
            let (h, budget) =
              fine_key_into r (depth + 1)
                (fold (\<lambda>e. fine_key_into e (depth + 1)) ps (hash_usize (length ps) (hash_list_id pid h), budget))
            in (hash_u64 c (hash_bool v h), budget)
        | _ \<Rightarrow> (h, budget))"
  by pat_completeness simp
termination by (relation "measure (\<lambda>(t, depth, s). FINE_KEY_MAX_DEPTH - depth)") auto

declare fine_key_into.simps [simp del]

definition type_conflict_digest :: "ty \<Rightarrow> u64" where
  "type_conflict_digest t = fst (fine_key_into t 0 (0, FINE_KEY_NODE_BUDGET))"

section \<open>Well-formed types\<close>

text \<open>Every property map of the type has distinct keys.\<close>

primrec wf_type :: "ty \<Rightarrow> bool"
  and wf_function :: "function_type \<Rightarrow> bool"
  and wf_object :: "object_type \<Rightarrow> bool"
  and wf_property :: "object_property \<Rightarrow> bool"
  and wf_union :: "union_handle \<Rightarrow> bool"
  and wf_reference :: "type_reference \<Rightarrow> bool" where
  "wf_type StringT \<longleftrightarrow> True"
| "wf_type NumberT \<longleftrightarrow> True"
| "wf_type BooleanT \<longleftrightarrow> True"
| "wf_type BigIntT \<longleftrightarrow> True"
| "wf_type SymbolT \<longleftrightarrow> True"
| "wf_type UndefinedT \<longleftrightarrow> True"
| "wf_type NullT \<longleftrightarrow> True"
| "wf_type VoidT \<longleftrightarrow> True"
| "wf_type AnyT \<longleftrightarrow> True"
| "wf_type UnknownT \<longleftrightarrow> True"
| "wf_type GenuineUnknownT \<longleftrightarrow> True"
| "wf_type ErrorT \<longleftrightarrow> True"
| "wf_type (TypeParameterT n owner) \<longleftrightarrow> True"
| "wf_type NeverT \<longleftrightarrow> True"
| "wf_type (StringLiteralT s) \<longleftrightarrow> True"
| "wf_type (NumberLiteralT s) \<longleftrightarrow> True"
| "wf_type (BooleanLiteralT v) \<longleftrightarrow> True"
| "wf_type (FunctionT f) \<longleftrightarrow> wf_function f"
| "wf_type (ObjectT obj) \<longleftrightarrow> wf_object obj"
| "wf_type (ArrayT e) \<longleftrightarrow> wf_type e"
| "wf_type (TupleT es) \<longleftrightarrow> list_all id (map wf_type es)"
| "wf_type (OpenTupleT ls r ts) \<longleftrightarrow> list_all id (map wf_type ls) \<and> wf_type r \<and> list_all id (map wf_type ts)"
| "wf_type (UnionT u) \<longleftrightarrow> wf_union u"
| "wf_type (ReferenceT r) \<longleftrightarrow> wf_reference r"
| "wf_function (FunctionType ps pid r v c addr thd) \<longleftrightarrow> list_all id (map wf_type ps) \<and> wf_type r"
| "wf_object (ObjectType ps si ni sr nr cons call isec np ops addr al aid) \<longleftrightarrow>
     distinct (map fst ps) \<and> list_all (\<lambda>(k, ok). ok) (map (map_prod id wf_property) ps)
     \<and> pred_option id (map_option wf_type si) \<and> pred_option id (map_option wf_type ni)
     \<and> pred_option id (map_option wf_function cons) \<and> pred_option id (map_option wf_function call)
     \<and> pred_option (list_all id) (map_option (map wf_type) ops)"
| "wf_property (ObjectProperty t opt me ro res slot) \<longleftrightarrow> wf_type t"
| "wf_union (UnionHandle ts lid al) \<longleftrightarrow> list_all id (map wf_type ts)"
| "wf_reference (TypeReference rid disp as) \<longleftrightarrow> list_all id (map wf_type as)"

end
