(* ===== verification/Type_Laws.thy ===== *)
theory Type_Laws
  imports Types
begin

text \<open>
  The digests of a type are consistent with type equality: equal types have equal digests. Union
  deduplication and the conflict tracking of the speculative checker rest on it.
\<close>

section \<open>Equality of vectors and property maps\<close>

lemma list_all_id_map [simp]: "list_all id (map f xs) \<longleftrightarrow> list_all f xs"
  by (simp add: list.pred_map comp_def)

lemma pred_option_id_map [simp]: "pred_option id (map_option f x) \<longleftrightarrow> pred_option f x"
  by (simp add: option.pred_map comp_def)

lemma vec_eq_map: "vec_eq (map f xs) ys \<longleftrightarrow> list_all2 f xs ys"
  by (simp add: vec_eq_def list_all2_map1)

lemma opt_eq_map: "opt_eq (map_option f x) y \<longleftrightarrow> rel_option f x y"
  by (cases x; cases y) (simp_all add: opt_eq_def)

lemma index_map_eq_map:
  "index_map_eq (map (map_prod id f) ps) qs \<longleftrightarrow>
     length ps = length qs \<and> (\<forall>(k, p) \<in> set ps. \<exists>q. map_of qs k = Some q \<and> f p q)"
  by (auto simp: index_map_eq_def list_all_iff split: option.splits)

lemmas eq_simps = vec_eq_map opt_eq_map index_map_eq_map

text \<open>A fold over elements that act alike is the same fold.\<close>

lemma fold_vec_eq:
  assumes "list_all2 R xs ys" "\<And>x y. x \<in> set xs \<Longrightarrow> y \<in> set ys \<Longrightarrow> R x y \<Longrightarrow> f x = f y"
  shows "fold f xs = fold f ys"
  using assms
proof (induction xs ys rule: list_all2_induct)
  case (Cons x xs y ys)
  then have "f x = f y" "fold f xs = fold f ys" by simp_all
  then show ?case by simp
qed simp

text \<open>A sum over the entries of a map does not depend on their order.\<close>

lemma fold_add_sum: "fold (\<lambda>(k, p) acc. acc + f k p) ps (a :: u64) = a + (\<Sum>(k, p) \<leftarrow> ps. f k p)"
  by (induction ps arbitrary: a) (auto simp: ac_simps)

lemma sum_entries_keys:
  fixes f :: "'k \<Rightarrow> 'p \<Rightarrow> u64"
  assumes "distinct (map fst ps)"
  shows "(\<Sum>(k, p) \<leftarrow> ps. f k p) = (\<Sum>k \<in> fst ` set ps. f k (the (map_of ps k)))"
  using assms
proof (induction ps)
  case (Cons x ps)
  then have "fst x \<notin> fst ` set ps" by auto
  then have "(\<Sum>k \<in> fst ` set ps. f k (the (map_of (x # ps) k))) = (\<Sum>k \<in> fst ` set ps. f k (the (map_of ps k)))"
    by (intro sum.cong refl) (metis map_of_Cons_code(2) prod.collapse)
  then show ?case using Cons \<open>fst x \<notin> fst ` set ps\<close> by (cases x) auto
qed simp

lemma index_map_keys:
  assumes "length ps = length qs" "\<forall>(k, p) \<in> set ps. \<exists>q. map_of qs k = Some q \<and> R p q"
    "distinct (map fst ps)" "distinct (map fst qs)"
  shows "fst ` set ps = fst ` set qs"
proof (rule card_subset_eq)
  show "fst ` set ps \<subseteq> fst ` set qs"
  proof
    fix k assume "k \<in> fst ` set ps"
    then obtain p where "(k, p) \<in> set ps" by auto
    then obtain q where "map_of qs k = Some q" using assms(2) by blast
    then show "k \<in> fst ` set qs" by (force dest: map_of_SomeD)
  qed
  show "card (fst ` set ps) = card (fst ` set qs)"
    using assms(1,3,4) distinct_card[of "map fst ps"] distinct_card[of "map fst qs"] by simp
qed simp

lemma index_map_sum:
  fixes f :: "rstr \<Rightarrow> object_property \<Rightarrow> u64"
  assumes eq: "length ps = length qs" "\<forall>(k, p) \<in> set ps. \<exists>q. map_of qs k = Some q \<and> R p q"
    and keys: "distinct (map fst ps)" "distinct (map fst qs)"
    and f: "\<And>k p q. (k, p) \<in> set ps \<Longrightarrow> (k, q) \<in> set qs \<Longrightarrow> R p q \<Longrightarrow> f k p = f k q"
  shows "fold (\<lambda>(k, p) acc. acc + f k p) ps a = fold (\<lambda>(k, p) acc. acc + f k p) qs a"
proof -
  have "f k (the (map_of ps k)) = f k (the (map_of qs k))" if k: "k \<in> fst ` set ps" for k
  proof -
    obtain p where kp: "(k, p) \<in> set ps" using k by auto
    then have p: "map_of ps k = Some p" "(k, p) \<in> set ps" using map_of_is_SomeI[OF keys(1)] by simp_all
    moreover from p(2) eq(2) obtain q where "map_of qs k = Some q" "R p q" by fastforce
    ultimately show ?thesis using f[of k p q] by (simp add: map_of_SomeD)
  qed
  then show ?thesis
    unfolding fold_add_sum sum_entries_keys[OF keys(1)] sum_entries_keys[OF keys(2)]
    by (simp add: index_map_keys[OF eq keys] cong: sum.cong)
qed

section \<open>Consistency of the digests\<close>

text \<open>Equal types have the same constructor, with equal parts.\<close>

lemma type_eqE:
  assumes "type_eq a b"
  obtains (same) "a = b"
  | (fun_type) ps qs pid r r' v c addr addr' thd thd' where "a = FunctionT (FunctionType ps pid r v c addr thd)"
      "b = FunctionT (FunctionType qs pid r' v c addr' thd')"
      "list_all2 type_eq ps qs" "type_eq r r'"
  | (object) obj obj' where "a = ObjectT obj" "b = ObjectT obj'" "object_eq obj obj'"
  | (arr) e e' where "a = ArrayT e" "b = ArrayT e'" "type_eq e e'"
  | (tuple) es es' where "a = TupleT es" "b = TupleT es'" "list_all2 type_eq es es'"
  | (open_tuple) ls ls' r r' ts ts' where "a = OpenTupleT ls r ts" "b = OpenTupleT ls' r' ts'"
      "list_all2 type_eq ls ls'" "type_eq r r'" "list_all2 type_eq ts ts'"
  | (union_of) ts ts' lid al al' where "a = UnionT (UnionHandle ts lid al)" "b = UnionT (UnionHandle ts' lid al')"
      "list_all2 type_eq ts ts'"
  | (reference) rid d d' args args' where "a = ReferenceT (TypeReference rid d args)" "b = ReferenceT (TypeReference rid d' args')"
      "list_all2 type_eq args args'"
proof (cases a)
  case (FunctionT f)
  obtain ps pid r v c addr thd where f: "f = FunctionType ps pid r v c addr thd" by (cases f)
  obtain g where g: "b = FunctionT g" "function_eq f g" using assms FunctionT by (cases b) simp_all
  then show thesis using fun_type FunctionT f by (cases g) (simp add: eq_simps)
next
  case (UnionT u)
  obtain ts lid al where u: "u = UnionHandle ts lid al" by (cases u)
  obtain v where "b = UnionT v" "union_eq u v" using assms UnionT by (cases b) simp_all
  then show thesis using union_of UnionT u by (cases v) (simp add: eq_simps)
next
  case (ReferenceT r)
  obtain rid d args where r: "r = TypeReference rid d args" by (cases r)
  obtain r' where "b = ReferenceT r'" "nominal_eq r r'" using assms ReferenceT by (cases b) simp_all
  then show thesis using reference ReferenceT r by (cases r') (simp add: eq_simps)
next
  case (ObjectT obj)
  obtain obj' where "b = ObjectT obj'" "object_eq obj obj'" using assms ObjectT by (cases b) simp_all
  then show thesis using object ObjectT by blast
next
  case (ArrayT e)
  obtain e' where "b = ArrayT e'" "type_eq e e'" using assms ArrayT by (cases b) simp_all
  then show thesis using arr ArrayT by blast
next
  case (TupleT es)
  obtain es' where "b = TupleT es'" "list_all2 type_eq es es'" using assms TupleT by (cases b) (simp_all add: eq_simps)
  then show thesis using tuple TupleT by blast
next
  case (OpenTupleT ls r ts)
  obtain ls' r' ts' where "b = OpenTupleT ls' r' ts'" "list_all2 type_eq ls ls'" "type_eq r r'" "list_all2 type_eq ts ts'"
    using assms OpenTupleT by (cases b) (simp_all add: eq_simps)
  then show thesis using open_tuple OpenTupleT by blast
qed (rule same, use assms in simp)+

lemma object_eqE:
  assumes "object_eq obj obj'"
  obtains ps qs si si' ni ni' sr nr cons cons' call call' isec isec' np np' ops ops' addr addr' al al' aid aid' where
    "obj = ObjectType ps si ni sr nr cons call isec np ops addr al aid" "obj' = ObjectType qs si' ni' sr nr cons' call' isec' np' ops' addr' al' aid'"
    "length ps = length qs" "\<forall>(k, p) \<in> set ps. \<exists>q. map_of qs k = Some q \<and> property_eq p q"
    "rel_option type_eq si si'" "rel_option type_eq ni ni'"
  using assms by (cases obj; cases obj') (simp add: eq_simps)

lemma type_eq_discriminant: "type_eq a b \<Longrightarrow> type_discriminant a = type_discriminant b"
  by (erule type_eqE) simp_all

lemma property_eqD:
  "property_eq p q \<Longrightarrow> type_eq (property_ty p) (property_ty q) \<and> optional p = optional q"
  by (cases p) simp

lemma wf_propertyD: "wf_property p \<Longrightarrow> wf_type (property_ty p)"
  by (cases p) simp

lemma wf_object_entry: "wf_object obj \<Longrightarrow> (k, p) \<in> set (properties obj) \<Longrightarrow> wf_type (property_ty p)"
  by (cases obj) (auto simp: list_all_iff dest!: wf_propertyD)

lemma wf_object_keys: "wf_object obj \<Longrightarrow> distinct (map fst (properties obj))"
  by (cases obj) simp

lemma dedup_key_consistent:
  "type_eq a b \<Longrightarrow> wf_type a \<Longrightarrow> wf_type b \<Longrightarrow> dedup_key_into a depth h = dedup_key_into b depth h"
proof (induction "3 - depth" arbitrary: depth h a b rule: less_induct)
  case less
  note [simp] = type_eq_discriminant[OF less.prems(1)]
  show ?case
  proof (cases "3 \<le> depth")
    case True
    then show ?thesis by (subst (1 2) dedup_key_into.simps) simp
  next
    case False
    have IH: "dedup_key_into x (Suc depth) = dedup_key_into y (Suc depth)"
      if "type_eq x y" "wf_type x" "wf_type y" for x y
      using less.hyps[of "Suc depth" x y] that False by (intro ext) simp
    have vec: "fold (\<lambda>e. dedup_key_into e (Suc depth)) xs = fold (\<lambda>e. dedup_key_into e (Suc depth)) ys"
      if "list_all2 type_eq xs ys" "list_all wf_type xs" "list_all wf_type ys" for xs ys
      using that IH by (intro fold_vec_eq[OF that(1)]) (auto simp: list_all_iff)
    show ?thesis
    proof (rule type_eqE[OF less.prems(1)])
      fix obj obj' assume ab: "a = ObjectT obj" "b = ObjectT obj'" and eq: "object_eq obj obj'"
      have wf: "wf_object obj" "wf_object obj'" using less.prems ab by simp_all
      show ?thesis
      proof (rule object_eqE[OF eq])
        fix ps qs si si' ni ni' sr nr cons cons' call call' isec isec' np np' ops ops' addr addr' al al' aid aid'
        assume obj: "obj = ObjectType ps si ni sr nr cons call isec np ops addr al aid" "obj' = ObjectType qs si' ni' sr nr cons' call' isec' np' ops' addr' al' aid'"
          and ps: "length ps = length qs" "\<forall>(k, p) \<in> set ps. \<exists>q. map_of qs k = Some q \<and> property_eq p q"
          and idx: "rel_option type_eq si si'" "rel_option type_eq ni ni'"
        have "fold (\<lambda>(k, p) acc. acc + dedup_key_into (property_ty p) (Suc depth) (hash_bool (optional p) (hash_str k 0))) ps 0 =
            fold (\<lambda>(k, p) acc. acc + dedup_key_into (property_ty p) (Suc depth) (hash_bool (optional p) (hash_str k 0))) qs 0"
          using wf_object_keys[OF wf(1)] wf_object_keys[OF wf(2)] wf_object_entry[OF wf(1)] wf_object_entry[OF wf(2)]
          by (intro index_map_sum[OF ps]) (auto simp: obj dest!: property_eqD IH)
        moreover have "pred_option wf_type si" "pred_option wf_type si'" "pred_option wf_type ni" "pred_option wf_type ni'"
          using wf by (simp_all add: obj)
        ultimately show ?thesis using False ps(1) idx IH
          by (subst (1 2) dedup_key_into.simps, cases si; cases si'; cases ni; cases ni') (simp_all add: ab obj Let_def)
      qed
    qed (use less.prems False IH vec in \<open>subst (1 2) dedup_key_into.simps; simp add: list_all2_lengthD list_all2_appendI\<close>)+
  qed
qed

lemma fine_key_consistent:
  "type_eq a b \<Longrightarrow> wf_type a \<Longrightarrow> wf_type b \<Longrightarrow> fine_key_into a depth s = fine_key_into b depth s"
proof (induction "FINE_KEY_MAX_DEPTH - depth" arbitrary: depth s a b rule: less_induct)
  case less
  note [simp] = type_eq_discriminant[OF less.prems(1)]
  show ?case
  proof (cases "FINE_KEY_MAX_DEPTH \<le> depth \<or> snd s = 0")
    case True
    then show ?thesis by (subst (1 2) fine_key_into.simps) auto
  next
    case False
    then have smaller: "FINE_KEY_MAX_DEPTH - Suc depth < FINE_KEY_MAX_DEPTH - depth" by auto
    have IH: "fine_key_into x (Suc depth) = fine_key_into y (Suc depth)"
      if "type_eq x y" "wf_type x" "wf_type y" for x y
      using less.hyps[OF smaller that] by blast
    have vec: "fold (\<lambda>e. fine_key_into e (Suc depth)) xs = fold (\<lambda>e. fine_key_into e (Suc depth)) ys"
      if "list_all2 type_eq xs ys" "list_all wf_type xs" "list_all wf_type ys" for xs ys
      using that IH by (intro fold_vec_eq[OF that(1)]) (auto simp: list_all_iff)
    show ?thesis
    proof (rule type_eqE[OF less.prems(1)])
      fix obj obj' assume ab: "a = ObjectT obj" "b = ObjectT obj'" and eq: "object_eq obj obj'"
      have wf: "wf_object obj" "wf_object obj'" using less.prems ab by simp_all
      show ?thesis
      proof (rule object_eqE[OF eq])
        fix ps qs si si' ni ni' sr nr cons cons' call call' isec isec' np np' ops ops' addr addr' al al' aid aid'
        assume obj: "obj = ObjectType ps si ni sr nr cons call isec np ops addr al aid" "obj' = ObjectType qs si' ni' sr nr cons' call' isec' np' ops' addr' al' aid'"
          and ps: "length ps = length qs" "\<forall>(k, p) \<in> set ps. \<exists>q. map_of qs k = Some q \<and> property_eq p q"
          and idx: "rel_option type_eq si si'" "rel_option type_eq ni ni'"
        have "fold (\<lambda>(k, p) acc. acc + fst (fine_key_into (property_ty p) (Suc depth)
                (hash_bool (optional p) (hash_str k 0), FINE_KEY_PROPERTY_BUDGET))) ps 0 =
            fold (\<lambda>(k, p) acc. acc + fst (fine_key_into (property_ty p) (Suc depth)
                (hash_bool (optional p) (hash_str k 0), FINE_KEY_PROPERTY_BUDGET))) qs 0"
          using wf_object_keys[OF wf(1)] wf_object_keys[OF wf(2)] wf_object_entry[OF wf(1)] wf_object_entry[OF wf(2)]
          by (intro index_map_sum[OF ps]) (auto simp: obj dest!: property_eqD IH)
        moreover have "pred_option wf_type si" "pred_option wf_type si'" "pred_option wf_type ni" "pred_option wf_type ni'"
          using wf by (simp_all add: obj)
        ultimately show ?thesis using False ps(1) idx IH
          by (subst (1 2) fine_key_into.simps, cases si; cases si'; cases ni; cases ni') (simp_all add: ab obj Let_def)
      qed
    qed (use less.prems False IH vec in \<open>subst (1 2) fine_key_into.simps; simp add: list_all2_lengthD\<close>)+
  qed
qed

text \<open>
  C4. Equal types have equal digests: two types that \<open>PartialEq\<close> identifies, whatever the order of
  their properties and the names they were written with, have the same deduplication key and the
  same conflict digest. Bucketed deduplication and the conflict tracking of the speculative checker
  rely on it.
\<close>

theorem digests_respect_equality:
  assumes "type_eq a b" "wf_type a" "wf_type b"
  shows "dedup_key a = dedup_key b \<and> type_conflict_digest a = type_conflict_digest b"
  using dedup_key_consistent[OF assms] fine_key_consistent[OF assms]
  by (simp add: dedup_key_def type_conflict_digest_def)

definition demo_object :: "(rstr \<times> ty) list \<Rightarrow> ty" where
  "demo_object ps = ObjectT (ObjectType (map (\<lambda>(k, t). (k, ObjectProperty t False False False None False)) ps)
     None None False False None None False False None 0 None None)"

theorem digests_respect_equality_witness:
  "dedup_key (demo_object [(''a'', StringT), (''b'', NumberT)]) = dedup_key (demo_object [(''b'', NumberT), (''a'', StringT)])
   \<and> demo_object [(''a'', StringT), (''b'', NumberT)] \<noteq> demo_object [(''b'', NumberT), (''a'', StringT)]"
proof -
  have "type_eq (demo_object [(''a'', StringT), (''b'', NumberT)]) (demo_object [(''b'', NumberT), (''a'', StringT)])"
    "wf_type (demo_object [(''a'', StringT), (''b'', NumberT)])" "wf_type (demo_object [(''b'', NumberT), (''a'', StringT)])"
    by (simp_all add: demo_object_def index_map_eq_def opt_eq_def is_memberless_intersection_def)
  from digests_respect_equality[OF this] show ?thesis by (simp add: demo_object_def)
qed

end
