(* ===== verification/Type_Equality.thy ===== *)
theory Type_Equality
  imports Type_Laws
begin

text \<open>
  The equality of types is reflexive and symmetric on well-formed types, although the equality of
  property maps walks only one of the two maps.
\<close>

section \<open>Reflexivity\<close>

lemma list_all_refl: "list_all P xs \<Longrightarrow> (\<And>x. x \<in> set xs \<Longrightarrow> P x \<Longrightarrow> R x x) \<Longrightarrow> list_all2 R xs xs"
  by (auto simp: list_all_iff intro!: list_all2_refl list.rel_refl_strong)

lemma option_all_refl: "pred_option P x \<Longrightarrow> (\<And>y. x = Some y \<Longrightarrow> P y \<Longrightarrow> R y y) \<Longrightarrow> rel_option R x x"
  by (cases x) simp_all

lemma index_map_refl:
  assumes "distinct (map fst ps)" "\<And>k p. (k, p) \<in> set ps \<Longrightarrow> f p p"
  shows "index_map_eq (map (map_prod id f) ps) ps"
  unfolding index_map_eq_map using assms by (auto intro: map_of_is_SomeI)

lemma vec_eq_fun: "(\<lambda>xs. vec_eq (map f xs)) = list_all2 f"
  by (intro ext) (simp add: vec_eq_map)

lemma type_eq_refl_all:
  "wf_type t \<Longrightarrow> type_eq t t" "wf_function f \<Longrightarrow> function_eq f f" "wf_object obj \<Longrightarrow> object_eq obj obj"
  "wf_property p \<Longrightarrow> property_eq p p" "wf_union u \<Longrightarrow> union_eq u u" "wf_reference r \<Longrightarrow> nominal_eq r r"
proof (induction t and f and obj and p and u and r)
  case (ObjectType ps si ni sr nr cons call isec np ops addr al aid)
  have "index_map_eq (map (map_prod id property_eq) ps) ps"
    using ObjectType.IH(1) ObjectType.prems by (intro index_map_refl) (fastforce simp: list_all_iff snds.simps)+
  moreover have "rel_option type_eq si si" "rel_option type_eq ni ni" "rel_option function_eq cons cons" "rel_option function_eq call call"
    using ObjectType.IH(2-5) ObjectType.prems by (simp_all add: option_all_refl[of wf_type] option_all_refl[of wf_function])
  moreover have "rel_option (list_all2 type_eq) ops ops"
    using ObjectType.IH(6) ObjectType.prems by (cases ops) (auto intro: list_all_refl[of wf_type])
  ultimately show ?case by (simp add: vec_eq_fun opt_eq_map option.map_comp comp_def)
qed (auto simp: vec_eq_map intro: list_all_refl[of wf_type])

section \<open>Symmetry\<close>

lemma list_all2_sym: "list_all2 R xs ys \<Longrightarrow> (\<And>x y. x \<in> set xs \<Longrightarrow> R x y \<Longrightarrow> S y x) \<Longrightarrow> list_all2 S ys xs"
  by (auto simp: list_all2_conv_all_nth)

lemma rel_option_sym: "rel_option R x y \<Longrightarrow> (\<And>a b. x = Some a \<Longrightarrow> R a b \<Longrightarrow> S b a) \<Longrightarrow> rel_option S y x"
  by (cases x; cases y) auto

text \<open>
  As many entries, and every entry of the first map found in the second: then every entry of the second
  is found in the first, since its keys are distinct too.
\<close>

lemma index_map_sym:
  assumes len: "length ps = length qs" and keys: "distinct (map fst ps)"
    and found: "\<forall>(k, p) \<in> set ps. \<exists>q. map_of qs k = Some q \<and> R k p q"
    and sym: "\<And>k p q. (k, p) \<in> set ps \<Longrightarrow> R k p q \<Longrightarrow> S k q p"
  shows "\<forall>(k, q) \<in> set qs. \<exists>p. map_of ps k = Some p \<and> S k q p"
proof -
  have sub: "fst ` set ps \<subseteq> fst ` set qs" using found by (force dest: map_of_SomeD)
  have "card (fst ` set qs) \<le> length qs" by (metis card_length length_map list.set_map)
  moreover have "card (fst ` set ps) = length ps" using distinct_card[OF keys] by simp
  ultimately have same: "fst ` set ps = fst ` set qs" using sub len by (intro card_seteq) auto
  then have dist: "distinct (map fst qs)"
    using \<open>card (fst ` set ps) = length ps\<close> len by (intro card_distinct) simp
  show ?thesis
  proof clarify
    fix k q assume q: "(k, q) \<in> set qs"
    then obtain p where p: "(k, p) \<in> set ps" using same by force
    then obtain q' where "map_of qs k = Some q'" "R k p q'" using found by blast
    moreover have "map_of qs k = Some q" using q dist by simp
    moreover have "map_of ps k = Some p" using p keys by simp
    ultimately show "\<exists>p. map_of ps k = Some p \<and> S k q p" using sym p by auto
  qed
qed

lemma type_eq_sym_all:
  "wf_type t \<Longrightarrow> type_eq t t' \<Longrightarrow> type_eq t' t" "wf_function f \<Longrightarrow> function_eq f f' \<Longrightarrow> function_eq f' f"
  "wf_object obj \<Longrightarrow> object_eq obj obj' \<Longrightarrow> object_eq obj' obj" "wf_property p \<Longrightarrow> property_eq p p' \<Longrightarrow> property_eq p' p"
  "wf_union u \<Longrightarrow> union_eq u u' \<Longrightarrow> union_eq u' u" "wf_reference r \<Longrightarrow> nominal_eq r r' \<Longrightarrow> nominal_eq r' r"
proof (induction t and f and obj and p and u and r arbitrary: t' and f' and obj' and p' and u' and r')
  case (ObjectType ps si ni sr nr cons call isec np ops addr al aid)
  obtain qs si' ni' sr' nr' cons' call' isec' np' ops' addr' al' aid' where
    o: "obj' = ObjectType qs si' ni' sr' nr' cons' call' isec' np' ops' addr' al' aid'" by (cases obj')
  let ?obj = "ObjectType ps si ni sr nr cons call isec np ops addr al aid"
  note eq = ObjectType.prems(2)[unfolded o object_eq.simps object_type.sel eq_simps]
  note wf = ObjectType.prems(1)[unfolded wf_object.simps pred_option_id_map]
  have "\<forall>(k, q) \<in> set qs. \<exists>p. map_of ps k = Some p \<and> property_eq q p"
    by (rule index_map_sym[where R = "\<lambda>k. property_eq" and ps = ps])
      (use eq wf ObjectType.IH(1) in \<open>fastforce simp: list_all_iff snds.simps\<close>)+
  moreover have "rel_option type_eq si' si" "rel_option type_eq ni' ni" "rel_option function_eq cons' cons" "rel_option function_eq call' call"
    using eq wf ObjectType.IH(2-5) by (auto elim!: rel_option_sym)
  moreover have "rel_option (list_all2 type_eq) ops' ops" if "rel_option vec_eq (map_option (map type_eq) ops) ops'"
    using that wf ObjectType.IH(6)
    by (cases ops; cases ops') (auto simp: list_all_iff vec_eq_map elim!: list_all2_sym)
  ultimately show ?case
    using eq unfolding o by (auto simp: eq_simps vec_eq_fun option.map_comp comp_def)
next
  case (FunctionType ps pid r v c addr thd)
  then show ?case by (cases f') (auto simp: vec_eq_map list_all_iff elim!: list_all2_sym)
next
  case (ObjectProperty t opt me ro res slot)
  then show ?case by (cases p') auto
next
  case (UnionHandle ts lid al)
  then show ?case by (cases u') (auto simp: vec_eq_map list_all_iff elim!: list_all2_sym)
next
  case (TypeReference rid disp as)
  then show ?case by (cases r') (auto simp: vec_eq_map list_all_iff elim!: list_all2_sym)
qed (auto simp: vec_eq_map list_all_iff elim!: list_all2_sym split: ty.splits)

end
