(* ===== verification/Unions.thy ===== *)
theory Unions
  imports Type_Laws
begin

text \<open>
  Construction and narrowing of union types (\<open>crates/surge-ts-types/src/union.rs\<close>).

  \<^item> The thread's \<open>strictNullChecks\<close> is the argument \<open>strict\<close>. \<open>new_union\<close> stands for
    \<open>UnionType::from_borrowed_members\<close> in the current store: the owned handle \<open>owned_union\<close>, or the
    payload the interner answers with (\<open>Type_Store\<close>).
  \<^item> \<open>resolve\<close> and \<open>is_unique_symbol\<close> are the methods of a type reference,
    \<open>non_nullable\<close> is \<open>non_nullable_type_variable\<close>, which reads the constraints of the body being
    checked.
  \<^item> A hash map from digests to buckets is a partial map.
\<close>

section \<open>Deduplication\<close>

definition LINEAR_DEDUP_LIMIT :: nat where
  "LINEAR_DEDUP_LIMIT = 16"

fun dedup_linear :: "ty list \<Rightarrow> ty list \<Rightarrow> ty list" where
  "dedup_linear unique [] = unique"
| "dedup_linear unique (t # ts) =
     dedup_linear (if list_ex (\<lambda>existing. type_eq existing t) unique then unique else unique @ [t]) ts"

fun dedup_bucketed :: "(u64 \<rightharpoonup> nat \<times> nat list) \<Rightarrow> ty list \<Rightarrow> ty list \<Rightarrow> ty list" where
  "dedup_bucketed buckets unique [] = unique"
| "dedup_bucketed buckets unique (t # ts) =
     (case buckets (dedup_key t) of
        None \<Rightarrow> dedup_bucketed (buckets(dedup_key t \<mapsto> (length unique, []))) (unique @ [t]) ts
      | Some (first, overflow) \<Rightarrow>
          if type_eq (unique ! first) t \<or> list_ex (\<lambda>index. type_eq (unique ! index) t) overflow
          then dedup_bucketed buckets unique ts
          else dedup_bucketed (buckets(dedup_key t \<mapsto> (first, overflow @ [length unique]))) (unique @ [t]) ts)"

definition dedup_members :: "ty list \<Rightarrow> ty list" where
  "dedup_members flattened =
     (if length flattened \<le> LINEAR_DEDUP_LIMIT then dedup_linear [] flattened
      else dedup_bucketed Map.empty [] flattened)"

fun index_buckets :: "nat \<Rightarrow> ty list \<Rightarrow> (u64 \<rightharpoonup> nat \<times> nat list) \<Rightarrow> (u64 \<rightharpoonup> nat \<times> nat list)" where
  "index_buckets index [] buckets = buckets"
| "index_buckets index (member_ty # members) buckets =
     index_buckets (index + 1) members
       (case buckets (dedup_key member_ty) of
          None \<Rightarrow> buckets(dedup_key member_ty \<mapsto> (index, []))
        | Some (first, overflow) \<Rightarrow> buckets(dedup_key member_ty \<mapsto> (first, overflow @ [index])))"

definition for_large :: "ty list \<Rightarrow> (ty list \<times> (u64 \<rightharpoonup> nat \<times> nat list)) option" where
  "for_large members =
     (if length members \<le> LINEAR_DEDUP_LIMIT then None
      else Some (members, index_buckets 0 members Map.empty))"

definition index_contains :: "ty list \<times> (u64 \<rightharpoonup> nat \<times> nat list) \<Rightarrow> ty \<Rightarrow> bool" where
  "index_contains index t =
     (case snd index (dedup_key t) of
        None \<Rightarrow> False
      | Some (first, overflow) \<Rightarrow>
          type_eq (fst index ! first) t \<or> list_ex (\<lambda>i. type_eq (fst index ! i) t) overflow)"

section \<open>Simplification\<close>

fun flatten_members :: "ty list \<Rightarrow> ty list" where
  "flatten_members [] = []"
| "flatten_members (UnionT u # ts) = union_types u @ flatten_members ts"
| "flatten_members (t # ts) = t # flatten_members ts"

definition is_empty_array :: "bool \<Rightarrow> ty \<Rightarrow> bool" where
  "is_empty_array strict t =
     (case t of ArrayT e \<Rightarrow> type_eq e NeverT \<or> type_eq e UndefinedT \<and> \<not> strict | _ \<Rightarrow> False)"

definition is_array :: "ty \<Rightarrow> bool" where
  "is_array t = (case t of ArrayT _ \<Rightarrow> True | _ \<Rightarrow> False)"

definition absorb_empty_array_members :: "bool \<Rightarrow> ty list \<Rightarrow> ty list" where
  "absorb_empty_array_members strict members =
     (if \<not> list_ex (is_empty_array strict) members then members
      else if list_ex (\<lambda>t. is_array t \<and> \<not> is_empty_array strict t) members
      then filter (\<lambda>t. \<not> is_empty_array strict t) members
      else members)"

fun place_boolean :: "bool \<Rightarrow> ty list \<Rightarrow> ty list" where
  "place_boolean placed [] = []"
| "place_boolean placed (t # ts) =
     (case t of
        BooleanLiteralT _ \<Rightarrow> if placed then place_boolean True ts else BooleanT # place_boolean True ts
      | BooleanT \<Rightarrow> if placed then place_boolean True ts else BooleanT # place_boolean True ts
      | _ \<Rightarrow> t # place_boolean placed ts)"

definition fold_boolean_literals :: "ty list \<Rightarrow> ty list" where
  "fold_boolean_literals members =
     (let has_true = BooleanLiteralT True \<in> set members;
          has_false = BooleanLiteralT False \<in> set members;
          has_boolean = BooleanT \<in> set members
      in if \<not> (has_boolean \<or> has_true \<and> has_false) then members else place_boolean False members)"

definition is_tuple :: "ty \<Rightarrow> bool" where
  "is_tuple t = (case t of TupleT _ \<Rightarrow> True | OpenTupleT _ _ _ \<Rightarrow> True | _ \<Rightarrow> False)"

definition tuple_key :: "ty \<Rightarrow> nat \<times> nat" where
  "tuple_key t =
     (case t of
        TupleT elements \<Rightarrow> (length elements, 0)
      | OpenTupleT ls _ ts \<Rightarrow> (length ls + length ts, 1)
      | _ \<Rightarrow> (0, 0))"

definition order_tuple_members :: "ty list \<Rightarrow> ty list" where
  "order_tuple_members members =
     (if length (filter is_tuple members) < 2 \<and> \<not> list_ex is_tuple members then members
      else filter (\<lambda>t. \<not> is_tuple t) members @ sort_key tuple_key (filter is_tuple members))"

definition union_members :: "bool \<Rightarrow> ty list \<Rightarrow> ty list" where
  "union_members strict flattened =
     (let kept = filter (\<lambda>t. t \<noteq> NeverT) flattened;
          kept = absorb_empty_array_members strict kept;
          kept = (if \<not> strict \<and> list_ex (\<lambda>t. t \<noteq> NullT \<and> t \<noteq> UndefinedT) kept
                  then filter (\<lambda>t. t \<noteq> NullT \<and> t \<noteq> UndefinedT) kept else kept)
      in order_tuple_members (fold_boolean_literals (dedup_members kept)))"

definition union_type :: "bool \<Rightarrow> (ty list \<Rightarrow> union_handle) \<Rightarrow> ty list \<Rightarrow> ty" where
  "union_type strict new_union types =
     (let flattened = flatten_members types in
      if ErrorT \<in> set flattened then ErrorT
      else if AnyT \<in> set flattened then AnyT
      else
        let had_members = flattened \<noteq> []; unique = union_members strict flattened
        in case unique of
             [] \<Rightarrow> if had_members then NeverT else UnknownT
           | [t] \<Rightarrow> t
           | _ \<Rightarrow> UnionT (new_union unique))"

definition owned_union :: "ty list \<Rightarrow> union_handle" where
  "owned_union members = UnionHandle members None None"

section \<open>Narrowing\<close>

definition remove_undefined :: "bool \<Rightarrow> (ty list \<Rightarrow> union_handle) \<Rightarrow> ty \<Rightarrow> ty" where
  "remove_undefined strict new_union t =
     (case t of
        UnionT u \<Rightarrow> union_type strict new_union (filter (\<lambda>m. \<not> type_eq m UndefinedT) (union_types u))
      | UndefinedT \<Rightarrow> UnknownT
      | _ \<Rightarrow> t)"

definition is_nullish_type_variable_intersection :: "ty \<Rightarrow> bool" where
  "is_nullish_type_variable_intersection t =
     (case t of
        ObjectT obj \<Rightarrow>
          is_intersection obj \<and> properties obj = []
          \<and> (case intersection_operands obj of
               None \<Rightarrow> False
             | Some operands \<Rightarrow>
                 list_ex (\<lambda>operand. case operand of TypeParameterT _ _ \<Rightarrow> True | _ \<Rightarrow> False) operands
                 \<and> list_ex (\<lambda>operand. operand \<in> {NullT, UndefinedT, VoidT}) operands)
      | _ \<Rightarrow> False)"

definition remove_nullish :: "bool \<Rightarrow> (ty list \<Rightarrow> union_handle) \<Rightarrow> (ty \<Rightarrow> ty) \<Rightarrow> ty \<Rightarrow> ty" where
  "remove_nullish strict new_union non_nullable t =
     (case t of
        UnionT u \<Rightarrow>
          union_type strict new_union
            (map non_nullable (filter (\<lambda>m. \<not> is_nullish_type_variable_intersection m)
              (filter (\<lambda>m. m \<notin> {UndefinedT, NullT, VoidT}) (union_types u))))
      | _ \<Rightarrow> if t \<in> {UndefinedT, NullT, VoidT} then UnknownT else non_nullable t)"

record reference_methods =
  is_unique_symbol :: "type_reference \<Rightarrow> bool"
  resolve :: "type_reference \<Rightarrow> ty"

definition reference_resolves_to_union :: "reference_methods \<Rightarrow> ty \<Rightarrow> bool" where
  "reference_resolves_to_union refs t =
     (case t of
        ReferenceT r \<Rightarrow> \<not> is_unique_symbol refs r \<and> (case resolve refs r of UnionT _ \<Rightarrow> True | _ \<Rightarrow> False)
      | _ \<Rightarrow> False)"

definition resolve_member :: "reference_methods \<Rightarrow> ty \<Rightarrow> ty" where
  "resolve_member refs m =
     (case m of ReferenceT r \<Rightarrow> if reference_resolves_to_union refs m then resolve refs r else m | _ \<Rightarrow> m)"

definition flatten_reference_unions ::
    "reference_methods \<Rightarrow> bool \<Rightarrow> (ty list \<Rightarrow> union_handle) \<Rightarrow> ty \<Rightarrow> ty option" where
  "flatten_reference_unions refs strict new_union t =
     (case t of
        ReferenceT r \<Rightarrow> if reference_resolves_to_union refs t then Some (resolve refs r) else None
      | UnionT u \<Rightarrow>
          if list_ex (reference_resolves_to_union refs) (union_types u)
          then Some (union_type strict new_union (map (resolve_member refs) (union_types u))) else None
      | _ \<Rightarrow> None)"

fun truthy_member :: "ty \<Rightarrow> ty option" where
  "truthy_member UndefinedT = None"
| "truthy_member VoidT = None"
| "truthy_member (BooleanLiteralT v) = (if v then Some (BooleanLiteralT v) else None)"
| "truthy_member (StringLiteralT v) = (if v = [] then None else Some (StringLiteralT v))"
| "truthy_member (NumberLiteralT v) = (if v = ''0'' then None else Some (NumberLiteralT v))"
| "truthy_member BooleanT = Some (BooleanLiteralT True)"
| "truthy_member t = (if is_nullish_type_variable_intersection t then None else Some t)"

definition truthy_part :: "bool \<Rightarrow> (ty list \<Rightarrow> union_handle) \<Rightarrow> (ty \<Rightarrow> ty) \<Rightarrow> ty \<Rightarrow> ty" where
  "truthy_part strict new_union non_nullable t =
     (case t of
        UnionT u \<Rightarrow> union_type strict new_union (List.map_filter truthy_member (union_types u))
      | BooleanT \<Rightarrow> BooleanLiteralT True
      | BooleanLiteralT v \<Rightarrow> if \<not> v then NeverT else remove_nullish strict new_union non_nullable t
      | StringLiteralT v \<Rightarrow> if v = [] then NeverT else remove_nullish strict new_union non_nullable t
      | NumberLiteralT v \<Rightarrow> if v = ''0'' then NeverT else remove_nullish strict new_union non_nullable t
      | _ \<Rightarrow> remove_nullish strict new_union non_nullable t)"

partial_function (option) remove_definitely_falsy ::
    "reference_methods \<Rightarrow> bool \<Rightarrow> (ty list \<Rightarrow> union_handle) \<Rightarrow> (ty \<Rightarrow> ty) \<Rightarrow> ty \<Rightarrow> ty option" where
  [code]: "remove_definitely_falsy refs strict new_union non_nullable t =
     (case flatten_reference_unions refs strict new_union t of
        Some flattened \<Rightarrow> remove_definitely_falsy refs strict new_union non_nullable flattened
      | None \<Rightarrow> Some (truthy_part strict new_union non_nullable t))"

section \<open>Display\<close>

definition display_rank :: "ty \<Rightarrow> nat" where
  "display_rank t =
     (case t of
        StringT \<Rightarrow> 0 | NumberT \<Rightarrow> 1 | BigIntT \<Rightarrow> 2 | BooleanT \<Rightarrow> 3 | SymbolT \<Rightarrow> 4 | VoidT \<Rightarrow> 5
      | ObjectT obj \<Rightarrow> if non_primitive obj \<and> properties obj = [] then 6 else 7
      | BooleanLiteralT _ \<Rightarrow> 8 | NullT \<Rightarrow> 9 | UndefinedT \<Rightarrow> 10 | _ \<Rightarrow> 7)"

fun rendered_names :: "(ty \<Rightarrow> rstr) \<Rightarrow> rstr list \<Rightarrow> ty list \<Rightarrow> rstr list" where
  "rendered_names constituent_name rendered [] = rendered"
| "rendered_names constituent_name rendered (t # ts) =
     rendered_names constituent_name
       (if constituent_name t \<in> set rendered then rendered else rendered @ [constituent_name t]) ts"

definition render_members :: "(ty \<Rightarrow> rstr) \<Rightarrow> ty list \<Rightarrow> rstr" where
  "render_members constituent_name members =
     join_with '' | '' (rendered_names constituent_name [] (sort_key display_rank members))"

end
