(* ===== verification/Union_Laws.thy ===== *)
theory Union_Laws
  imports Unions
begin

text \<open>
  Laws of union construction: the hashed deduplication is the linear one, the member index answers
  like a scan, and \<open>union_type\<close> gives a normal form that it leaves unchanged.
\<close>

section \<open>Bucketed deduplication\<close>

definition bucket_list :: "(u64 \<rightharpoonup> nat \<times> nat list) \<Rightarrow> u64 \<Rightarrow> nat list" where
  "bucket_list buckets k = (case buckets k of None \<Rightarrow> [] | Some (first, overflow) \<Rightarrow> first # overflow)"

lemma bucket_list_update:
  "bucket_list (buckets(k \<mapsto> (first, overflow))) k' = (if k' = k then first # overflow else bucket_list buckets k')"
  by (simp add: bucket_list_def)

text \<open>The buckets list the positions of the members by their key.\<close>

definition buckets_ok :: "(u64 \<rightharpoonup> nat \<times> nat list) \<Rightarrow> ty list \<Rightarrow> bool" where
  "buckets_ok buckets members \<longleftrightarrow>
     (\<forall>k. set (bucket_list buckets k) = {i. i < length members \<and> dedup_key (members ! i) = k})"

lemma buckets_ok_empty: "buckets_ok Map.empty []"
  by (simp add: buckets_ok_def bucket_list_def)

lemma buckets_ok_snoc:
  assumes "buckets_ok buckets members"
    "\<And>k'. set (bucket_list buckets' k') =
       (if k' = dedup_key t then insert (length members) (set (bucket_list buckets k')) else set (bucket_list buckets k'))"
  shows "buckets_ok buckets' (members @ [t])"
  using assms by (auto simp: buckets_ok_def nth_append less_Suc_eq)

lemma bucket_lookup:
  assumes "buckets_ok buckets members" "list_all wf_type members" "wf_type t"
  shows "list_ex (\<lambda>i. type_eq (members ! i) t) (bucket_list buckets (dedup_key t)) \<longleftrightarrow>
    list_ex (\<lambda>existing. type_eq existing t) members"
proof
  assume "list_ex (\<lambda>existing. type_eq existing t) members"
  then obtain i where i: "i < length members" "type_eq (members ! i) t" by (auto simp: list_ex_iff in_set_conv_nth)
  then have "dedup_key (members ! i) = dedup_key t"
    using dedup_key_consistent[of "members ! i" t] assms(2,3) by (simp add: list_all_length dedup_key_def)
  then show "list_ex (\<lambda>i. type_eq (members ! i) t) (bucket_list buckets (dedup_key t))"
    using i assms(1) by (auto simp: buckets_ok_def list_ex_iff)
qed (use assms(1) in \<open>auto simp: buckets_ok_def list_ex_iff\<close>)

lemma dedup_bucketed_linear:
  assumes "buckets_ok buckets unique" "list_all wf_type unique" "list_all wf_type ts"
  shows "dedup_bucketed buckets unique ts = dedup_linear unique ts"
  using assms
proof (induction ts arbitrary: buckets unique)
  case (Cons t ts)
  have wf: "wf_type t" "list_all wf_type ts" "list_all wf_type (unique @ [t])" using Cons.prems by simp_all
  note found = bucket_lookup[OF Cons.prems(1,2) wf(1)]
  show ?case
  proof (cases "buckets (dedup_key t)")
    case None
    then have "\<not> list_ex (\<lambda>existing. type_eq existing t) unique" using found by (simp add: bucket_list_def)
    moreover have "buckets_ok (buckets(dedup_key t \<mapsto> (length unique, []))) (unique @ [t])"
      using None by (intro buckets_ok_snoc[OF Cons.prems(1)]) (simp add: bucket_list_update, simp add: bucket_list_def)
    ultimately show ?thesis using None Cons.IH[OF _ wf(3,2)] by simp
  next
    case (Some b)
    obtain first overflow where b: "b = (first, overflow)" by (cases b)
    have bl: "bucket_list buckets (dedup_key t) = first # overflow" using Some b by (simp add: bucket_list_def)
    have ok: "buckets_ok (buckets(dedup_key t \<mapsto> (first, overflow @ [length unique]))) (unique @ [t])"
      using bl by (intro buckets_ok_snoc[OF Cons.prems(1)]) (auto simp: bucket_list_update)
    then show ?thesis using Some b Cons.IH[OF ok wf(3,2)] Cons.IH[OF Cons.prems(1,2) wf(2)] found bl
      by (simp add: fun_upd_def)
  qed
qed simp

lemma dedup_members_linear: "list_all wf_type ts \<Longrightarrow> dedup_members ts = dedup_linear [] ts"
  by (simp add: dedup_members_def dedup_bucketed_linear[OF buckets_ok_empty])

lemma index_buckets_ok:
  "buckets_ok buckets seen \<Longrightarrow> buckets_ok (index_buckets (length seen) ms buckets) (seen @ ms)"
proof (induction ms arbitrary: seen buckets)
  case (Cons t ms)
  let ?b = "case buckets (dedup_key t) of None \<Rightarrow> buckets(dedup_key t \<mapsto> (length seen, []))
    | Some (first, overflow) \<Rightarrow> buckets(dedup_key t \<mapsto> (first, overflow @ [length seen]))"
  have "buckets_ok ?b (seen @ [t])"
    by (intro buckets_ok_snoc[OF Cons.prems]) (auto simp: bucket_list_def split: option.split)
  from Cons.IH[OF this] show ?case by simp
qed simp

text \<open>
  C5. Deduplication by hashing is deduplication by scanning: on well-formed members the result does
  not depend on the size threshold, and for a large union the member index contains exactly the
  types the members contain.
\<close>

theorem hashed_dedup_is_linear:
  assumes "list_all wf_type members" "wf_type t"
  shows "dedup_members members = dedup_linear [] members
    \<and> (\<forall>index. for_large members = Some index \<longrightarrow>
         index_contains index t = list_ex (\<lambda>existing. type_eq existing t) members)"
proof -
  have "buckets_ok (index_buckets 0 members Map.empty) members" using index_buckets_ok[OF buckets_ok_empty, of members] by simp
  from bucket_lookup[OF this assms]
  have "index_contains (members, index_buckets 0 members Map.empty) t = list_ex (\<lambda>existing. type_eq existing t) members"
    by (simp add: index_contains_def bucket_list_def split: option.splits prod.splits)
  then show ?thesis using dedup_members_linear[OF assms(1)] by (simp add: for_large_def split: if_splits)
qed

theorem hashed_dedup_is_linear_witness:
  "dedup_members [StringT, NumberT, StringT] = [StringT, NumberT]"
proof -
  have "list_all wf_type [StringT, NumberT, StringT]" "wf_type StringT" by simp_all
  from hashed_dedup_is_linear[OF this] show ?thesis by simp
qed

section \<open>The normal form\<close>

definition no_repeats :: "ty list \<Rightarrow> bool" where
  "no_repeats ts \<longleftrightarrow> (\<forall>i j. i < j \<longrightarrow> j < length ts \<longrightarrow> \<not> type_eq (ts ! i) (ts ! j))"

lemma no_repeats_snoc: "no_repeats (ts @ [t]) \<longleftrightarrow> no_repeats ts \<and> \<not> list_ex (\<lambda>s. type_eq s t) ts"
  unfolding no_repeats_def list_ex_length by (auto simp: nth_append less_Suc_eq)

lemma no_repeats_sorted_wrt: "no_repeats ts \<longleftrightarrow> sorted_wrt (\<lambda>a b. \<not> type_eq a b) ts"
  by (auto simp: no_repeats_def sorted_wrt_iff_nth_less)

lemma dedup_linear_mono: "x \<in> set unique \<Longrightarrow> x \<in> set (dedup_linear unique ts)"
  by (induction ts arbitrary: unique) simp_all

lemma dedup_linear_subset: "set (dedup_linear unique ts) \<subseteq> set unique \<union> set ts"
proof (induction ts arbitrary: unique)
  case (Cons t ts)
  then show ?case using Cons.IH[of unique] Cons.IH[of "unique @ [t]"] by auto
qed simp

lemma dedup_linear_no_repeats: "no_repeats unique \<Longrightarrow> no_repeats (dedup_linear unique ts)"
  by (induction ts arbitrary: unique) (simp_all add: no_repeats_snoc)

lemma dedup_linear_covers: "t \<in> set ts \<Longrightarrow> \<exists>u \<in> set (dedup_linear unique ts). u = t \<or> type_eq u t"
proof (induction ts arbitrary: unique)
  case (Cons s ts)
  show ?case
  proof (cases "t \<in> set ts")
    case True
    then show ?thesis using Cons.IH by simp
  next
    case False
    then have "t = s" using Cons.prems by simp
    show ?thesis
    proof (cases "list_ex (\<lambda>existing. type_eq existing s) unique")
      case True
      then obtain u where "u \<in> set unique" "type_eq u s" by (auto simp: list_ex_iff)
      then show ?thesis using True \<open>t = s\<close> dedup_linear_mono[of u unique ts] by auto
    next
      case False
      then show ?thesis using \<open>t = s\<close> dedup_linear_mono[of s "unique @ [s]" ts] by auto
    qed
  qed
qed simp


text \<open>Folding the boolean literals.\<close>

definition boolish :: "ty \<Rightarrow> bool" where
  "boolish t \<longleftrightarrow> t = BooleanT \<or> (\<exists>v. t = BooleanLiteralT v)"

lemma place_boolean_Cons:
  "place_boolean placed (t # ts) =
     (if boolish t then (if placed then place_boolean True ts else BooleanT # place_boolean True ts)
      else t # place_boolean placed ts)"
  by (cases t) (auto simp: boolish_def)

declare place_boolean.simps(2) [simp del]

lemma place_boolean_set:
  "set (place_boolean placed ts) = {t \<in> set ts. \<not> boolish t} \<union> (if \<not> placed \<and> (\<exists>t \<in> set ts. boolish t) then {BooleanT} else {})"
  by (induction ts arbitrary: placed) (auto simp: place_boolean_Cons)

lemma type_eq_BooleanT: "type_eq t BooleanT \<longleftrightarrow> t = BooleanT" "type_eq BooleanT t \<longleftrightarrow> t = BooleanT"
  by (cases t) auto

lemma place_boolean_no_repeats: "no_repeats ts \<Longrightarrow> no_repeats (place_boolean placed ts)"
  unfolding no_repeats_sorted_wrt
proof (induction ts arbitrary: placed)
  case (Cons t ts)
  have "\<not> type_eq t u" if "\<not> boolish t" "u \<in> set (place_boolean placed ts)" for u
    using that Cons.prems by (auto simp: place_boolean_set type_eq_BooleanT boolish_def split: if_splits)
  then show ?case using Cons by (auto simp: place_boolean_Cons place_boolean_set type_eq_BooleanT boolish_def)
qed simp


text \<open>Moving the tuples to the end.\<close>

lemma type_eq_tuple_key: "type_eq a b \<Longrightarrow> is_tuple a = is_tuple b \<and> tuple_key a = tuple_key b"
  by (erule type_eqE) (simp_all add: is_tuple_def tuple_key_def list_all2_lengthD)


lemma insort_key_sorted_wrt:
  "sorted_wrt R xs \<Longrightarrow> sorted (map f xs) \<Longrightarrow> (\<And>y. y \<in> set xs \<Longrightarrow> R x y) \<Longrightarrow> (\<And>y. y \<in> set xs \<Longrightarrow> f y \<noteq> f x \<Longrightarrow> R y x)
   \<Longrightarrow> sorted_wrt R (insort_key f x xs)"
  by (induction xs) (auto simp: set_insort_key)

lemma sort_key_sorted_wrt:
  "sorted_wrt R xs \<Longrightarrow> (\<And>a b. f a \<noteq> f b \<Longrightarrow> R a b) \<Longrightarrow> sorted_wrt R (sort_key f xs)"
proof (induction xs)
  case (Cons x xs)
  then show ?case using insort_key_sorted_wrt[of R "sort_key f xs" f x] by (simp add: sorted_sort_key)
qed simp

lemma order_tuple_members_eq:
  "order_tuple_members ms = filter (\<lambda>t. \<not> is_tuple t) ms @ sort_key tuple_key (filter is_tuple ms)"
proof (cases "list_ex is_tuple ms")
  case False
  then have "filter is_tuple ms = []" "filter (\<lambda>t. \<not> is_tuple t) ms = ms"
    by (auto simp: list_ex_iff filter_empty_conv filter_id_conv)
  then show ?thesis by (simp add: order_tuple_members_def)
qed (simp add: order_tuple_members_def)

lemma order_tuple_members_no_repeats: "no_repeats ms \<Longrightarrow> no_repeats (order_tuple_members ms)"
  unfolding no_repeats_sorted_wrt order_tuple_members_eq
  by (auto simp: sorted_wrt_append sorted_wrt_filter intro!: sort_key_sorted_wrt dest: type_eq_tuple_key)

lemma order_tuple_members_set: "set (order_tuple_members ms) = set ms"
  unfolding order_tuple_members_eq by auto

text \<open>The normal form of a member list.\<close>

definition nullish :: "ty \<Rightarrow> bool" where
  "nullish t \<longleftrightarrow> t = NullT \<or> t = UndefinedT"

definition simple_member :: "ty \<Rightarrow> bool" where
  "simple_member t \<longleftrightarrow> (\<forall>u. t \<noteq> UnionT u) \<and> t \<noteq> AnyT \<and> t \<noteq> ErrorT"

definition arrays_ok :: "bool \<Rightarrow> ty set \<Rightarrow> bool" where
  "arrays_ok strict T \<longleftrightarrow> (\<forall>t \<in> T. \<not> is_empty_array strict t) \<or> (\<forall>t \<in> T. is_array t \<longrightarrow> is_empty_array strict t)"

definition nullish_ok :: "bool \<Rightarrow> ty set \<Rightarrow> bool" where
  "nullish_ok strict T \<longleftrightarrow> strict \<or> (\<forall>t \<in> T. nullish t) \<or> (\<forall>t \<in> T. \<not> nullish t)"

definition booleans_ok :: "ty set \<Rightarrow> bool" where
  "booleans_ok T \<longleftrightarrow> (BooleanT \<in> T \<longrightarrow> (\<forall>v. BooleanLiteralT v \<notin> T))
     \<and> \<not> (BooleanLiteralT True \<in> T \<and> BooleanLiteralT False \<in> T)"

definition tuples_last :: "ty list \<Rightarrow> bool" where
  "tuples_last ms \<longleftrightarrow> (\<exists>others tuples. ms = others @ tuples \<and> (\<forall>t \<in> set others. \<not> is_tuple t)
     \<and> (\<forall>t \<in> set tuples. is_tuple t) \<and> sorted (map tuple_key tuples))"

definition normal_members :: "bool \<Rightarrow> ty list \<Rightarrow> bool" where
  "normal_members strict ms \<longleftrightarrow>
     (\<forall>t \<in> set ms. simple_member t \<and> t \<noteq> NeverT) \<and> no_repeats ms \<and> arrays_ok strict (set ms)
     \<and> nullish_ok strict (set ms) \<and> booleans_ok (set ms) \<and> tuples_last ms"

lemma absorb_arrays_ok: "arrays_ok strict (set (absorb_empty_array_members strict ms))"
  by (auto simp: absorb_empty_array_members_def arrays_ok_def list_ex_iff)

lemma absorb_subset: "set (absorb_empty_array_members strict ms) \<subseteq> set ms"
  by (auto simp: absorb_empty_array_members_def)

lemma absorb_covers: "t \<in> set ms \<Longrightarrow> t \<in> set (absorb_empty_array_members strict ms) \<or> is_empty_array strict t"
  by (auto simp: absorb_empty_array_members_def)

definition drop_nullish :: "bool \<Rightarrow> ty list \<Rightarrow> ty list" where
  "drop_nullish strict ms =
     (if \<not> strict \<and> list_ex (\<lambda>t. t \<noteq> NullT \<and> t \<noteq> UndefinedT) ms
      then filter (\<lambda>t. t \<noteq> NullT \<and> t \<noteq> UndefinedT) ms else ms)"

lemma drop_nullish_ok: "nullish_ok strict (set (drop_nullish strict ms))"
  by (auto simp: drop_nullish_def nullish_ok_def nullish_def list_ex_iff)

lemma drop_nullish_subset: "set (drop_nullish strict ms) \<subseteq> set ms"
  by (auto simp: drop_nullish_def)

lemma fold_booleans_set: "set (fold_boolean_literals ms) \<subseteq> set ms \<union> {BooleanT}"
  by (auto simp: fold_boolean_literals_def Let_def place_boolean_set)

lemma fold_booleans_ok: "booleans_ok (set (fold_boolean_literals ms))"
  by (auto simp: fold_boolean_literals_def Let_def place_boolean_set booleans_ok_def boolish_def)

lemma fold_booleans_new:
  "BooleanT \<in> set (fold_boolean_literals ms) \<Longrightarrow> \<exists>t \<in> set ms. boolish t"
  by (auto simp: fold_boolean_literals_def Let_def place_boolean_set boolish_def split: if_splits)

lemma fold_booleans_no_repeats: "no_repeats ms \<Longrightarrow> no_repeats (fold_boolean_literals ms)"
  by (simp add: fold_boolean_literals_def Let_def place_boolean_no_repeats)

lemma fold_booleans_covers: "t \<in> set ms \<Longrightarrow> t \<in> set (fold_boolean_literals ms) \<or> boolish t \<and> BooleanT \<in> set (fold_boolean_literals ms)"
  by (auto simp: fold_boolean_literals_def Let_def place_boolean_set boolish_def)

lemma arrays_ok_fold: "arrays_ok strict (set ms) \<Longrightarrow> arrays_ok strict (set (fold_boolean_literals ms))"
  using fold_booleans_set[of ms] unfolding arrays_ok_def by (auto simp: is_empty_array_def is_array_def)

lemma nullish_ok_fold: "nullish_ok strict (set ms) \<Longrightarrow> nullish_ok strict (set (fold_boolean_literals ms))"
  using fold_booleans_set[of ms] fold_booleans_new[of ms] unfolding nullish_ok_def nullish_def boolish_def by fastforce

lemma order_tuple_members_last: "tuples_last (order_tuple_members ms)"
  unfolding tuples_last_def order_tuple_members_eq
  by (intro exI[of _ "filter (\<lambda>t. \<not> is_tuple t) ms"] exI[of _ "sort_key tuple_key (filter is_tuple ms)"])
    (simp add: sorted_sort_key)

lemma union_members_eq:
  "union_members strict fl = order_tuple_members (fold_boolean_literals (dedup_members
     (drop_nullish strict (absorb_empty_array_members strict (filter (\<lambda>t. t \<noteq> NeverT) fl)))))"
  by (simp add: union_members_def drop_nullish_def Let_def)

lemma fold_order_normal:
  assumes "arrays_ok strict (set unique)" "nullish_ok strict (set unique)" "no_repeats unique"
    "\<forall>t \<in> set unique. simple_member t \<and> t \<noteq> NeverT"
  shows "normal_members strict (order_tuple_members (fold_boolean_literals unique))"
proof -
  have "simple_member t \<and> t \<noteq> NeverT" if "t \<in> set (fold_boolean_literals unique)" for t
  proof -
    have "t = BooleanT \<or> t \<in> set unique" using that fold_booleans_set[of unique] by blast
    then show ?thesis using assms(4) by (auto simp: simple_member_def)
  qed
  then show ?thesis
    unfolding normal_members_def order_tuple_members_set
    using arrays_ok_fold[OF assms(1)] nullish_ok_fold[OF assms(2)] fold_booleans_ok[of unique]
      order_tuple_members_no_repeats[OF fold_booleans_no_repeats[OF assms(3)]] order_tuple_members_last
    by blast
qed

lemma union_members_normal:
  assumes "list_all wf_type fl" "\<forall>t \<in> set fl. simple_member t"
  shows "normal_members strict (union_members strict fl)"
proof -
  define kept where "kept = drop_nullish strict (absorb_empty_array_members strict (filter (\<lambda>t. t \<noteq> NeverT) fl))"
  define unique where "unique = dedup_linear [] kept"
  have kept: "set kept \<subseteq> {t \<in> set fl. t \<noteq> NeverT}"
    using drop_nullish_subset absorb_subset[of strict "filter (\<lambda>t. t \<noteq> NeverT) fl"] unfolding kept_def by fastforce
  then have "list_all wf_type kept" using assms(1) by (auto simp: list_all_iff)
  then have eq: "union_members strict fl = order_tuple_members (fold_boolean_literals unique)"
    by (simp add: union_members_eq dedup_members_linear kept_def unique_def)
  have uk: "set unique \<subseteq> set kept" using dedup_linear_subset[of "[]" kept] by (simp add: unique_def)
  have "arrays_ok strict (set kept)"
    using absorb_arrays_ok drop_nullish_subset unfolding arrays_ok_def kept_def by blast
  then have "arrays_ok strict (set unique)" using uk unfolding arrays_ok_def by blast
  moreover have "nullish_ok strict (set unique)"
    using drop_nullish_ok[of strict] uk unfolding nullish_ok_def kept_def by blast
  moreover have "no_repeats unique" unfolding unique_def by (rule dedup_linear_no_repeats) (simp add: no_repeats_def)
  moreover have "\<forall>t \<in> set unique. simple_member t \<and> t \<noteq> NeverT" using uk kept assms(2) by auto
  ultimately show ?thesis unfolding eq by (rule fold_order_normal)
qed


text \<open>Unions as the constructor leaves them: no union among their members.\<close>

definition flat_union :: "ty \<Rightarrow> bool" where
  "flat_union t \<longleftrightarrow> (\<forall>u. t = UnionT u \<longrightarrow> (\<forall>m \<in> set (union_types u). \<forall>v. m \<noteq> UnionT v))"

lemma flatten_members_set:
  "set (flatten_members ts) = {t \<in> set ts. \<forall>u. t \<noteq> UnionT u} \<union> (\<Union>u \<in> {u. UnionT u \<in> set ts}. set (union_types u))"
proof (induction ts rule: flatten_members.induct)
  case (2 u ts)
  then show ?case by auto
qed auto

lemma flatten_members_simple:
  assumes "\<forall>t \<in> set ts. flat_union t" "ErrorT \<notin> set (flatten_members ts)" "AnyT \<notin> set (flatten_members ts)"
  shows "\<forall>t \<in> set (flatten_members ts). simple_member t"
proof
  fix t assume t: "t \<in> set (flatten_members ts)"
  then have "\<forall>u. t \<noteq> UnionT u" using assms(1) unfolding flatten_members_set flat_union_def by blast
  moreover have "t \<noteq> AnyT" "t \<noteq> ErrorT" using t assms(2,3) by auto
  ultimately show "simple_member t" by (simp add: simple_member_def)
qed

lemma wf_union_members: "wf_union u \<Longrightarrow> list_all wf_type (union_types u)"
  by (cases u) simp

lemma flatten_members_wf: "list_all wf_type ts \<Longrightarrow> list_all wf_type (flatten_members ts)"
  by (induction ts rule: flatten_members.induct) (auto dest: wf_union_members)

lemma union_type_error:
  "ErrorT \<in> set (flatten_members types) \<Longrightarrow> union_type strict new types = ErrorT"
  "ErrorT \<notin> set (flatten_members types) \<Longrightarrow> AnyT \<in> set (flatten_members types) \<Longrightarrow> union_type strict new types = AnyT"
  by (simp_all add: union_type_def Let_def)

lemma union_type_members:
  assumes "ErrorT \<notin> set (flatten_members types)" "AnyT \<notin> set (flatten_members types)"
  shows "union_type strict new types =
    (case union_members strict (flatten_members types) of
       [] \<Rightarrow> if flatten_members types \<noteq> [] then NeverT else UnknownT
     | [t] \<Rightarrow> t
     | _ \<Rightarrow> UnionT (new (union_members strict (flatten_members types))))"
  using assms by (simp add: union_type_def Let_def)

lemma union_members_covers:
  assumes "list_all wf_type fl" "t \<in> set fl"
  shows "(\<exists>m \<in> set (union_members strict fl). m = t \<or> type_eq m t) \<or> t = NeverT \<or> is_empty_array strict t
    \<or> \<not> strict \<and> nullish t \<or> boolish t \<and> BooleanT \<in> set (union_members strict fl)"
proof -
  define kept where "kept = drop_nullish strict (absorb_empty_array_members strict (filter (\<lambda>t. t \<noteq> NeverT) fl))"
  have "set kept \<subseteq> set fl"
    using drop_nullish_subset absorb_subset[of strict "filter (\<lambda>t. t \<noteq> NeverT) fl"] unfolding kept_def by fastforce
  then have "list_all wf_type kept" using assms(1) by (auto simp: list_all_iff)
  then have eq: "set (union_members strict fl) = set (fold_boolean_literals (dedup_linear [] kept))"
    by (simp add: union_members_eq dedup_members_linear kept_def order_tuple_members_set)
  show ?thesis
  proof (cases "t \<in> set kept")
    case True
    then obtain u where u: "u \<in> set (dedup_linear [] kept)" "u = t \<or> type_eq u t" using dedup_linear_covers by blast
    show ?thesis
    proof (cases "u \<in> set (fold_boolean_literals (dedup_linear [] kept))")
      case False
      then have "boolish u" "BooleanT \<in> set (union_members strict fl)" using fold_booleans_covers[OF u(1)] eq by auto
      moreover have "t = u" using u(2) \<open>boolish u\<close> by (auto simp: boolish_def)
      ultimately show ?thesis by blast
    qed (use u(2) eq in blast)
  next
    case False
    then show ?thesis using assms(2) absorb_covers[of t "filter (\<lambda>t. t \<noteq> NeverT) fl" strict]
      unfolding kept_def by (auto simp: drop_nullish_def nullish_def split: if_splits)
  qed
qed

lemma union_members_origin:
  assumes "list_all wf_type fl"
  shows "set (union_members strict fl) \<subseteq> set fl \<union> {BooleanT}"
proof -
  define kept where "kept = drop_nullish strict (absorb_empty_array_members strict (filter (\<lambda>t. t \<noteq> NeverT) fl))"
  have sub: "set kept \<subseteq> set fl"
    using drop_nullish_subset absorb_subset[of strict "filter (\<lambda>t. t \<noteq> NeverT) fl"] unfolding kept_def by fastforce
  then have "list_all wf_type kept" using assms by (auto simp: list_all_iff)
  then have "set (union_members strict fl) = set (fold_boolean_literals (dedup_linear [] kept))"
    by (simp add: union_members_eq dedup_members_linear kept_def order_tuple_members_set)
  then show ?thesis using fold_booleans_set[of "dedup_linear [] kept"] dedup_linear_subset[of "[]" kept] sub by auto
qed

lemma union_type_UnionT:
  assumes wf: "list_all wf_type types" and flat: "\<forall>t \<in> set types. flat_union t"
    and u: "union_type strict owned_union types = UnionT u"
  shows "u = owned_union (union_members strict (flatten_members types))"
    and "2 \<le> length (union_members strict (flatten_members types))"
    and "normal_members strict (union_members strict (flatten_members types))"
proof -
  let ?ms = "union_members strict (flatten_members types)"
  have none: "ErrorT \<notin> set (flatten_members types)" "AnyT \<notin> set (flatten_members types)"
    using u union_type_error[of types strict owned_union] by auto
  show normal: "normal_members strict ?ms"
    using union_members_normal[OF flatten_members_wf[OF wf] flatten_members_simple[OF flat none]] .
  have "\<forall>t \<in> set ?ms. \<forall>v. t \<noteq> UnionT v" using normal by (simp add: normal_members_def simple_member_def)
  then have "u = owned_union ?ms \<and> 2 \<le> length ?ms"
    using u union_type_members[OF none, of strict owned_union] by (simp split: list.splits if_splits)
  then show "u = owned_union ?ms" "2 \<le> length ?ms" by simp_all
qed



text \<open>
  A union stands for its members: each member of the union is one of the given types, or a
  member of one of them, or \<open>boolean\<close>, and each given member is in the union up to equality, unless
  it is \<open>never\<close>, an empty array type, a boolean literal beside \<open>boolean\<close>, or \<open>null\<close> or
  \<open>undefined\<close> without strict null checks.
\<close>

theorem union_type_members_covered:
  assumes "list_all wf_type types" "\<forall>t \<in> set types. flat_union t"
    "union_type strict owned_union types = UnionT u"
  shows "set (union_types u) \<subseteq> set (flatten_members types) \<union> {BooleanT}
    \<and> (\<forall>t \<in> set (flatten_members types).
         (\<exists>m \<in> set (union_types u). m = t \<or> type_eq m t) \<or> t = NeverT \<or> is_empty_array strict t
         \<or> \<not> strict \<and> nullish t \<or> boolish t \<and> BooleanT \<in> set (union_types u))"
proof -
  note u = union_type_UnionT(1)[OF assms] and wf = flatten_members_wf[OF assms(1)]
  have "union_types u = union_members strict (flatten_members types)" using u by (simp add: owned_union_def)
  then show ?thesis using union_members_origin[OF wf] union_members_covers[OF wf] by simp
qed

theorem union_type_members_covered_witness:
  "\<exists>m \<in> set [StringT, NumberT]. m = NumberT \<or> type_eq m NumberT"
proof -
  let ?types = "[StringT, UnionT (owned_union [NumberT, StringT])]"
  have wf: "list_all wf_type ?types" and flat: "\<forall>t \<in> set ?types. flat_union t"
    by (simp_all add: flat_union_def owned_union_def)
  have "union_type True owned_union ?types = UnionT (owned_union [StringT, NumberT])" by code_simp
  from union_type_members_covered[OF wf flat this]
  show ?thesis by (simp add: owned_union_def is_empty_array_def boolish_def)
qed

end
