(* ===== verification/Type_Store.thy ===== *)
theory Type_Store
  imports Union_Laws
begin

text \<open>
  The program type store (\<open>crates/surge-ts-types/src/store.rs\<close>): structural fingerprints under a
  budget, canonical equality, and the interning of parameter lists, function payloads, unions,
  property maps and overload merges; \<open>UnionType::new\<close> and \<open>from_borrowed_members\<close> of
  \<open>union.rs\<close> on top of it.

  \<^item> A key determines its shard, so the 64 maps of a table are one partial map from keys to buckets.
  \<^item> A bucket holds weak references: whether the payload of an entry is still alive is a predicate
    \<open>live\<close> on ids, an argument of every operation. Whether the sweep of a shard is due, which the
    source decides by the number of its keys, is an argument \<open>due\<close>.
  \<^item> Counters and lock contention are not modelled; each operation runs under its shard's lock, and
    \<open>intern_function\<close>, which takes two locks in turn, is one step.
  \<^item> What a reference answers about its resolver is the record \<open>resolver_identity\<close>.
\<close>

record resolver_identity =
  retains_resolution_context :: "type_reference \<Rightarrow> bool"
  supports_program_canonicalization :: "type_reference \<Rightarrow> bool"
  program_canonicalization_discriminator :: "type_reference \<Rightarrow> u64"

section \<open>Fingerprints\<close>

record fingerprint_budget =
  remaining :: nat
  fp_depth :: nat

definition default_budget :: fingerprint_budget where
  "default_budget = \<lparr>remaining = 128, fp_depth = 0\<rparr>"

definition enter_budget :: "fingerprint_budget \<Rightarrow> fingerprint_budget option" where
  "enter_budget b =
     (if remaining b = 0 \<or> 16 \<le> fp_depth b then None
      else Some \<lparr>remaining = remaining b - 1, fp_depth = fp_depth b + 1\<rparr>)"

definition leave_budget :: "u64 \<times> fingerprint_budget \<Rightarrow> u64 \<times> fingerprint_budget" where
  "leave_budget hb = (fst hb, (snd hb)\<lparr>fp_depth := fp_depth (snd hb) - 1\<rparr>)"

fun fingerprint_type ::
    "resolver_identity \<Rightarrow> ty \<Rightarrow> fingerprint_budget \<Rightarrow> (u64 \<times> fingerprint_budget) option"
  and fingerprint_fold ::
    "resolver_identity \<Rightarrow> ty list \<Rightarrow> u64 \<Rightarrow> fingerprint_budget \<Rightarrow> (u64 \<times> fingerprint_budget) option" where
  "fingerprint_type ri t b =
     Option.bind (enter_budget b) (\<lambda>b.
       let h = hash_usize (type_discriminant t) 0 in
       map_option leave_budget (case t of
         UnknownT \<Rightarrow> None
       | ErrorT \<Rightarrow> None
       | TypeParameterT _ _ \<Rightarrow> None
       | StringLiteralT v \<Rightarrow> Some (hash_str v h, b)
       | NumberLiteralT v \<Rightarrow> Some (hash_str v h, b)
       | BooleanLiteralT v \<Rightarrow> Some (hash_bool v h, b)
       | FunctionT f \<Rightarrow> Some (hash_u64 (payload_address f) h, b)
       | ObjectT (ObjectType ps si ni sr nr cons call isec np ops addr al aid) \<Rightarrow>
           let h = hash_u64 addr h in
           Option.bind (case si of
               Some index \<Rightarrow> map_option (\<lambda>(f, b). (hash_u64 f h, b)) (fingerprint_type ri index b)
             | None \<Rightarrow> Some (add_to_hash h 0, b))
             (\<lambda>(h, b). Some (hash_list_id (map_option payload_address cons)
                (hash_list_id (map_option payload_address call) h), b))
       | ArrayT e \<Rightarrow> map_option (\<lambda>(f, b). (hash_u64 f h, b)) (fingerprint_type ri e b)
       | TupleT es \<Rightarrow>
           map_option (\<lambda>(f, b). (hash_u64 f h, b)) (fingerprint_fold ri es (hash_usize (length es) 0) b)
       | OpenTupleT ls r ts \<Rightarrow>
           Option.bind (fingerprint_fold ri ls (hash_usize (length ls) 0) b) (\<lambda>(f, b).
           Option.bind (fingerprint_type ri r b) (\<lambda>(f', b).
           map_option (\<lambda>(f'', b). (hash_u64 f'' (hash_u64 f' (hash_u64 f h)), b))
             (fingerprint_fold ri ts (hash_usize (length ts) 0) b)))
       | UnionT (UnionHandle ms lid al) \<Rightarrow>
           map_option (\<lambda>(f, b). (hash_u64 f h, b)) (fingerprint_fold ri ms (hash_usize (length ms) 0) b)
       | ReferenceT (TypeReference rid disp args) \<Rightarrow>
           if retains_resolution_context ri (TypeReference rid disp args)
              \<or> \<not> supports_program_canonicalization ri (TypeReference rid disp args) then None
           else
             let h = hash_u64 (program_canonicalization_discriminator ri (TypeReference rid disp args)) (hash_str rid h)
             in map_option (\<lambda>(f, b). (hash_u64 f h, b)) (fingerprint_fold ri args (hash_usize (length args) 0) b)
       | _ \<Rightarrow> Some (h, b)))"
| "fingerprint_fold ri [] h b = Some (h, b)"
| "fingerprint_fold ri (t # ts) h b =
     Option.bind (fingerprint_type ri t b) (\<lambda>(f, b). fingerprint_fold ri ts (hash_u64 f h) b)"

declare fingerprint_type.simps [simp del]

definition fingerprint_types ::
    "resolver_identity \<Rightarrow> ty list \<Rightarrow> fingerprint_budget \<Rightarrow> (u64 \<times> fingerprint_budget) option" where
  "fingerprint_types ri ts b = fingerprint_fold ri ts (hash_usize (length ts) 0) b"

section \<open>Canonical equality\<close>

primrec canonical_types_equal :: "resolver_identity \<Rightarrow> ty \<Rightarrow> ty \<Rightarrow> bool"
  and canonical_functions :: "resolver_identity \<Rightarrow> function_type \<Rightarrow> function_type \<Rightarrow> bool"
  and canonical_objects :: "resolver_identity \<Rightarrow> object_type \<Rightarrow> object_type \<Rightarrow> bool"
  and canonical_unions :: "resolver_identity \<Rightarrow> union_handle \<Rightarrow> union_handle \<Rightarrow> bool"
  and canonical_references :: "resolver_identity \<Rightarrow> type_reference \<Rightarrow> type_reference \<Rightarrow> bool" where
  "canonical_types_equal ri StringT = type_eq StringT"
| "canonical_types_equal ri NumberT = type_eq NumberT"
| "canonical_types_equal ri BooleanT = type_eq BooleanT"
| "canonical_types_equal ri BigIntT = type_eq BigIntT"
| "canonical_types_equal ri SymbolT = type_eq SymbolT"
| "canonical_types_equal ri UndefinedT = type_eq UndefinedT"
| "canonical_types_equal ri NullT = type_eq NullT"
| "canonical_types_equal ri VoidT = type_eq VoidT"
| "canonical_types_equal ri AnyT = type_eq AnyT"
| "canonical_types_equal ri UnknownT = type_eq UnknownT"
| "canonical_types_equal ri GenuineUnknownT = type_eq GenuineUnknownT"
| "canonical_types_equal ri ErrorT = type_eq ErrorT"
| "canonical_types_equal ri (TypeParameterT n owner) = type_eq (TypeParameterT n owner)"
| "canonical_types_equal ri NeverT = type_eq NeverT"
| "canonical_types_equal ri (StringLiteralT s) = type_eq (StringLiteralT s)"
| "canonical_types_equal ri (NumberLiteralT s) = type_eq (NumberLiteralT s)"
| "canonical_types_equal ri (BooleanLiteralT v) = type_eq (BooleanLiteralT v)"
| "canonical_types_equal ri (FunctionT f) = (\<lambda>b. case b of FunctionT g \<Rightarrow> canonical_functions ri f g | _ \<Rightarrow> False)"
| "canonical_types_equal ri (ObjectT obj) = (\<lambda>b. case b of ObjectT other \<Rightarrow> canonical_objects ri obj other | _ \<Rightarrow> False)"
| "canonical_types_equal ri (ArrayT e) = (\<lambda>b. case b of ArrayT e' \<Rightarrow> canonical_types_equal ri e e' | _ \<Rightarrow> False)"
| "canonical_types_equal ri (TupleT es) =
     (\<lambda>b. case b of TupleT es' \<Rightarrow> vec_eq (map (canonical_types_equal ri) es) es' | _ \<Rightarrow> False)"
| "canonical_types_equal ri (OpenTupleT ls r ts) = type_eq (OpenTupleT ls r ts)"
| "canonical_types_equal ri (UnionT u) = (\<lambda>b. case b of UnionT v \<Rightarrow> canonical_unions ri u v | _ \<Rightarrow> False)"
| "canonical_types_equal ri (ReferenceT r) =
     (\<lambda>b. case b of ReferenceT r' \<Rightarrow> canonical_references ri r r' | _ \<Rightarrow> False)"
| "canonical_functions ri (FunctionType ps pid r v c addr thd) = (\<lambda>g. addr = payload_address g)"
| "canonical_objects ri (ObjectType ps si ni sr nr cons call isec np ops addr al aid) = (\<lambda>other.
     al = object_alias_name other \<and> aid = object_alias_id other \<and> addr = properties_address other
     \<and> sr = string_index_readonly other \<and> nr = number_index_readonly other
     \<and> opt_eq (map_option (canonical_types_equal ri) si) (string_index_type other)
     \<and> map_option payload_address call = map_option payload_address (call_signature other)
     \<and> map_option payload_address cons = map_option payload_address (construct_signature other))"
| "canonical_unions ri (UnionHandle ts lid al) = (\<lambda>v. vec_eq (map (canonical_types_equal ri) ts) (union_types v))"
| "canonical_references ri (TypeReference rid disp args) = (\<lambda>r.
     rid = reference_id r \<and> disp = reference_display r
     \<and> program_canonicalization_discriminator ri (TypeReference rid disp args) = program_canonicalization_discriminator ri r
     \<and> vec_eq (map (canonical_types_equal ri) args) (arguments r))"

definition canonical_type_lists_equal :: "resolver_identity \<Rightarrow> ty list \<Rightarrow> ty list \<Rightarrow> bool" where
  "canonical_type_lists_equal ri ls rs = list_all2 (canonical_types_equal ri) ls rs"

section \<open>Interning\<close>

type_synonym 'v entry = "u64 \<times> 'v"
type_synonym 'v table = "u64 \<rightharpoonup> 'v entry list"

definition STORE_SHARDS :: nat where
  "STORE_SHARDS = 64"

definition shard_index :: "u64 \<Rightarrow> nat" where
  "shard_index key = unat key mod STORE_SHARDS"

definition store_id :: "u32 \<Rightarrow> u32 \<Rightarrow> u64" where
  "store_id owner index = push_bit 32 (ucast owner) OR ucast index"

definition belongs_to :: "u64 \<Rightarrow> u32 \<Rightarrow> bool" where
  "belongs_to i owner \<longleftrightarrow> (ucast (drop_bit 32 i) :: u32) = owner"

text \<open>\<open>bucket.retain\<close> of a lookup: dead entries before the hit are dropped, and nothing after it.\<close>

fun scan_bucket :: "(u64 \<Rightarrow> bool) \<Rightarrow> ('v \<Rightarrow> bool) \<Rightarrow> 'v entry list \<Rightarrow> 'v entry option \<times> 'v entry list" where
  "scan_bucket live same [] = (None, [])"
| "scan_bucket live same (e # es) =
     (if \<not> live (fst e) then scan_bucket live same es
      else if same (snd e) then (Some e, e # es)
      else map_prod id ((#) e) (scan_bucket live same es))"

definition bucket_of_key :: "'v table \<Rightarrow> u64 \<Rightarrow> 'v entry list" where
  "bucket_of_key t key = (case t key of None \<Rightarrow> [] | Some bucket \<Rightarrow> bucket)"

definition retain_live_entries :: "(u64 \<Rightarrow> bool) \<Rightarrow> 'v entry list \<Rightarrow> 'v entry list option" where
  "retain_live_entries live bucket =
     (let kept = filter (\<lambda>e. live (fst e)) bucket in if kept = [] then None else Some kept)"

definition sweep_if_due :: "bool \<Rightarrow> (u64 \<Rightarrow> bool) \<Rightarrow> nat \<Rightarrow> 'v table \<Rightarrow> 'v table" where
  "sweep_if_due due live shard t =
     (if \<not> due then t
      else (\<lambda>key. if shard_index key = shard then Option.bind (t key) (retain_live_entries live) else t key))"

definition intern_entry ::
    "(u64 \<Rightarrow> bool) \<Rightarrow> bool \<Rightarrow> ('v \<Rightarrow> bool) \<Rightarrow> u64 \<Rightarrow> u64 \<Rightarrow> 'v \<Rightarrow> 'v table \<Rightarrow> bool \<times> 'v entry \<times> 'v table" where
  "intern_entry live due same fresh_id key v t =
     (case scan_bucket live same (bucket_of_key t key) of
        (Some hit, bucket) \<Rightarrow> (True, hit, t(key \<mapsto> bucket))
      | (None, bucket) \<Rightarrow>
          (False, (fresh_id, v), sweep_if_due due live (shard_index key) (t(key \<mapsto> bucket @ [(fresh_id, v)]))))"

record program_type_store =
  st_owner :: u32
  next_type_list :: u32
  next_function :: u32
  next_union :: u32
  next_property_map :: u32
  parameter_lists :: "ty list table"
  function_payloads :: "function_type table"
  unions :: "ty list table"
  property_maps :: "(rstr \<times> object_property) list table"
  overload_merges :: "u64 \<times> u64 \<rightharpoonup> u64 \<times> function_type"

record liveness =
  live_list :: "u64 \<Rightarrow> bool"
  live_function :: "u64 \<Rightarrow> bool"
  live_union :: "u64 \<Rightarrow> bool"
  live_property_map :: "u64 \<Rightarrow> bool"
  sweep_due :: bool

definition new_store :: "u32 \<Rightarrow> program_type_store" where
  "new_store owner = \<lparr>st_owner = owner, next_type_list = 1, next_function = 1, next_union = 1, next_property_map = 1,
     parameter_lists = Map.empty, function_payloads = Map.empty, unions = Map.empty, property_maps = Map.empty,
     overload_merges = Map.empty\<rparr>"

definition clear_store :: "program_type_store \<Rightarrow> program_type_store" where
  "clear_store st = st\<lparr>parameter_lists := Map.empty, function_payloads := Map.empty, unions := Map.empty,
     property_maps := Map.empty, overload_merges := Map.empty\<rparr>"

definition intern_parameter_list ::
    "resolver_identity \<Rightarrow> liveness \<Rightarrow> ty list \<Rightarrow> u64 \<Rightarrow> program_type_store \<Rightarrow> (ty list \<times> u64) \<times> program_type_store" where
  "intern_parameter_list ri lv params key st =
     (case intern_entry (live_list lv) (sweep_due lv) (\<lambda>existing. canonical_type_lists_equal ri existing params)
             (store_id (st_owner st) (next_type_list st)) key params (parameter_lists st) of
        (hit, (i, v), t) \<Rightarrow>
          ((v, i), st\<lparr>parameter_lists := t,
             next_type_list := (if hit then next_type_list st else next_type_list st + 1)\<rparr>))"

definition same_function :: "resolver_identity \<Rightarrow> ty list \<Rightarrow> ty \<Rightarrow> bool \<Rightarrow> u64 \<Rightarrow> function_type \<Rightarrow> bool" where
  "same_function ri params ret variadic required existing \<longleftrightarrow>
     canonical_type_lists_equal ri (parameters existing) params
     \<and> canonical_types_equal ri (return_type existing) ret
     \<and> is_variadic existing = variadic \<and> required_parameter_count existing = required"

text \<open>\<open>addr\<close> is the address the allocator gives a new payload.\<close>

definition intern_function ::
    "resolver_identity \<Rightarrow> liveness \<Rightarrow> u64 \<Rightarrow> ty list \<Rightarrow> ty \<Rightarrow> bool \<Rightarrow> u64 \<Rightarrow> program_type_store
      \<Rightarrow> ((function_type \<times> u64) \<times> program_type_store) option" where
  "intern_function ri lv addr params ret variadic required st =
     Option.bind (fingerprint_types ri params default_budget) (\<lambda>(parameter_hash, budget).
     Option.bind (fingerprint_type ri ret budget) (\<lambda>(return_hash, _).
       let ((params, lid), st) = intern_parameter_list ri lv params parameter_hash st;
           key = hash_u64 required (hash_bool variadic (hash_u64 return_hash (hash_u64 parameter_hash 0)))
       in case intern_entry (live_function lv) (sweep_due lv) (same_function ri params ret variadic required)
                 (store_id (st_owner st) (next_function st)) key
                 (FunctionType params (Some lid) ret variadic required addr None) (function_payloads st) of
            (hit, (i, v), t) \<Rightarrow>
              Some ((v, i), st\<lparr>function_payloads := t,
                next_function := (if hit then next_function st else next_function st + 1)\<rparr>)))"

definition intern_union ::
    "resolver_identity \<Rightarrow> liveness \<Rightarrow> ty list \<Rightarrow> program_type_store \<Rightarrow> ((ty list \<times> u64) \<times> program_type_store) option" where
  "intern_union ri lv types st =
     map_option (\<lambda>(key, _).
       case intern_entry (live_union lv) (sweep_due lv) (\<lambda>existing. canonical_type_lists_equal ri existing types)
              (store_id (st_owner st) (next_union st)) key types (unions st) of
         (hit, (i, v), t) \<Rightarrow>
           ((v, i), st\<lparr>unions := t, next_union := (if hit then next_union st else next_union st + 1)\<rparr>))
       (fingerprint_types ri types default_budget)"

definition intern_union_borrowed ::
    "resolver_identity \<Rightarrow> liveness \<Rightarrow> ty list \<Rightarrow> program_type_store \<Rightarrow> (ty list \<times> u64) option \<times> program_type_store" where
  "intern_union_borrowed ri lv types st =
     (case fingerprint_types ri types default_budget of
        None \<Rightarrow> (None, st)
      | Some (key, _) \<Rightarrow>
          (case scan_bucket (live_union lv) (\<lambda>existing. canonical_type_lists_equal ri existing types)
                  (bucket_of_key (unions st) key) of
             (hit, bucket) \<Rightarrow>
               (map_option (\<lambda>(i, v). (v, i)) hit, st\<lparr>unions := (unions st)(key \<mapsto> bucket)\<rparr>)))"

text \<open>\<open>UnionType::new\<close> and \<open>UnionType::from_borrowed_members\<close> with a store installed.\<close>

definition new_union_type ::
    "resolver_identity \<Rightarrow> liveness \<Rightarrow> ty list \<Rightarrow> program_type_store \<Rightarrow> (union_handle \<times> u64 option) \<times> program_type_store" where
  "new_union_type ri lv types st =
     (case intern_union ri lv types st of
        Some ((payload, i), st') \<Rightarrow> ((UnionHandle payload None None, Some i), st')
      | None \<Rightarrow> ((UnionHandle types None None, None), st))"

definition from_borrowed_members ::
    "resolver_identity \<Rightarrow> liveness \<Rightarrow> ty list \<Rightarrow> program_type_store \<Rightarrow> (union_handle \<times> u64 option) \<times> program_type_store" where
  "from_borrowed_members ri lv members st =
     (case intern_union_borrowed ri lv members st of
        (Some (payload, i), st') \<Rightarrow> ((UnionHandle payload None None, Some i), st')
      | (None, st') \<Rightarrow> new_union_type ri lv members st')"

section \<open>Property maps and overload merges\<close>

definition ordered_property_maps_equal :: "(rstr \<times> object_property) list \<Rightarrow> (rstr \<times> object_property) list \<Rightarrow> bool" where
  "ordered_property_maps_equal ls rs =
     list_all2 (\<lambda>(ln, lp) (rn, rp). ln = rn \<and> property_eq lp rp) ls rs"

fun fingerprint_property_type :: "ty \<Rightarrow> fingerprint_budget \<Rightarrow> (u64 \<times> fingerprint_budget) option"
  and fingerprint_property_fold :: "ty list \<Rightarrow> u64 \<Rightarrow> fingerprint_budget \<Rightarrow> (u64 \<times> fingerprint_budget) option" where
  "fingerprint_property_type t b =
     (if type_discriminant t \<in> {9, 12, 17, 18, 23} then None
      else Option.bind (enter_budget b) (\<lambda>b.
        let h = hash_usize (type_discriminant t) 0 in
        map_option leave_budget (case t of
          StringLiteralT v \<Rightarrow> Some (hash_str v h, b)
        | NumberLiteralT v \<Rightarrow> Some (hash_str v h, b)
        | BooleanLiteralT v \<Rightarrow> Some (hash_bool v h, b)
        | ArrayT e \<Rightarrow> map_option (\<lambda>(f, b). (hash_u64 f h, b)) (fingerprint_property_type e b)
        | TupleT es \<Rightarrow> fingerprint_property_fold es h b
        | OpenTupleT ls r ts \<Rightarrow>
            Option.bind (fingerprint_property_fold ls h b) (\<lambda>(h, b).
            Option.bind (fingerprint_property_fold ts h b) (\<lambda>(h, b).
            map_option (\<lambda>(f, b). (hash_u64 f h, b)) (fingerprint_property_type r b)))
        | UnionT (UnionHandle ms lid al) \<Rightarrow> fingerprint_property_fold ms h b
        | _ \<Rightarrow> Some (h, b))))"
| "fingerprint_property_fold [] h b = Some (h, b)"
| "fingerprint_property_fold (t # ts) h b =
     Option.bind (fingerprint_property_type t b) (\<lambda>(f, b). fingerprint_property_fold ts (hash_u64 f h) b)"

declare fingerprint_property_type.simps [simp del]

fun fingerprint_properties ::
    "(rstr \<times> object_property) list \<Rightarrow> u64 \<Rightarrow> fingerprint_budget \<Rightarrow> u64 option" where
  "fingerprint_properties [] h b = Some h"
| "fingerprint_properties ((n, p) # ps) h b =
     Option.bind (fingerprint_property_type (property_ty p) b) (\<lambda>(f, b).
       fingerprint_properties ps (hash_u64 f (hash_bool (optional p) (hash_str n h))) b)"

definition intern_property_map ::
    "liveness \<Rightarrow> (rstr \<times> object_property) list \<Rightarrow> program_type_store
      \<Rightarrow> (((rstr \<times> object_property) list \<times> u64) \<times> program_type_store) option" where
  "intern_property_map lv ps st =
     map_option (\<lambda>key.
       case intern_entry (live_property_map lv) (sweep_due lv) (\<lambda>existing. ordered_property_maps_equal existing ps)
              (store_id (st_owner st) (next_property_map st)) key ps (property_maps st) of
         (hit, (i, v), t) \<Rightarrow>
           ((v, i), st\<lparr>property_maps := t,
              next_property_map := (if hit then next_property_map st else next_property_map st + 1)\<rparr>))
       (fingerprint_properties ps (hash_usize (length ps) 0) default_budget)"

definition merge_shard :: "u64 \<times> u64 \<Rightarrow> nat" where
  "merge_shard k = shard_index (hash_u64 (snd k) (hash_u64 (fst k) 0))"

definition sweep_merges ::
    "liveness \<Rightarrow> nat \<Rightarrow> (u64 \<times> u64 \<rightharpoonup> u64 \<times> function_type) \<Rightarrow> (u64 \<times> u64 \<rightharpoonup> u64 \<times> function_type)" where
  "sweep_merges lv shard merges =
     (if \<not> sweep_due lv then merges
      else (\<lambda>k. case merges k of
              None \<Rightarrow> None
            | Some (i, payload) \<Rightarrow> if merge_shard k = shard \<and> \<not> live_function lv i then None else Some (i, payload)))"

definition lookup_overload_merge ::
    "liveness \<Rightarrow> u64 \<Rightarrow> u64 \<Rightarrow> program_type_store \<Rightarrow> (function_type \<times> u64) option \<times> program_type_store" where
  "lookup_overload_merge lv left_id right_id st =
     (case overload_merges st (left_id, right_id) of
        None \<Rightarrow> (None, st)
      | Some (i, payload) \<Rightarrow>
          if live_function lv i then (Some (payload, i), st)
          else (None, st\<lparr>overload_merges := (overload_merges st)((left_id, right_id) := None)\<rparr>))"

text \<open>The merged signature with its interner id.\<close>

definition record_overload_merge ::
    "liveness \<Rightarrow> u64 \<Rightarrow> u64 \<Rightarrow> function_type \<times> u64 option \<Rightarrow> program_type_store
      \<Rightarrow> (function_type \<times> u64 option) \<times> program_type_store" where
  "record_overload_merge lv left_id right_id merged st =
     (let key = (left_id, right_id);
          insert_merge = (\<lambda>i. (merged, st\<lparr>overload_merges :=
            sweep_merges lv (merge_shard key) ((overload_merges st)(key \<mapsto> (i, fst merged)))\<rparr>))
      in case snd merged of
           None \<Rightarrow> (merged, st)
         | Some i \<Rightarrow>
             (case overload_merges st key of
                None \<Rightarrow> insert_merge i
              | Some (existing_id, existing) \<Rightarrow>
                  if live_function lv existing_id then ((existing, Some existing_id), st) else insert_merge i))"

end
