(* ===== verification/Store_Laws.thy ===== *)
theory Store_Laws
  imports Type_Equality Type_Store
begin

text \<open>
  Laws of the type store. The locale \<open>interner\<close> is the contract of a table of weak entries: as long
  as a payload is alive, interning its value again gives the payload back. It is interpreted for
  the tables of unions and parameter lists and of property maps. The last section shows two object
  types the interner does not tell apart.
\<close>

section \<open>Buckets\<close>

lemma scan_bucket_find: "fst (scan_bucket live same es) = find (\<lambda>e. live (fst e) \<and> same (snd e)) es"
  by (induction es) auto

lemma scan_bucket_keeps:
  "(\<And>e. P e \<Longrightarrow> live (fst e)) \<Longrightarrow> find P (snd (scan_bucket live same es)) = find P es"
  by (induction es) auto

lemma scan_bucket_pair: "scan_bucket live same es = (h, bucket) \<longleftrightarrow>
    fst (scan_bucket live same es) = h \<and> snd (scan_bucket live same es) = bucket"
  by auto

lemma find_filter: "(\<And>e. P e \<Longrightarrow> Q e) \<Longrightarrow> find P (filter Q es) = find P es"
  by (induction es) auto

lemma find_append: "find P (xs @ ys) = (case find P xs of None \<Rightarrow> find P ys | Some x \<Rightarrow> Some x)"
  by (induction xs) auto

lemma bucket_of_key_update: "bucket_of_key (t(k \<mapsto> b)) k = b"
  by (simp add: bucket_of_key_def)

lemma bucket_of_key_sweep:
  assumes "\<And>e. P e \<Longrightarrow> live (fst e)"
  shows "find P (bucket_of_key (sweep_if_due due live shard t) k) = find P (bucket_of_key t k)"
proof (cases "t k")
  case (Some b)
  have "find P (filter (\<lambda>e. live (fst e)) b) = find P b" by (rule find_filter) (rule assms)
  then show ?thesis using Some
    by (cases "filter (\<lambda>e. live (fst e)) b = []")
      (simp_all add: sweep_if_due_def bucket_of_key_def retain_live_entries_def Let_def)
qed (simp add: sweep_if_due_def bucket_of_key_def)

section \<open>Interning a value again\<close>

locale interner =
  fixes same :: "'v \<Rightarrow> 'v \<Rightarrow> bool" and valid :: "'v \<Rightarrow> bool"
  assumes same_refl: "valid v \<Longrightarrow> same v v"
begin

lemma answer_same:
  assumes "valid v" "intern_entry live due (\<lambda>existing. same existing v) fresh_id key v t = (hit, e, t')"
  shows "same (snd e) v"
proof -
  let ?scan = "scan_bucket live (\<lambda>existing. same existing v) (bucket_of_key t key)"
  obtain h bucket where scan: "?scan = (h, bucket)" by fastforce
  then have h: "h = find (\<lambda>x. live (fst x) \<and> same (snd x) v) (bucket_of_key t key)"
    using scan_bucket_find[of live "\<lambda>existing. same existing v" "bucket_of_key t key"] by simp
  show ?thesis
  proof (cases h)
    case None
    then have "e = (fresh_id, v)" using assms(2) scan by (auto simp: intern_entry_def)
    then show ?thesis using same_refl[OF assms(1)] by simp
  next
    case (Some x)
    then have "e = x" using assms(2) scan by (simp add: intern_entry_def)
    then show ?thesis using Some h by (metis (mono_tags, lifting) find_Some_iff)
  qed
qed

lemma answer_found:
  assumes "valid v" "live fresh_id"
    and intern: "intern_entry live due (\<lambda>existing. same existing v) fresh_id key v t = (hit, e, t')"
    and alive: "live' (fst e)" "\<And>i. live' i \<Longrightarrow> live i"
  shows "find (\<lambda>x. live' (fst x) \<and> same (snd x) v) (bucket_of_key t' key) = Some e"
proof -
  let ?same = "\<lambda>existing. same existing v"
  let ?P = "\<lambda>x. live' (fst x) \<and> same (snd x) v"
  have P: "?P x \<Longrightarrow> live (fst x)" for x using alive(2) by blast
  obtain h bucket where scan: "scan_bucket live ?same (bucket_of_key t key) = (h, bucket)" by fastforce
  then have h: "h = find (\<lambda>x. live (fst x) \<and> ?same (snd x)) (bucket_of_key t key)" and
    keep: "find ?P bucket = find ?P (bucket_of_key t key)"
    using scan_bucket_find[of live ?same "bucket_of_key t key"] scan_bucket_keeps[of ?P live ?same "bucket_of_key t key"] P
    by simp_all
  show ?thesis
  proof (cases h)
    case None
    then have "find ?P bucket = None" using h keep alive(2) by (auto simp: find_None_iff)
    moreover have "e = (fresh_id, v)" "t' = sweep_if_due due live (shard_index key) (t(key \<mapsto> bucket @ [(fresh_id, v)]))"
      using intern scan None by (auto simp: intern_entry_def)
    ultimately show ?thesis using alive(1) same_refl[OF assms(1)] P
      by (simp add: bucket_of_key_sweep bucket_of_key_update find_append)
  next
    case (Some x)
    then have e: "e = x" "t' = t(key \<mapsto> bucket)" using intern scan by (simp_all add: intern_entry_def)
    obtain i where i: "i < length (bucket_of_key t key)" "x = bucket_of_key t key ! i" "same (snd x) v"
      "\<forall>j < i. \<not> (live (fst (bucket_of_key t key ! j)) \<and> same (snd (bucket_of_key t key ! j)) v)"
      using Some h[symmetric] by (auto simp: find_Some_iff)
    then have "find ?P (bucket_of_key t key) = Some x"
      using alive e(1) by (auto simp: find_Some_iff)
    then show ?thesis using keep e by (simp add: bucket_of_key_update)
  qed
qed

lemma intern_again:
  assumes "valid v" "live fresh_id"
    and "intern_entry live due (\<lambda>existing. same existing v) fresh_id key v t = (hit, e, t')"
    and "live' (fst e)" "\<And>i. live' i \<Longrightarrow> live i"
  shows "\<exists>t''. intern_entry live' due' (\<lambda>existing. same existing v) fresh_id' key v t' = (True, e, t'')"
  using answer_found[where live' = live', OF assms] scan_bucket_find[of live' "\<lambda>existing. same existing v" "bucket_of_key t' key"]
  by (auto simp: intern_entry_def split: prod.split option.split)

end

section \<open>Reflexivity of canonical equality\<close>



interpretation map_table: interner ordered_property_maps_equal "list_all (\<lambda>(_, p). wf_property p)"
  by unfold_locales
    (auto simp: ordered_property_maps_equal_def intro!: list_all_refl[of "\<lambda>(_, p). wf_property p"] type_eq_refl_all(4))

lemma scan_bucket_twice:
  "scan_bucket live same (snd (scan_bucket live same es)) = scan_bucket live same es"
  by (induction es) auto

section \<open>Properties of the store\<close>


text \<open>
  Probing through borrowed members changes nothing: \<open>from_borrowed_members\<close> gives the handle,
  the id and the store of \<open>UnionType::new\<close> on the same members.
\<close>

theorem from_borrowed_members_is_new:
  "from_borrowed_members ri lv members st = new_union_type ri lv members st"
proof (cases "fingerprint_types ri members default_budget")
  case None
  then show ?thesis by (simp add: from_borrowed_members_def new_union_type_def intern_union_borrowed_def intern_union_def)
next
  case (Some kb)
  obtain key b where kb: "kb = (key, b)" by (cases kb)
  let ?same = "\<lambda>existing. canonical_type_lists_equal ri existing members"
  obtain h bucket where scan: "scan_bucket (live_union lv) ?same (bucket_of_key (unions st) key) = (h, bucket)" by fastforce
  have twice: "scan_bucket (live_union lv) ?same bucket = (h, bucket)"
    using scan_bucket_twice[of "live_union lv" ?same "bucket_of_key (unions st) key"] scan by simp
  show ?thesis
  proof (cases h)
    case None
    then show ?thesis using Some kb scan twice
      by (simp add: from_borrowed_members_def new_union_type_def intern_union_borrowed_def intern_union_def
          intern_entry_def bucket_of_key_update)
  next
    case (Some e)
    then show ?thesis using \<open>fingerprint_types ri members default_budget = Some kb\<close> kb scan
      by (cases e) (simp add: from_borrowed_members_def new_union_type_def intern_union_borrowed_def intern_union_def
          intern_entry_def)
  qed
qed

section \<open>Types the interner does not tell apart\<close>

lemma intern_union_defined:
  assumes "fingerprint_types ri types default_budget \<noteq> None"
  obtains v i st' where "intern_union ri lv types st = Some ((v, i), st')"
proof -
  have "intern_union ri lv types st \<noteq> None" using assms by (simp add: intern_union_def)
  then show thesis using that by (metis not_None_eq surj_pair)
qed

definition all_live :: liveness where
  "all_live = \<lparr>live_list = (\<lambda>_. True), live_function = (\<lambda>_. True), live_union = (\<lambda>_. True),
     live_property_map = (\<lambda>_. True), sweep_due = False\<rparr>"

definition plain_resolvers :: resolver_identity where
  "plain_resolvers = \<lparr>retains_resolution_context = (\<lambda>_. False), supports_program_canonicalization = (\<lambda>_. True),
     program_canonicalization_discriminator = (\<lambda>_. 0)\<rparr>"


text \<open>The object type \<open>{ [n: number]: t }\<close>; the empty property maps of all of them share the interned
  allocation at \<open>addr\<close>.\<close>

definition number_indexed :: "u64 \<Rightarrow> ty \<Rightarrow> ty" where
  "number_indexed addr t = ObjectT (ObjectType [] None (Some t) False False None None False False None addr None None)"

lemma fingerprint_number_indexed:
  "fingerprint_type ri (number_indexed addr a) b = fingerprint_type ri (number_indexed addr b') b"
  by (simp add: fingerprint_type.simps number_indexed_def)

text \<open>
  The interner does not tell apart object types that differ only in their number index
  signature: canonical equality ignores \<open>number_index_type\<close>, so after a union with
  \<open>{ [n: number]: a }\<close> has been built, building the same union with \<open>{ [n: number]: b }\<close> for a
  different \<open>b\<close> answers with the first one.
\<close>

theorem interner_conflates_number_index:
  assumes "\<not> type_eq a b"
    and "intern_union ri all_live [number_indexed addr a, UndefinedT] (new_store owner) = Some ((v, i), st)"
  shows "\<not> type_eq (number_indexed addr a) (number_indexed addr b)
    \<and> fst (from_borrowed_members ri all_live [number_indexed addr b, UndefinedT] st) =
        (UnionHandle [number_indexed addr a, UndefinedT] None None, Some i)"
proof -
  let ?as = "[number_indexed addr a, UndefinedT]" and ?bs = "[number_indexed addr b, UndefinedT]"
  obtain key budget where key: "fingerprint_types ri ?as default_budget = Some (key, budget)"
    using assms(2) by (auto simp: intern_union_def)
  then have key': "fingerprint_types ri ?bs default_budget = Some (key, budget)"
    by (simp add: fingerprint_types_def fingerprint_number_indexed[of ri addr b _ a])
  have st: "unions st = [key \<mapsto> [(i, ?as)]]" "v = ?as"
    using assms(2) key by (auto simp: intern_union_def new_store_def intern_entry_def bucket_of_key_def all_live_def sweep_if_due_def)
  have "canonical_type_lists_equal ri ?as ?bs"
    by (simp add: canonical_type_lists_equal_def number_indexed_def opt_eq_def)
  then have "fst (from_borrowed_members ri all_live ?bs st) = (UnionHandle ?as None None, Some i)"
    using key' st by (simp add: from_borrowed_members_def intern_union_borrowed_def bucket_of_key_def all_live_def)
  then show ?thesis using assms(1) by (simp add: number_indexed_def opt_eq_def)
qed

theorem interner_conflates_number_index_witness:
  "\<exists>i st. intern_union plain_resolvers all_live [number_indexed 7 StringT, UndefinedT] (new_store 1) =
       Some (([number_indexed 7 StringT, UndefinedT], i), st)
     \<and> fst (from_borrowed_members plain_resolvers all_live [number_indexed 7 NumberT, UndefinedT] st) =
       (UnionHandle [number_indexed 7 StringT, UndefinedT] None None, Some i)"
proof -
  have "fingerprint_types plain_resolvers [number_indexed 7 StringT, UndefinedT] default_budget \<noteq> None" by code_simp
  then obtain v i st where run: "intern_union plain_resolvers all_live [number_indexed 7 StringT, UndefinedT] (new_store 1) =
      Some ((v, i), st)" by (rule intern_union_defined)
  then have "v = [number_indexed 7 StringT, UndefinedT]"
    by (auto simp: intern_union_def new_store_def intern_entry_def bucket_of_key_def)
  moreover have "\<not> type_eq StringT NumberT" by simp
  from interner_conflates_number_index[OF this run]
  have "fst (from_borrowed_members plain_resolvers all_live [number_indexed 7 NumberT, UndefinedT] st) =
       (UnionHandle [number_indexed 7 StringT, UndefinedT] None None, Some i)" by blast
  ultimately show ?thesis using run by blast
qed

end
