(* ===== verification/Package_Maps.thy ===== *)
theory Package_Maps
  imports Semver Module_Resolution
begin

text \<open>
  Declaration resolution in a \<open>package.json\<close> (\<open>crates/surge-ts/src/package_resolution.rs\<close>): the active
  conditions, the \<open>exports\<close> and \<open>imports\<close> maps with conditional targets and star keys, and
  \<open>typesVersions\<close>. All operations are functions of the parsed JSON. An object keeps the order of its
  keys (the crate builds \<open>serde_json\<close> with \<open>preserve_order\<close>), so it is an association list; the parser
  leaves one entry for each key. The version of the bundled TypeScript is the argument \<open>ts\<close>.
\<close>

section \<open>JSON values\<close>

datatype json =
  JNull | JBool bool | JNumber rstr | JString rstr | JArray "json list" | JObject "(rstr \<times> json) list"

fun as_str :: "json \<Rightarrow> rstr option" where
  "as_str (JString s) = Some s"
| "as_str _ = None"

fun json_get :: "rstr \<Rightarrow> json \<Rightarrow> json option" where
  "json_get key (JObject entries) = map_of entries key"
| "json_get key _ = None"

text \<open>\<open>json.get(field).and_then(|value| value.as_str())\<close>\<close>

definition string_field :: "rstr \<Rightarrow> json \<Rightarrow> rstr option" where
  "string_field key value = Option.bind (json_get key value) as_str"

section \<open>Options and conditions\<close>

datatype module_resolution_kind = Node16 | Node20 | NodeNext | Bundler

datatype module_kind =
  CommonJS | ES2015 | ES2020 | ES2022 | ESNext | MNode16 | MNode18 | MNode20 | MNodeNext | Preserve

record resolver_options =
  module_resolution :: module_resolution_kind
  resolve_exports :: bool
  resolve_imports :: bool
  custom_conditions :: "rstr list"
  path_mappings :: "path_mapping list"
  path_mapping_base :: "rstr option"
  emit_module :: module_kind
  resolve_json_module :: bool

definition default_resolver_options :: resolver_options where
  "default_resolver_options =
     \<lparr>module_resolution = Bundler, resolve_exports = True, resolve_imports = True, custom_conditions = [],
      path_mappings = [], path_mapping_base = None, emit_module = ES2022, resolve_json_module = True\<rparr>"

definition active_conditions :: "resolver_options \<Rightarrow> bool \<Rightarrow> rstr list" where
  "active_conditions opts importer_is_esm =
     [if importer_is_esm then ''import'' else ''require''] @ [''types'']
     @ (if module_resolution opts \<noteq> Bundler then [''node''] else [])
     @ custom_conditions opts"

section \<open>Conditional targets\<close>

definition is_applicable_versioned_types_key :: "version \<Rightarrow> rstr \<Rightarrow> bool" where
  "is_applicable_versioned_types_key ts key =
     (starts_with key ''types@''
      \<and> (case parse_range (drop (length ''types@'') key) of Some r \<Rightarrow> range_test r ts | None \<Rightarrow> False))"

definition condition_matches :: "version \<Rightarrow> rstr list \<Rightarrow> rstr \<Rightarrow> bool" where
  "condition_matches ts conditions condition =
     (if condition = ''default'' \<or> condition \<in> set conditions then True
      else ''types'' \<in> set conditions \<and> is_applicable_versioned_types_key ts condition)"

text \<open>
  \<open>collect_targets_into\<close>: \<open>False\<close> when the collection hit an explicit \<open>null\<close> and the caller must not look at
  alternatives of lower priority. \<open>collect_items\<close> and \<open>collect_entries\<close> are its two loops.
\<close>

fun collect_targets_into :: "version \<Rightarrow> rstr list \<Rightarrow> json \<Rightarrow> rstr list \<Rightarrow> bool \<times> rstr list"
and collect_items :: "version \<Rightarrow> rstr list \<Rightarrow> json list \<Rightarrow> rstr list \<Rightarrow> rstr list"
and collect_entries :: "version \<Rightarrow> rstr list \<Rightarrow> (rstr \<times> json) list \<Rightarrow> rstr list \<Rightarrow> bool \<times> rstr list" where
  "collect_targets_into ts conditions (JString s) targets = (True, targets @ [s])"
| "collect_targets_into ts conditions (JArray items) targets = (True, collect_items ts conditions items targets)"
| "collect_targets_into ts conditions (JObject entries) targets = collect_entries ts conditions entries targets"
| "collect_targets_into ts conditions JNull targets = (False, targets)"
| "collect_targets_into ts conditions (JBool b) targets = (True, targets)"
| "collect_targets_into ts conditions (JNumber n) targets = (True, targets)"
| "collect_items ts conditions [] targets = targets"
| "collect_items ts conditions (item # items) targets =
     collect_items ts conditions items (snd (collect_targets_into ts conditions item targets))"
| "collect_entries ts conditions [] targets = (True, targets)"
| "collect_entries ts conditions ((condition, target) # entries) targets =
     (if condition_matches ts conditions condition then
        (case collect_targets_into ts conditions target targets of
           (True, targets') \<Rightarrow> collect_entries ts conditions entries targets'
         | (False, targets') \<Rightarrow> (False, targets'))
      else collect_entries ts conditions entries targets)"

definition collect_targets :: "version \<Rightarrow> rstr list \<Rightarrow> json \<Rightarrow> rstr list" where
  "collect_targets ts conditions value' = snd (collect_targets_into ts conditions value' [])"

section \<open>Subpath maps\<close>

definition is_subpath_map :: "(rstr \<times> json) list \<Rightarrow> char \<Rightarrow> bool" where
  "is_subpath_map entries mark = list_ex (\<lambda>(key, _). starts_with key [mark]) entries"

definition match_star :: "rstr \<Rightarrow> rstr \<Rightarrow> rstr \<Rightarrow> rstr option" where
  "match_star text before after =
     (if length text < length before + length after then None
      else if \<not> starts_with text before \<or> \<not> ends_with text after then None
      else Some (take (length text - length after - length before) (drop (length before) text)))"

text \<open>The search for the pattern with the longest literal prefix.\<close>

fun best_subpath :: "rstr \<Rightarrow> (rstr \<times> json \<times> rstr) option \<Rightarrow> (rstr \<times> json) list \<Rightarrow> (rstr \<times> json \<times> rstr) option" where
  "best_subpath key best [] = best"
| "best_subpath key best ((pat, entry) # entries) =
     (case single_star_parts pat of
        None \<Rightarrow> best_subpath key best entries
      | Some (before, after) \<Rightarrow>
          (case match_star key before after of
             None \<Rightarrow> best_subpath key best entries
           | Some captured \<Rightarrow>
               let more_specific = (case best of Some (best_before, _, _) \<Rightarrow> length best_before < length before | None \<Rightarrow> True)
               in best_subpath key (if more_specific then Some (before, entry, captured) else best) entries))"

definition select_all_from_subpath_map :: "version \<Rightarrow> (rstr \<times> json) list \<Rightarrow> rstr \<Rightarrow> rstr list \<Rightarrow> rstr list" where
  "select_all_from_subpath_map ts entries key conditions =
     (case map_of entries key of
        Some entry \<Rightarrow> collect_targets ts conditions entry
      | None \<Rightarrow>
          (case best_subpath key None entries of
             None \<Rightarrow> []
           | Some (_, entry, captured) \<Rightarrow> map (splice_star captured) (collect_targets ts conditions entry)))"

definition select_export_targets :: "version \<Rightarrow> json \<Rightarrow> rstr \<Rightarrow> rstr list \<Rightarrow> rstr list" where
  "select_export_targets ts exports subpath_key conditions =
     (case exports of
        JString _ \<Rightarrow> if subpath_key = ''.'' then collect_targets ts conditions exports else []
      | JArray _ \<Rightarrow> if subpath_key = ''.'' then collect_targets ts conditions exports else []
      | JObject entries \<Rightarrow>
          if is_subpath_map entries (CHR ''.'') then select_all_from_subpath_map ts entries subpath_key conditions
          else if subpath_key = ''.'' then collect_targets ts conditions exports
          else []
      | _ \<Rightarrow> [])"

definition select_export_target :: "version \<Rightarrow> json \<Rightarrow> rstr \<Rightarrow> rstr list \<Rightarrow> rstr option" where
  "select_export_target ts exports subpath_key conditions =
     (case select_export_targets ts exports subpath_key conditions of [] \<Rightarrow> None | target # _ \<Rightarrow> Some target)"

definition select_import_targets :: "version \<Rightarrow> json \<Rightarrow> rstr \<Rightarrow> rstr list \<Rightarrow> rstr list" where
  "select_import_targets ts imports specifier conditions =
     (case imports of
        JObject entries \<Rightarrow>
          if \<not> is_subpath_map entries (CHR ''#'') then []
          else select_all_from_subpath_map ts entries specifier conditions
      | _ \<Rightarrow> [])"

section \<open>\<open>typesVersions\<close>\<close>

fun string_list :: "json \<Rightarrow> rstr list" where
  "string_list (JString s) = [s]"
| "string_list (JArray items) = List.map_filter as_str items"
| "string_list _ = []"

definition match_types_versions_paths :: "(rstr \<times> json) list \<Rightarrow> rstr \<Rightarrow> rstr list" where
  "match_types_versions_paths paths subpath =
     (case map_of paths subpath of
        Some targets \<Rightarrow> string_list targets
      | None \<Rightarrow>
          (case best_subpath subpath None paths of
             Some (_, targets, captured) \<Rightarrow> map (splice_star captured) (string_list targets)
           | None \<Rightarrow> []))"

fun version_paths :: "version \<Rightarrow> (rstr \<times> json) list \<Rightarrow> rstr \<Rightarrow> rstr list" where
  "version_paths ts [] subpath = []"
| "version_paths ts ((version_range, mapping) # entries) subpath =
     (case parse_range version_range of
        None \<Rightarrow> version_paths ts entries subpath
      | Some r \<Rightarrow>
          if \<not> range_test r ts then version_paths ts entries subpath
          else (case mapping of JObject paths \<Rightarrow> match_types_versions_paths paths subpath | _ \<Rightarrow> []))"

definition types_versions_candidates :: "version \<Rightarrow> json \<Rightarrow> rstr \<Rightarrow> rstr list" where
  "types_versions_candidates ts types_versions subpath =
     (case types_versions of JObject entries \<Rightarrow> version_paths ts entries subpath | _ \<Rightarrow> [])"

end
