(* ===== verification/Unix_Paths.thy ===== *)
theory Unix_Paths
  imports Paths
begin

text \<open>
  The operations of \<open>std::path\<close> on Unix paths that package and configuration loading use, on the text
  of a path: components, parent, file name, extension and their replacements. Repeated separators
  and inner \<open>.\<close> segments are no components, as documented for \<open>Path::components\<close>.
\<close>

datatype component = RootDir | CurDir | ParentDir | Normal rstr

definition body_component :: "rstr \<Rightarrow> component option" where
  "body_component segment =
     (if segment = [] \<or> segment = ''.'' then None
      else if segment = ''..'' then Some ParentDir else Some (Normal segment))"

definition segments :: "rstr \<Rightarrow> rstr list" where
  "segments path = split_on (CHR ''/'') path"

definition leading_component :: "rstr list \<Rightarrow> bool \<Rightarrow> component list" where
  "leading_component segs rooted = (if rooted then [RootDir] else if hd segs = ''.'' then [CurDir] else [])"

definition components :: "rstr \<Rightarrow> component list" where
  "components path =
     leading_component (segments path) (is_absolute_path path) @ List.map_filter body_component (segments path)"

text \<open>The segments up to the last component, and that component's text.\<close>

definition drop_trailing :: "rstr list \<Rightarrow> rstr list" where
  "drop_trailing segs = rev (dropWhile (\<lambda>s. body_component s = None) (rev segs))"

definition split_last :: "rstr \<Rightarrow> (rstr list \<times> rstr) option" where
  "split_last path =
     (let segs = drop_trailing (segments path)
      in if segs \<noteq> [] then Some (butlast segs, last segs)
         else if \<not> is_absolute_path path \<and> hd (segments path) = ''.'' then Some ([], ''.'') else None)"

definition path_parent :: "rstr \<Rightarrow> rstr option" where
  "path_parent path =
     map_option (\<lambda>(front, _).
       let kept = drop_trailing front
       in if kept \<noteq> [] then join_with ''/'' kept
          else if is_absolute_path path then ''/''
          else if front \<noteq> [] \<and> hd front = ''.'' then ''.'' else [])
     (split_last path)"

definition path_file_name :: "rstr \<Rightarrow> rstr option" where
  "path_file_name path =
     Option.bind (split_last path) (\<lambda>(_, name). case body_component name of Some (Normal n) \<Rightarrow> Some n | _ \<Rightarrow> None)"

text \<open>\<open>rsplit_file_at_dot\<close>: stem and extension of a file name.\<close>

definition rsplit_dot :: "rstr \<Rightarrow> rstr \<times> rstr option" where
  "rsplit_dot name =
     (case split_once (CHR ''.'') (rev name) of
        None \<Rightarrow> (name, None)
      | Some (after, before) \<Rightarrow> if before = [] then (name, None) else (rev before, Some (rev after)))"

definition path_extension :: "rstr \<Rightarrow> rstr option" where
  "path_extension path = Option.bind (path_file_name path) (\<lambda>name. snd (rsplit_dot name))"

definition replace_last :: "rstr \<Rightarrow> (rstr \<Rightarrow> rstr) \<Rightarrow> rstr" where
  "replace_last path f =
     (case split_last path of Some (front, name) \<Rightarrow> join_with ''/'' (front @ [f name]) | None \<Rightarrow> path)"

text \<open>\<open>with_extension\<close>, for a non-empty extension.\<close>

definition with_extension :: "rstr \<Rightarrow> rstr \<Rightarrow> rstr" where
  "with_extension path ext =
     (case path_file_name path of
        None \<Rightarrow> path
      | Some _ \<Rightarrow> replace_last path (\<lambda>name. fst (rsplit_dot name) @ ''.'' @ ext))"

definition with_file_name :: "rstr \<Rightarrow> rstr \<Rightarrow> rstr" where
  "with_file_name path name =
     path_join (case (path_file_name path, path_parent path) of (Some _, Some parent) \<Rightarrow> parent | _ \<Rightarrow> path) name"

text \<open>The components of \<open>path.strip_prefix(base).unwrap_or(path)\<close>.\<close>

definition below :: "rstr \<Rightarrow> rstr \<Rightarrow> component list" where
  "below base path =
     (let b = components base; c = components path
      in if take (length b) c = b then drop (length b) c else c)"

section \<open>Laws\<close>

lemma body_component_None [simp]: "body_component s = None \<longleftrightarrow> s = [] \<or> s = ''.''"
  by (auto simp: body_component_def)

lemma body_component_Normal [simp]:
  "body_component s = Some (Normal n) \<longleftrightarrow> n = s \<and> s \<noteq> [] \<and> s \<noteq> ''.'' \<and> s \<noteq> ''..''"
  by (auto simp: body_component_def)

lemma map_filter_append [simp]: "List.map_filter f (xs @ ys) = List.map_filter f xs @ List.map_filter f ys"
  by (simp add: List.map_filter_def)

lemma drop_trailing_split:
  obtains rest where "segs = drop_trailing segs @ rest" "List.map_filter body_component rest = []"
proof -
  have *: "segs = drop_trailing segs @ rev (takeWhile (\<lambda>s. body_component s = None) (rev segs))"
    unfolding drop_trailing_def by (metis rev_append rev_rev_ident takeWhile_dropWhile_id)
  moreover have "List.map_filter body_component (rev (takeWhile (\<lambda>s. body_component s = None) (rev segs))) = []"
    by (auto simp: List.map_filter_def filter_empty_conv dest: set_takeWhileD)
  ultimately show ?thesis using that by blast
qed

lemma drop_trailing_last: "drop_trailing segs \<noteq> [] \<Longrightarrow> body_component (last (drop_trailing segs)) \<noteq> None"
  unfolding drop_trailing_def
  by (metis (mono_tags, lifting) hd_dropWhile last_rev rev.simps(1) rev_rev_ident)

lemma map_filter_drop_trailing [simp]: "List.map_filter body_component (drop_trailing segs) = List.map_filter body_component segs"
proof -
  obtain rest where "segs = drop_trailing segs @ rest" "List.map_filter body_component rest = []"
    by (rule drop_trailing_split)
  then show ?thesis by (metis append.right_neutral map_filter_append)
qed

lemma segments_free: "s \<in> set (segments path) \<Longrightarrow> CHR ''/'' \<notin> set s"
  unfolding segments_def by (rule split_on_pieces)

lemma segments_not_Nil [simp]: "segments path \<noteq> []"
  by (simp add: segments_def)

lemma join_segments [simp]: "join_with ''/'' (segments path) = path"
  by (simp add: segments_def join_with_split_on)

lemma segments_join: "segs \<noteq> [] \<Longrightarrow> \<forall>s \<in> set segs. CHR ''/'' \<notin> set s \<Longrightarrow> segments (join_with ''/'' segs) = segs"
  by (simp add: segments_def split_on_join)

lemma absolute_segments: "is_absolute_path path \<longleftrightarrow> hd (segments path) = [] \<and> path \<noteq> []"
  by (cases path) (auto simp: is_absolute_path_def segments_def split: list.splits)

lemma drop_trailing_subset: "set (drop_trailing segs) \<subseteq> set segs"
  unfolding drop_trailing_def by (auto dest: set_dropWhileD)

lemma split_last_Normal:
  assumes "path_file_name path = Some name"
  obtains front rest where "split_last path = Some (front, name)" "segments path = front @ name # rest"
    "List.map_filter body_component rest = []" "body_component name = Some (Normal name)"
proof -
  have last: "split_last path = Some (front, n) \<Longrightarrow> n = name \<and> body_component name = Some (Normal name)" for front n
    using assms by (auto simp: path_file_name_def split: option.splits component.splits)
  have "drop_trailing (segments path) \<noteq> []"
    using assms by (auto simp: path_file_name_def split_last_def Let_def body_component_def split: if_splits)
  then have sl: "split_last path = Some (butlast (drop_trailing (segments path)), last (drop_trailing (segments path)))"
    and "drop_trailing (segments path) = butlast (drop_trailing (segments path)) @ [last (drop_trailing (segments path))]"
    by (simp_all add: split_last_def Let_def)
  moreover obtain rest where "segments path = drop_trailing (segments path) @ rest" "List.map_filter body_component rest = []"
    by (rule drop_trailing_split)
  ultimately show ?thesis using that last[OF sl] by (metis append.assoc append_Cons append_Nil)
qed

text \<open>Replacing the file name of a path replaces its last component.\<close>

lemma components_replace:
  assumes "segments path = front @ name # rest" "List.map_filter body_component rest = []"
    "body_component name = Some (Normal name)"
    and new: "body_component name' = Some (Normal name')" "CHR ''/'' \<notin> set name'"
  shows "components (join_with ''/'' (front @ [name'])) = butlast (components path) @ [Normal name']"
    and "components path \<noteq> []"
proof -
  let ?new = "join_with ''/'' (front @ [name'])"
  have segs: "segments ?new = front @ [name']"
    using segments_free[of _ path] assms(1) new(2) by (intro segments_join) auto
  have "hd (segments ?new) = '''' \<longleftrightarrow> hd (segments path) = ''''" "hd (segments ?new) = ''.'' \<longleftrightarrow> hd (segments path) = ''.''"
    using segs assms(1,3) new(1) by (cases front; auto)+
  moreover have "?new \<noteq> []" "path \<noteq> []"
    using segs assms(1,3) new(1) by (auto simp: segments_def Cons_eq_append_conv)
  ultimately have lead: "leading_component (segments ?new) (is_absolute_path ?new) = leading_component (segments path) (is_absolute_path path)"
    by (simp add: leading_component_def absolute_segments)
  have body: "List.map_filter body_component (segments path) = List.map_filter body_component front @ [Normal name]"
    using assms(1,2,3) by (simp add: List.map_filter_simps body_component_def)
  then show "components path \<noteq> []" by (simp add: components_def)
  show "components ?new = butlast (components path) @ [Normal name']"
    unfolding components_def lead unfolding body segs using new(1) by (auto simp: List.map_filter_simps butlast_append body_component_def)
qed

lemma rsplit_dot_stem: "set (fst (rsplit_dot name)) \<subseteq> set name" "name \<noteq> [] \<Longrightarrow> fst (rsplit_dot name) \<noteq> []"
  by (auto simp: rsplit_dot_def split: option.splits dest!: split_once_Some arg_cong[of "rev name" _ set])

lemma components_with_extension:
  assumes "path_file_name path = Some name" "CHR ''/'' \<notin> set ext" "ext \<noteq> []"
  shows "components (with_extension path ext) = butlast (components path) @ [Normal (fst (rsplit_dot name) @ ''.'' @ ext)]"
proof -
  obtain front rest where *: "split_last path = Some (front, name)" "segments path = front @ name # rest"
    "List.map_filter body_component rest = []" "body_component name = Some (Normal name)"
    using split_last_Normal[OF assms(1)] .
  have "CHR ''/'' \<notin> set (fst (rsplit_dot name))" "fst (rsplit_dot name) \<noteq> []"
    using rsplit_dot_stem[of name] segments_free[of name path] *(2,4) by auto
  moreover from this have "body_component (fst (rsplit_dot name) @ ''.'' @ ext) = Some (Normal (fst (rsplit_dot name) @ ''.'' @ ext))"
    using assms(3) by (auto simp: append_eq_Cons_conv)
  ultimately show ?thesis using components_replace[OF *(2,3,4), of "fst (rsplit_dot name) @ ''.'' @ ext"] * assms
    by (simp add: with_extension_def replace_last_def)
qed

section \<open>Ancestors\<close>

lemma join_with_append: "xs \<noteq> [] \<Longrightarrow> ys \<noteq> [] \<Longrightarrow> join_with sep (xs @ ys) = join_with sep xs @ sep @ join_with sep ys"
proof (induction xs)
  case (Cons x xs)
  then show ?case by (cases "xs = []") (simp_all add: join_with_Cons)
qed simp

lemma length_join_prefix: "length (join_with sep xs) \<le> length (join_with sep (xs @ ys))"
  by (cases "xs = []"; cases "ys = []") (simp_all add: join_with_append)

lemma path_parent_shorter:
  assumes "path_parent path = Some parent"
  shows "length parent < length path"
proof -
  obtain front name where sl: "split_last path = Some (front, name)" using assms by (auto simp: path_parent_def)
  show ?thesis
  proof (cases "drop_trailing (segments path) = []")
    case True
    then show ?thesis using assms sl by (cases path) (auto simp: path_parent_def split_last_def Let_def segments_def drop_trailing_def split: if_splits)
  next
    case False
    obtain rest where rest: "segments path = drop_trailing (segments path) @ rest" by (rule drop_trailing_split)
    have fn: "drop_trailing (segments path) = front @ [name]" "name \<noteq> []"
      using sl False drop_trailing_last[OF False] by (auto simp: split_last_def Let_def)
    have len: "length (join_with ''/'' (front @ [name])) \<le> length path"
      using length_join_prefix[of "''/''" "front @ [name]" rest] rest fn(1) by (metis join_segments)
    have front: "front \<noteq> [] \<Longrightarrow> length (join_with ''/'' front) + 1 < length path"
      using len fn(2) by (cases name) (auto simp: join_with_append)
    have kept: "length (join_with ''/'' (drop_trailing front)) \<le> length (join_with ''/'' front)"
      using drop_trailing_split[of front] length_join_prefix by metis
    have "0 < length path" using len fn(2) by (cases front) (auto simp: join_with_Cons)
    moreover have "front \<noteq> []" if "is_absolute_path path"
    proof
      assume "front = []"
      then have "hd (segments path) = name" using rest fn(1) by (metis append_Cons append_Nil list.sel(1))
      then show False using that fn(2) absolute_segments by simp
    qed
    moreover have "1 \<le> length (join_with ''/'' front)" if "front \<noteq> []" "hd front = ''.''"
      using that by (cases front) (auto simp: join_with_Cons neq_Nil_conv)
    moreover have "front \<noteq> []" if "drop_trailing front \<noteq> []" using that by (auto simp: drop_trailing_def)
    moreover have "parent = join_with ''/'' (drop_trailing front) \<and> drop_trailing front \<noteq> []
        \<or> parent = ''/'' \<and> is_absolute_path path \<or> parent = ''.'' \<and> front \<noteq> [] \<and> hd front = ''.'' \<or> parent = []"
      using assms sl by (auto simp: path_parent_def Let_def split: if_splits)
    ultimately show ?thesis using front kept by fastforce
  qed
qed

text \<open>\<open>path.ancestors()\<close>: the path and its parents.\<close>

function ancestors :: "rstr \<Rightarrow> rstr list" where
  "ancestors path = path # (case path_parent path of Some parent \<Rightarrow> ancestors parent | None \<Rightarrow> [])"
  by pat_completeness auto
termination
  by (relation "measure length") (simp_all add: path_parent_shorter)

declare ancestors.simps [simp del]

end
