(* ===== verification/Package_Entrypoints.thy ===== *)
theory Package_Entrypoints
  imports Package_Maps Unix_Paths
begin

text \<open>
  From a package specifier to the file it names (\<open>crates/surge-ts/src/package_declarations\<close>): candidate
  files, targets inside a package, legacy entry points, self references, the walk up the
  \<open>node_modules\<close> directories, \<open>#imports\<close>, and the resolution mode of a use.

  The file system is the record \<open>host\<close>: which paths are existing files, and the parsed contents of a
  JSON file. The answers of the file system do not change during a run, so the manifest cache
  \<open>read_package_json\<close> is transparent (shown for its model in \<open>Package_Laws\<close>), and the operations below
  read manifests through \<open>manifest\<close>.
\<close>

record host =
  is_existing_file :: "rstr \<Rightarrow> bool"
  parsed_json :: "rstr \<Rightarrow> json option"

definition read_package_json :: "host \<Rightarrow> rstr \<Rightarrow> (rstr \<rightharpoonup> json option) \<Rightarrow> json option \<times> (rstr \<rightharpoonup> json option)" where
  "read_package_json h path cache =
     (case cache path of
        Some cached \<Rightarrow> (cached, cache)
      | None \<Rightarrow> let parsed = parsed_json h path in (parsed, cache(path \<mapsto> parsed)))"

definition manifest :: "host \<Rightarrow> rstr \<Rightarrow> json option" where
  "manifest h path = (if is_existing_file h path then parsed_json h path else None)"

section \<open>Requests\<close>

datatype import_usage = DeclarationUse | ImportEquals | ModeOverride resolution_mode_override

record package_request =
  specifier :: rstr
  package_name :: rstr
  subpath :: "rstr option"
  importer_dir :: rstr
  importer_file :: rstr
  is_imports :: bool
  req_usage :: import_usage
  import_condition :: bool

datatype entrypoint_kind = Declaration | RuntimeOnly

record entrypoint =
  entry_path :: rstr
  entry_kind :: entrypoint_kind

definition parse_package_specifier :: "rstr \<Rightarrow> (rstr \<times> rstr option) option" where
  "parse_package_specifier spec =
     (if starts_with spec ''@'' then
        (case split_once (CHR ''/'') spec of
           None \<Rightarrow> None
         | Some (scope, rest) \<Rightarrow>
             (case split_once (CHR ''/'') rest of
                None \<Rightarrow> Some (scope @ ''/'' @ rest, None)
              | Some (name, sub) \<Rightarrow> Some (scope @ ''/'' @ name, Some sub)))
      else
        (case split_once (CHR ''/'') spec of
           None \<Rightarrow> Some (spec, None)
         | Some (name, sub) \<Rightarrow> Some (name, Some sub)))"

definition subpath_key :: "package_request \<Rightarrow> rstr" where
  "subpath_key req = (case subpath req of Some sub \<Rightarrow> ''./'' @ sub | None \<Rightarrow> ''.'')"

definition types_package_name :: "rstr \<Rightarrow> rstr" where
  "types_package_name name =
     (case name of
        c # rest \<Rightarrow> if c = CHR ''@'' then concat (map (\<lambda>d. if d = CHR ''/'' then ''__'' else [d]) rest) else name
      | [] \<Rightarrow> name)"

section \<open>Candidate files\<close>

definition ends_with_ci :: "rstr \<Rightarrow> rstr \<Rightarrow> bool" where
  "ends_with_ci path ext = ends_with (map ascii_lower path) ext"

definition is_declaration_file_path :: "rstr \<Rightarrow> bool" where
  "is_declaration_file_path path = (ends_with_ci path ''.d.ts'' \<or> ends_with_ci path ''.d.mts'' \<or> ends_with_ci path ''.d.cts'')"

definition is_runtime_javascript_file :: "rstr \<Rightarrow> bool" where
  "is_runtime_javascript_file path =
     (ends_with_ci path ''.js'' \<or> ends_with_ci path ''.jsx'' \<or> ends_with_ci path ''.mjs'' \<or> ends_with_ci path ''.cjs'')"

definition is_typescript_source_file :: "rstr \<Rightarrow> bool" where
  "is_typescript_source_file path =
     (\<not> is_declaration_file_path path
      \<and> (ends_with_ci path ''.ts'' \<or> ends_with_ci path ''.tsx'' \<or> ends_with_ci path ''.mts'' \<or> ends_with_ci path ''.cts''))"

definition strip_trailing_extension :: "rstr \<Rightarrow> rstr \<Rightarrow> rstr option" where
  "strip_trailing_extension path ext =
     map_option (\<lambda>name. with_file_name path (take (length name - length ext) name)) (path_file_name path)"

definition append_extension :: "rstr \<Rightarrow> rstr \<Rightarrow> rstr" where
  "append_extension base ext = base @ ''.'' @ ext"

definition runtime_substitutes :: "rstr \<Rightarrow> rstr \<times> rstr list" where
  "runtime_substitutes path =
     (if ends_with_ci path ''.mjs'' then (''.mjs'', [''mts'', ''d.mts''])
      else if ends_with_ci path ''.cjs'' then (''.cjs'', [''cts'', ''d.cts''])
      else if ends_with_ci path ''.jsx'' then (''.jsx'', [''ts'', ''tsx'', ''d.ts''])
      else (''.js'', [''ts'', ''tsx'', ''d.ts'']))"

definition declaration_candidates :: "rstr \<Rightarrow> rstr list" where
  "declaration_candidates path =
     (if is_declaration_file_path path then [path]
      else if is_typescript_source_file path then [path]
      else if is_runtime_javascript_file path then
        (case runtime_substitutes path of (ext, substitutes) \<Rightarrow>
           (case strip_trailing_extension path ext of
              None \<Rightarrow> []
            | Some base \<Rightarrow> map (append_extension base) substitutes))
      else if path_extension path \<noteq> None then []
      else map (with_extension path) [''ts'', ''tsx'', ''d.ts'', ''mts'', ''cts'', ''d.mts'', ''d.cts''])"

definition runtime_javascript_candidates :: "rstr \<Rightarrow> rstr list" where
  "runtime_javascript_candidates path =
     (if is_runtime_javascript_file path then [path]
      else if path_extension path = None then map (with_extension path) [''js'', ''jsx'', ''mjs'', ''cjs'']
      else [])"

definition resolve_declaration_candidate :: "host \<Rightarrow> rstr \<Rightarrow> rstr option" where
  "resolve_declaration_candidate h path =
     (if is_declaration_file_path path \<and> is_existing_file h path then Some path
      else find (is_existing_file h) (declaration_candidates path))"

definition resolve_runtime_only_candidate :: "host \<Rightarrow> rstr \<Rightarrow> entrypoint option" where
  "resolve_runtime_only_candidate h path =
     (case find (is_existing_file h) (runtime_javascript_candidates path) of
        Some candidate \<Rightarrow> Some \<lparr>entry_path = candidate, entry_kind = RuntimeOnly\<rparr>
      | None \<Rightarrow>
          if ends_with_ci path ''.json'' \<and> is_existing_file h path then Some \<lparr>entry_path = path, entry_kind = RuntimeOnly\<rparr>
          else None)"

definition resolve_declaration_or_runtime_candidate :: "host \<Rightarrow> rstr \<Rightarrow> entrypoint option" where
  "resolve_declaration_or_runtime_candidate h path =
     (case resolve_declaration_candidate h path of
        Some p \<Rightarrow> Some \<lparr>entry_path = p, entry_kind = Declaration\<rparr>
      | None \<Rightarrow> resolve_runtime_only_candidate h path)"

definition resolve_subpath_candidate :: "host \<Rightarrow> rstr \<Rightarrow> entrypoint option" where
  "resolve_subpath_candidate h path =
     (if \<not> ends_with_ci path ''.ts'' \<or> is_declaration_file_path path
      then resolve_declaration_or_runtime_candidate h path
      else
        Option.bind (strip_trailing_extension path ''.ts'') (\<lambda>base.
          map_option (\<lambda>p. \<lparr>entry_path = p, entry_kind = Declaration\<rparr>)
            (find (is_existing_file h) (map (append_extension base) [''ts'', ''tsx'', ''d.ts'']))))"

section \<open>Targets inside a package\<close>

fun stays_within :: "int \<Rightarrow> component list \<Rightarrow> bool" where
  "stays_within depth [] = True"
| "stays_within depth (ParentDir # cs) = (if depth - 1 < 0 then False else stays_within (depth - 1) cs)"
| "stays_within depth (CurDir # cs) = stays_within depth cs"
| "stays_within depth (c # cs) = stays_within (depth + 1) cs"

definition path_is_within :: "rstr \<Rightarrow> rstr \<Rightarrow> bool" where
  "path_is_within base candidate = stays_within 0 (below base candidate)"

fun trim_dot_slash :: "rstr \<Rightarrow> rstr" where
  "trim_dot_slash (c # d # s) = (if c = CHR ''.'' \<and> d = CHR ''/'' then trim_dot_slash s else c # d # s)"
| "trim_dot_slash s = s"

definition resolve_target_in_package :: "host \<Rightarrow> rstr \<Rightarrow> rstr \<Rightarrow> entrypoint option" where
  "resolve_target_in_package h pkg_dir target =
     (let joined = path_join pkg_dir (trim_dot_slash target)
      in if \<not> path_is_within pkg_dir joined then None
         else resolve_declaration_or_runtime_candidate h joined)"

text \<open>
  The loop shape all searches share: the first declaration ends the search, the first runtime file is
  kept as the answer of last resort.
\<close>

fun prefer_declaration :: "entrypoint option \<Rightarrow> entrypoint option list \<Rightarrow> entrypoint option" where
  "prefer_declaration fallback [] = fallback"
| "prefer_declaration fallback (None # rs) = prefer_declaration fallback rs"
| "prefer_declaration fallback (Some r # rs) =
     (if entry_kind r = Declaration then Some r
      else prefer_declaration (if fallback = None then Some r else fallback) rs)"

definition resolve_first_target_in_package :: "host \<Rightarrow> rstr \<Rightarrow> rstr list \<Rightarrow> entrypoint option" where
  "resolve_first_target_in_package h pkg_dir targets = prefer_declaration None (map (resolve_target_in_package h pkg_dir) targets)"

section \<open>Legacy entry points\<close>

definition resolve_legacy_file_probe :: "host \<Rightarrow> package_request \<Rightarrow> rstr \<Rightarrow> entrypoint option" where
  "resolve_legacy_file_probe h req pkg_dir =
     (case subpath req of
        Some sub \<Rightarrow>
          (case resolve_subpath_candidate h (path_join pkg_dir sub) of
             Some r \<Rightarrow> Some r
           | None \<Rightarrow> resolve_declaration_or_runtime_candidate h (path_join (path_join pkg_dir sub) ''index''))
      | None \<Rightarrow> resolve_declaration_or_runtime_candidate h (path_join pkg_dir ''index''))"

definition root_types_version_bases :: "json \<Rightarrow> rstr list" where
  "root_types_version_bases json =
     List.map_filter (\<lambda>field. map_option trim_dot_slash (string_field field json)) [''types'', ''typings''] @ [''index.d.ts'']"

definition version_targets :: "version \<Rightarrow> host \<Rightarrow> rstr \<Rightarrow> json \<Rightarrow> rstr \<Rightarrow> entrypoint option list" where
  "version_targets ts h pkg_dir json sub =
     (case json_get ''typesVersions'' json of
        Some types_versions \<Rightarrow> map (resolve_target_in_package h pkg_dir) (types_versions_candidates ts types_versions sub)
      | None \<Rightarrow> [])"

definition resolve_legacy_entrypoint_in_directory :: "version \<Rightarrow> host \<Rightarrow> package_request \<Rightarrow> rstr \<Rightarrow> json \<Rightarrow> entrypoint option" where
  "resolve_legacy_entrypoint_in_directory ts h req pkg_dir json =
     (let probe = (\<lambda>path. resolve_declaration_or_runtime_candidate h (path_join pkg_dir path))
      in prefer_declaration None
        ((case subpath req of
            Some sub \<Rightarrow>
              version_targets ts h pkg_dir json sub
              @ [resolve_subpath_candidate h (path_join pkg_dir sub),
                 resolve_declaration_or_runtime_candidate h (path_join (path_join pkg_dir sub) ''index'')]
          | None \<Rightarrow>
              concat (map (version_targets ts h pkg_dir json) (root_types_version_bases json))
              @ concat (map (\<lambda>field.
                  case string_field field json of
                    Some path \<Rightarrow>
                      [resolve_declaration_or_runtime_candidate h (path_join pkg_dir path),
                       resolve_declaration_or_runtime_candidate h (path_join (path_join pkg_dir path) ''index'')]
                  | None \<Rightarrow> []) [''types'', ''typings'', ''module'', ''main''])
              @ map probe [''dist/types/index'', ''types/index'', ''typings/index'', ''dist/esm/index'', ''dist/index''])
         @ [resolve_legacy_file_probe h req pkg_dir]))"

section \<open>A package directory\<close>

definition package_json_path :: "rstr \<Rightarrow> rstr" where
  "package_json_path dir = path_join dir ''package.json''"

definition resolve_nested_package_subpath :: "host \<Rightarrow> package_request \<Rightarrow> rstr \<Rightarrow> resolver_options \<Rightarrow> entrypoint option" where
  "resolve_nested_package_subpath h req pkg_dir opts =
     (case subpath req of
        None \<Rightarrow> None
      | Some sub \<Rightarrow>
          let candidate = path_join pkg_dir sub;
              nested_json_path = package_json_path candidate
          in if \<not> is_existing_file h nested_json_path then None
             else if resolve_exports opts
                \<and> (case manifest h (package_json_path pkg_dir) of
                     Some root \<Rightarrow> json_get ''exports'' root \<noteq> None | None \<Rightarrow> False) then None
             else prefer_declaration None
               ([resolve_declaration_or_runtime_candidate h candidate]
                @ (case parsed_json h nested_json_path of
                     None \<Rightarrow> []
                   | Some nested \<Rightarrow>
                       (case List.map_filter (\<lambda>field.
                            case string_field field nested of Some v \<Rightarrow> if v = [] then None else Some v | None \<Rightarrow> None)
                          [''typings'', ''types'', ''main''] of
                          [] \<Rightarrow> []
                        | path # _ \<Rightarrow>
                            [case resolve_declaration_or_runtime_candidate h (path_join candidate path) of
                               Some r \<Rightarrow> Some r
                             | None \<Rightarrow> resolve_declaration_or_runtime_candidate h (path_join (path_join candidate path) ''index'')]))
                @ [resolve_declaration_or_runtime_candidate h (path_join candidate ''index'')]))"

definition is_declaration :: "entrypoint option \<Rightarrow> bool" where
  "is_declaration r = (case r of Some e \<Rightarrow> entry_kind e = Declaration | None \<Rightarrow> False)"

definition resolve_package_entrypoint_in_directory ::
    "version \<Rightarrow> host \<Rightarrow> package_request \<Rightarrow> rstr \<Rightarrow> resolver_options \<Rightarrow> bool \<Rightarrow> entrypoint option" where
  "resolve_package_entrypoint_in_directory ts h req pkg_dir opts importer_is_esm =
     (let nested = resolve_nested_package_subpath h req pkg_dir opts;
          json = manifest h (package_json_path pkg_dir)
      in if is_declaration nested then nested
         else
           (case (if resolve_exports opts then Option.bind json (json_get ''exports'') else None) of
              Some exports \<Rightarrow>
                resolve_first_target_in_package h pkg_dir
                  (select_export_targets ts exports (subpath_key req) (active_conditions opts importer_is_esm))
            | None \<Rightarrow>
                let esm_mode = (module_resolution opts \<noteq> Bundler \<and> importer_is_esm);
                    root_file = (if subpath req = None \<and> \<not> esm_mode
                                 then resolve_declaration_or_runtime_candidate h pkg_dir else None)
                in if is_declaration root_file then root_file
                   else
                     let directory = (case json of
                           Some j \<Rightarrow> resolve_legacy_entrypoint_in_directory ts h req pkg_dir j
                         | None \<Rightarrow> resolve_legacy_file_probe h req pkg_dir)
                     in if is_declaration directory then directory
                        else case root_file of Some r \<Rightarrow> Some r | None \<Rightarrow> directory))"

section \<open>Walking up\<close>

fun nearest_package_json_in :: "host \<Rightarrow> rstr list \<Rightarrow> (rstr \<times> json) option" where
  "nearest_package_json_in h [] = None"
| "nearest_package_json_in h (dir # dirs) =
     (case manifest h (package_json_path dir) of Some json \<Rightarrow> Some (dir, json) | None \<Rightarrow> nearest_package_json_in h dirs)"

definition nearest_package_json :: "host \<Rightarrow> rstr \<Rightarrow> (rstr \<times> json) option" where
  "nearest_package_json h start_dir = nearest_package_json_in h (ancestors start_dir)"

definition resolve_self_name_entrypoint :: "version \<Rightarrow> host \<Rightarrow> package_request \<Rightarrow> resolver_options \<Rightarrow> bool \<Rightarrow> entrypoint option" where
  "resolve_self_name_entrypoint ts h req opts importer_is_esm =
     (if \<not> resolve_exports opts then None
      else
        Option.bind (nearest_package_json h (importer_dir req)) (\<lambda>(pkg_dir, json).
          Option.bind (string_field ''name'' json) (\<lambda>name.
            if name \<noteq> package_name req then None
            else Option.bind (json_get ''exports'' json) (\<lambda>exports.
              resolve_first_target_in_package h pkg_dir
                (select_export_targets ts exports (subpath_key req) (active_conditions opts importer_is_esm))))))"

definition resolve_types_package_directory :: "host \<Rightarrow> rstr \<Rightarrow> rstr option \<Rightarrow> entrypoint option" where
  "resolve_types_package_directory h package_dir sub =
     resolve_declaration_or_runtime_candidate h (path_join package_dir (case sub of Some s \<Rightarrow> s | None \<Rightarrow> ''index''))"

definition types_directory :: "rstr \<Rightarrow> rstr \<Rightarrow> rstr" where
  "types_directory dir name = path_join (path_join (path_join dir ''node_modules'') ''@types'') (types_package_name name)"

definition resolve_at_types_fallback_in_directory :: "host \<Rightarrow> package_request \<Rightarrow> rstr \<Rightarrow> rstr \<Rightarrow> entrypoint option" where
  "resolve_at_types_fallback_in_directory h req current_dir root_dir =
     (case resolve_types_package_directory h (types_directory current_dir (package_name req)) (subpath req) of
        Some r \<Rightarrow> Some r
      | None \<Rightarrow>
          if components current_dir \<noteq> components root_dir
          then resolve_types_package_directory h (types_directory root_dir (package_name req)) (subpath req)
          else None)"

fun walk_node_modules :: "(rstr \<Rightarrow> entrypoint option) \<Rightarrow> (rstr \<Rightarrow> entrypoint option) \<Rightarrow> entrypoint option \<Rightarrow> rstr list \<Rightarrow> entrypoint option" where
  "walk_node_modules in_directory at_types fallback [] = fallback"
| "walk_node_modules in_directory at_types fallback (dir # dirs) =
     (let r = in_directory dir
      in if is_declaration r then r
         else
           case at_types dir of
             Some t \<Rightarrow> Some t
           | None \<Rightarrow> walk_node_modules in_directory at_types (if fallback = None then r else fallback) dirs)"

definition resolve_external_entrypoint ::
    "version \<Rightarrow> host \<Rightarrow> resolver_options \<Rightarrow> rstr \<Rightarrow> package_request \<Rightarrow> bool \<Rightarrow> entrypoint option" where
  "resolve_external_entrypoint ts h opts root_dir req importer_is_esm =
     (case resolve_self_name_entrypoint ts h req opts importer_is_esm of
        Some r \<Rightarrow> Some r
      | None \<Rightarrow>
          walk_node_modules
            (\<lambda>dir. resolve_package_entrypoint_in_directory ts h req
               (path_join (path_join dir ''node_modules'') (package_name req)) opts importer_is_esm)
            (\<lambda>dir. resolve_at_types_fallback_in_directory h req dir root_dir)
            None (ancestors (importer_dir req)))"

section \<open>\<open>#imports\<close>\<close>

definition imports_module_target :: "package_request \<Rightarrow> rstr \<Rightarrow> rstr \<Rightarrow> package_request option" where
  "imports_module_target req target package_dir =
     (if starts_with target ''../'' \<or> is_absolute_path target then None
      else
        map_option (\<lambda>(name, sub).
          \<lparr>specifier = target, package_name = name, subpath = sub, importer_dir = package_dir,
           importer_file = package_json_path package_dir, is_imports = starts_with target ''#'',
           req_usage = req_usage req, import_condition = import_condition req\<rparr>)
        (if starts_with target ''#'' then Some (target, None) else parse_package_specifier target))"

text \<open>
  The loop over the targets of an alias. \<open>resolve\<close> stands for the recursive call, and its value \<open>None\<close> for a
  call that has not returned.
\<close>

fun try_import_targets ::
    "(package_request \<Rightarrow> entrypoint option option) \<Rightarrow> host \<Rightarrow> package_request \<Rightarrow> rstr \<Rightarrow> entrypoint option
      \<Rightarrow> rstr list \<Rightarrow> entrypoint option option" where
  "try_import_targets resolve h req pkg_dir fallback [] = Some fallback"
| "try_import_targets resolve h req pkg_dir fallback (target # targets) =
     Option.bind
       (if starts_with target ''./'' then Some (resolve_target_in_package h pkg_dir target)
        else case imports_module_target req target pkg_dir of
               Some module_request \<Rightarrow> resolve module_request
             | None \<Rightarrow> Some None)
       (\<lambda>r. if is_declaration r then Some r
            else try_import_targets resolve h req pkg_dir (if fallback = None then r else fallback) targets)"

definition resolve_imports_entrypoint ::
    "(package_request \<Rightarrow> entrypoint option option) \<Rightarrow> version \<Rightarrow> host \<Rightarrow> resolver_options \<Rightarrow> package_request \<Rightarrow> bool
      \<Rightarrow> entrypoint option option" where
  "resolve_imports_entrypoint resolve ts h opts req importer_is_esm =
     (if \<not> resolve_imports opts then Some None
      else case nearest_package_json h (importer_dir req) of
             None \<Rightarrow> Some None
           | Some (pkg_dir, json) \<Rightarrow>
               (case json_get ''imports'' json of
                  None \<Rightarrow> Some None
                | Some imports \<Rightarrow>
                    try_import_targets resolve h req pkg_dir None
                      (select_import_targets ts imports (specifier req) (active_conditions opts importer_is_esm))))"

text \<open>
  \<open>resolve_package_entrypoint\<close> with a bound on the nesting of calls: \<open>None\<close> when the bound is reached. Only an
  alias whose target is another module nests.
\<close>

fun resolve_package_entrypoint ::
    "nat \<Rightarrow> version \<Rightarrow> host \<Rightarrow> resolver_options \<Rightarrow> rstr \<Rightarrow> bool \<Rightarrow> package_request \<Rightarrow> entrypoint option option" where
  "resolve_package_entrypoint 0 ts h opts root_dir importer_is_esm req = None"
| "resolve_package_entrypoint (Suc n) ts h opts root_dir importer_is_esm req =
     (if is_imports req
      then resolve_imports_entrypoint (resolve_package_entrypoint n ts h opts root_dir importer_is_esm) ts h opts req importer_is_esm
      else Some (resolve_external_entrypoint ts h opts root_dir req importer_is_esm))"

section \<open>Resolution modes\<close>

datatype resolution_mode = NoMode | CommonJsMode | EsmMode

definition is_node_resolution :: "resolver_options \<Rightarrow> bool" where
  "is_node_resolution opts = (module_resolution opts \<in> {Node16, Node20, NodeNext})"

definition ends_with_any :: "rstr \<Rightarrow> rstr list \<Rightarrow> bool" where
  "ends_with_any file extensions = list_ex (ends_with file) extensions"

fun package_scope_type_in :: "host \<Rightarrow> rstr list \<Rightarrow> rstr option" where
  "package_scope_type_in h [] = None"
| "package_scope_type_in h (dir # dirs) =
     (if is_existing_file h (package_json_path dir)
      then Option.bind (parsed_json h (package_json_path dir)) (string_field ''type'')
      else package_scope_type_in h dirs)"

definition package_scope_type :: "host \<Rightarrow> rstr \<Rightarrow> rstr option" where
  "package_scope_type h directory = package_scope_type_in h (ancestors directory)"

definition implied_node_format_for_file :: "rstr \<Rightarrow> rstr option \<Rightarrow> resolution_mode" where
  "implied_node_format_for_file file package_json_type =
     (if ends_with_any file [''.d.mts'', ''.mts'', ''.mjs''] then EsmMode
      else if ends_with_any file [''.d.cts'', ''.cts'', ''.cjs''] then CommonJsMode
      else if ends_with_any file [''.d.ts'', ''.ts'', ''.tsx'', ''.js'', ''.jsx''] then
        (if package_json_type = Some ''module'' then EsmMode else CommonJsMode)
      else NoMode)"

record file_metadata =
  package_json_type :: "rstr option"
  implied_node_format :: resolution_mode

definition source_file_metadata :: "host \<Rightarrow> rstr \<Rightarrow> resolver_options \<Rightarrow> file_metadata" where
  "source_file_metadata h file opts =
     (let type_counts = (\<not> ends_with_any file [''.mts'', ''.cts'', ''.mjs'', ''.cjs''] \<and> is_node_resolution opts
                         \<or> contains_str file ''/node_modules/'');
          scope = (if type_counts then Option.bind (path_parent file) (package_scope_type h) else None)
      in \<lparr>package_json_type = scope, implied_node_format = implied_node_format_for_file file scope\<rparr>)"

definition implied_node_format_for_emit :: "rstr \<Rightarrow> module_kind \<Rightarrow> file_metadata \<Rightarrow> resolution_mode" where
  "implied_node_format_for_emit file emit meta =
     (if emit \<in> {MNode16, MNode18, MNode20, MNodeNext} then implied_node_format meta
      else
        case implied_node_format meta of
          CommonJsMode \<Rightarrow>
            if package_json_type meta = Some ''commonjs'' \<or> ends_with_any file [''.cjs'', ''.cts''] then CommonJsMode else NoMode
        | EsmMode \<Rightarrow>
            if package_json_type meta = Some ''module'' \<or> ends_with_any file [''.mjs'', ''.mts''] then EsmMode else NoMode
        | NoMode \<Rightarrow> NoMode)"

definition import_syntax_affects_module_resolution :: "resolver_options \<Rightarrow> bool" where
  "import_syntax_affects_module_resolution opts = (is_node_resolution opts \<or> resolve_exports opts \<or> resolve_imports opts)"

definition mode_of_emit_format :: "module_kind \<Rightarrow> resolution_mode" where
  "mode_of_emit_format kind =
     (if kind = CommonJS then CommonJsMode
      else if kind \<in> {ES2015, ES2020, ES2022, ESNext, Preserve} then EsmMode else NoMode)"

definition usage_resolution_mode :: "host \<Rightarrow> rstr \<Rightarrow> import_usage \<Rightarrow> resolver_options \<Rightarrow> resolution_mode" where
  "usage_resolution_mode h file usage opts =
     (case usage of
        ModeOverride ImportMode \<Rightarrow> EsmMode
      | ModeOverride RequireMode \<Rightarrow> CommonJsMode
      | _ \<Rightarrow>
          if \<not> import_syntax_affects_module_resolution opts then NoMode
          else if usage = ImportEquals then CommonJsMode
          else
            mode_of_emit_format
              (case implied_node_format_for_emit file (emit_module opts) (source_file_metadata h file opts) of
                 CommonJsMode \<Rightarrow> CommonJS | EsmMode \<Rightarrow> ESNext | NoMode \<Rightarrow> emit_module opts))"

definition default_resolution_mode :: "host \<Rightarrow> rstr \<Rightarrow> resolver_options \<Rightarrow> resolution_mode" where
  "default_resolution_mode h file opts =
     (if \<not> import_syntax_affects_module_resolution opts then NoMode
      else implied_node_format_for_emit file (emit_module opts) (source_file_metadata h file opts))"

definition resolves_with_import_condition :: "resolution_mode \<Rightarrow> resolver_options \<Rightarrow> bool" where
  "resolves_with_import_condition mode opts =
     (case mode of EsmMode \<Rightarrow> True | CommonJsMode \<Rightarrow> False | NoMode \<Rightarrow> module_resolution opts = Bundler)"

section \<open>From a specifier to a request\<close>

definition loadable_mapped_target :: "host \<Rightarrow> rstr \<Rightarrow> bool" where
  "loadable_mapped_target h candidate =
     ((let lower = map ascii_lower candidate
       in ends_with lower ''.ts'' \<or> ends_with lower ''.tsx'' \<or> ends_with lower ''.mts'' \<or> ends_with lower ''.cts'')
      \<and> is_existing_file h candidate)"

fun any_mapped_target :: "host \<Rightarrow> rstr \<Rightarrow> rstr list \<Rightarrow> bool option" where
  "any_mapped_target h base [] = Some False"
| "any_mapped_target h base (target # targets) =
     Option.bind (normalize_path_string (path_join base target)) (\<lambda>joined.
       if list_ex (loadable_mapped_target h) (mapped_target_candidates joined) then Some True
       else any_mapped_target h base targets)"

text \<open>The outer option is the panic of path normalisation.\<close>

definition resolved_by_path_mapping :: "host \<Rightarrow> rstr \<Rightarrow> resolver_options \<Rightarrow> bool option" where
  "resolved_by_path_mapping h spec opts =
     (if path_mappings opts = [] then Some False
      else case path_mapping_base opts of
             None \<Rightarrow> Some False
           | Some base \<Rightarrow>
               (case select_path_mapping_targets spec (path_mappings opts) of
                  None \<Rightarrow> Some False
                | Some targets \<Rightarrow> any_mapped_target h base targets))"

text \<open>The request \<open>queue_specifier\<close> queues, once the specifier is known not to be queued yet.\<close>

definition request_of :: "host \<Rightarrow> resolver_options \<Rightarrow> rstr \<Rightarrow> import_usage \<Rightarrow> rstr \<Rightarrow> rstr \<Rightarrow> bool \<Rightarrow> rstr \<Rightarrow> rstr option \<Rightarrow> package_request" where
  "request_of h opts spec usage dir file imports name sub =
     \<lparr>specifier = spec, package_name = name, subpath = sub, importer_dir = dir, importer_file = file,
      is_imports = imports, req_usage = usage,
      import_condition = resolves_with_import_condition (usage_resolution_mode h file usage opts) opts\<rparr>"

definition queued_request ::
    "host \<Rightarrow> resolver_options \<Rightarrow> rstr \<Rightarrow> import_usage \<Rightarrow> rstr \<Rightarrow> rstr \<Rightarrow> package_request option option" where
  "queued_request h opts spec usage dir file =
     (if starts_with spec ''#'' then
        (if length spec = 1 \<or> \<not> resolve_imports opts then Some None
         else Some (Some (request_of h opts spec usage dir file True spec None)))
      else if \<not> is_external_specifier spec then Some None
      else
        Option.bind (resolved_by_path_mapping h spec opts) (\<lambda>mapped.
          if mapped then Some None
          else Some (map_option (\<lambda>(name, sub). request_of h opts spec usage dir file False name sub) (parse_package_specifier spec))))"

end
