(* ===== verification/Package_Map_Laws.thy ===== *)
theory Package_Map_Laws
  imports Package_Maps
begin

text \<open>
  What the maps of a \<open>package.json\<close> select: the key or pattern that answers a subpath, the order and
  completeness of the targets collected under the active conditions, and their first target as a
  first-match resolution in which \<open>null\<close> blocks.
\<close>

section \<open>Subpath keys\<close>

lemma match_star_match:
  "(case single_star_parts pat of
      None \<Rightarrow> None
    | Some (before, after) \<Rightarrow> map_option (Pair before) (match_star key before after)) = star_match key pat"
  by (auto simp: star_match_def match_star_def split: option.split)

lemma best_subpath_round:
  "best_subpath key best (e # entries) =
     best_subpath key (scan_round fst (\<lambda>before e captured. (before, snd e, captured)) (\<lambda>(before, _, _). length before) key best e) entries"
proof -
  obtain pat entry where e: "e = (pat, entry)" by (cases e)
  show ?thesis unfolding e scan_round_def fst_conv match_star_match[symmetric]
    by (auto split: option.splits)
qed

interpretation subpath_table: star_table fst "\<lambda>before e captured. (before, snd e, captured)"
    "\<lambda>(before, _, _). length before" best_subpath
  by unfold_locales (simp_all only: prod.case best_subpath.simps(1) best_subpath_round)

lemma best_subpath_Some:
  "is_best key (map fst entries) i before captured \<Longrightarrow> best_subpath key None entries = Some (before, snd (entries ! i), captured)"
  by (subst subpath_table.scan_Some_iff) blast

lemma best_subpath_None:
  "(\<And>i before captured. i < length entries \<Longrightarrow> \<not> covers (fst (entries ! i)) key before captured) \<Longrightarrow> best_subpath key None entries = None"
  unfolding subpath_table.scan_None_iff is_best_def by auto

text \<open>
  The entry of an \<open>exports\<close> map that answers a subpath: an entry with exactly that key, whatever
  patterns cover it; otherwise the first of the covering patterns with the longest literal prefix,
  with the captured text in place of each star of its targets; and no target at all when no key
  answers, in which case the subpath is blocked.
\<close>

theorem select_export_targets_spec:
  assumes "is_subpath_map entries (CHR ''.'')"
  shows "(\<forall>entry. map_of entries key = Some entry \<longrightarrow>
            select_export_targets ts (JObject entries) key conditions = collect_targets ts conditions entry)
       \<and> (\<forall>i before captured. map_of entries key = None \<and> is_best key (map fst entries) i before captured \<longrightarrow>
            select_export_targets ts (JObject entries) key conditions =
              map (splice_star captured) (collect_targets ts conditions (snd (entries ! i))))
       \<and> (map_of entries key = None \<and> (\<nexists>i before captured. i < length entries \<and> covers (fst (entries ! i)) key before captured) \<longrightarrow>
            select_export_targets ts (JObject entries) key conditions = [])"
proof -
  have *: "select_export_targets ts (JObject entries) key conditions = select_all_from_subpath_map ts entries key conditions"
    using assms by (simp add: select_export_targets_def)
  show ?thesis unfolding * select_all_from_subpath_map_def
    using best_subpath_Some[of key entries] best_subpath_None[of entries key] by auto
qed

theorem select_export_targets_spec_witness:
  "select_export_targets (release 5 0 0)
     (JObject [(''./*'', JString ''./any/*.d.ts''), (''./features/*'', JString ''./f/*.d.ts''), (''./features/x'', JNull)])
     ''./features/a'' [''types''] = [''./f/a.d.ts'']"
proof -
  let ?entries = "[(''./*'', JString ''./any/*.d.ts''), (''./features/*'', JString ''./f/*.d.ts''), (''./features/x'', JNull)]"
  have sub: "is_subpath_map ?entries (CHR ''.'')" by code_simp
  have none: "map_of ?entries ''./features/a'' = None" by simp
  have cov: "covers ''./features/*'' ''./features/a'' ''./features/'' ''a''"
    "covers ''./*'' ''./features/a'' ''./'' ''features/a''" by (simp_all add: covers_def)
  have "dominated ''./features/a'' 1 ''./features/'' j (map fst ?entries ! j)" if "j < 3" for j
    using that dominated_covers[OF cov(1)] dominated_covers[OF cov(2)] dominated_free[of "''./features/x''"]
    by (auto simp: less_Suc_eq numeral_eq_Suc)
  then have best: "is_best ''./features/a'' (map fst ?entries) 1 ''./features/'' ''a''"
    using cov(1) unfolding is_best_def by simp
  have "select_export_targets (release 5 0 0) (JObject ?entries) ''./features/a'' [''types''] =
      map (splice_star ''a'') (collect_targets (release 5 0 0) [''types''] (snd (?entries ! 1)))"
    using select_export_targets_spec[OF sub] none best by blast
  then show ?thesis by (simp add: splice_star_def collect_targets_def)
qed

section \<open>Conditional targets\<close>

text \<open>The targets a value adds, and whether it lets the search go on, without the accumulator.\<close>

fun added :: "version \<Rightarrow> rstr list \<Rightarrow> json \<Rightarrow> bool \<times> rstr list"
and added_items :: "version \<Rightarrow> rstr list \<Rightarrow> json list \<Rightarrow> rstr list"
and added_entries :: "version \<Rightarrow> rstr list \<Rightarrow> (rstr \<times> json) list \<Rightarrow> bool \<times> rstr list" where
  "added ts conditions (JString s) = (True, [s])"
| "added ts conditions JNull = (False, [])"
| "added ts conditions (JArray items) = (True, added_items ts conditions items)"
| "added ts conditions (JObject entries) = added_entries ts conditions entries"
| "added ts conditions (JBool b) = (True, [])"
| "added ts conditions (JNumber n) = (True, [])"
| "added_items ts conditions [] = []"
| "added_items ts conditions (x # items) = snd (added ts conditions x) @ added_items ts conditions items"
| "added_entries ts conditions [] = (True, [])"
| "added_entries ts conditions ((condition, x) # entries) =
     (if condition_matches ts conditions condition then
        (if fst (added ts conditions x)
         then (fst (added_entries ts conditions entries), snd (added ts conditions x) @ snd (added_entries ts conditions entries))
         else added ts conditions x)
      else added_entries ts conditions entries)"

lemma collect_append:
  "collect_targets_into ts conditions x targets = (fst (added ts conditions x), targets @ snd (added ts conditions x))"
  "collect_items ts conditions items targets = targets @ added_items ts conditions items"
  "collect_entries ts conditions entries targets =
     (fst (added_entries ts conditions entries), targets @ snd (added_entries ts conditions entries))"
proof (induction ts conditions x targets and ts conditions items targets and ts conditions entries targets
    rule: collect_targets_into_collect_items_collect_entries.induct)
  case (10 ts conditions condition target entries targets)
  then show ?case
    by (cases "condition_matches ts conditions condition"; cases "fst (added ts conditions target)") simp_all
qed simp_all

lemma collect_targets_added: "collect_targets ts conditions x = snd (added ts conditions x)"
  by (simp add: collect_targets_def collect_append)

text \<open>
  Resolution by first match, the documented reading of a conditional target: a string is a target, \<open>null\<close>
  blocks, the first matching condition with an outcome decides for an object, and the first item with
  a target decides for an array, whose blocked items are skipped.
\<close>

datatype target_outcome = Unmatched | Blocked | Target rstr

fun first_match :: "version \<Rightarrow> rstr list \<Rightarrow> json \<Rightarrow> target_outcome"
and first_item :: "version \<Rightarrow> rstr list \<Rightarrow> json list \<Rightarrow> target_outcome"
and first_entry :: "version \<Rightarrow> rstr list \<Rightarrow> (rstr \<times> json) list \<Rightarrow> target_outcome" where
  "first_match ts conditions (JString s) = Target s"
| "first_match ts conditions JNull = Blocked"
| "first_match ts conditions (JArray items) = first_item ts conditions items"
| "first_match ts conditions (JObject entries) = first_entry ts conditions entries"
| "first_match ts conditions (JBool b) = Unmatched"
| "first_match ts conditions (JNumber n) = Unmatched"
| "first_item ts conditions [] = Unmatched"
| "first_item ts conditions (x # items) =
     (case first_match ts conditions x of Target t \<Rightarrow> Target t | _ \<Rightarrow> first_item ts conditions items)"
| "first_entry ts conditions [] = Unmatched"
| "first_entry ts conditions ((condition, x) # entries) =
     (if condition_matches ts conditions condition \<and> first_match ts conditions x \<noteq> Unmatched
      then first_match ts conditions x else first_entry ts conditions entries)"

definition outcome_of :: "bool \<times> rstr list \<Rightarrow> target_outcome" where
  "outcome_of found = (case snd found of t # _ \<Rightarrow> Target t | [] \<Rightarrow> if fst found then Unmatched else Blocked)"

lemma outcome_of_append:
  "outcome_of (b, ts @ us) = (case ts of t # _ \<Rightarrow> Target t | [] \<Rightarrow> outcome_of (b, us))"
  by (simp add: outcome_of_def split: list.split)

lemma first_match_added:
  "first_match ts conditions x = outcome_of (added ts conditions x)"
  "first_item ts conditions items = outcome_of (True, added_items ts conditions items)"
  "first_entry ts conditions entries = outcome_of (added_entries ts conditions entries)"
proof (induction ts conditions x and ts conditions items and ts conditions entries
    rule: first_match_first_item_first_entry.induct)
  case (8 ts conditions x items)
  then show ?case
    by (cases "snd (added ts conditions x)") (simp_all add: outcome_of_append, simp_all add: outcome_of_def)
next
  case (10 ts conditions condition x entries)
  obtain ok us where "added_entries ts conditions entries = (ok, us)" by (cases "added_entries ts conditions entries")
  then show ?case using 10
    by (cases "added ts conditions x"; cases "snd (added ts conditions x)")
      (auto simp: outcome_of_append, auto simp: outcome_of_def)
qed (simp_all add: outcome_of_def)

text \<open>
  C23. The target a package names for its root, in the sugared form without a subpath map: the first
  target collected is the one that resolution by first match finds, so that a matching condition
  without an outcome falls through, a matching \<open>null\<close> blocks what comes after it, and an array skips
  its blocked items.
\<close>

theorem export_target_first_match:
  assumes "\<not> is_subpath_map entries (CHR ''.'')"
  shows "select_export_target ts (JObject entries) ''.'' conditions =
     (case first_entry ts conditions entries of Target t \<Rightarrow> Some t | _ \<Rightarrow> None)"
proof -
  have "select_export_target ts (JObject entries) ''.'' conditions =
      (case snd (added_entries ts conditions entries) of [] \<Rightarrow> None | t # _ \<Rightarrow> Some t)"
    using assms by (simp add: select_export_target_def select_export_targets_def collect_targets_added)
  then show ?thesis unfolding first_match_added(3) outcome_of_def by (auto split: list.split)
qed

theorem export_target_first_match_witness:
  "select_export_target (release 5 0 0)
     (JObject [(''import'', JObject [(''types@<4'', JString ''old.d.ts'')]), (''types'', JArray [JNull, JString ''new.d.ts'']), (''default'', JNull)])
     ''.'' [''import'', ''types''] = Some ''new.d.ts''"
  using export_target_first_match
    [of "[(''import'', JObject [(''types@<4'', JString ''old.d.ts'')]), (''types'', JArray [JNull, JString ''new.d.ts'']), (''default'', JNull)]"
      "release 5 0 0" "[''import'', ''types'']"]
  by code_simp

text \<open>
  The targets that conditions reach without blocks: strings under matching conditions, at any depth.
\<close>

inductive reaches :: "version \<Rightarrow> rstr list \<Rightarrow> json \<Rightarrow> json \<Rightarrow> bool" for ts conditions where
  reaches_here: "reaches ts conditions x x"
| reaches_item: "x \<in> set items \<Longrightarrow> reaches ts conditions x y \<Longrightarrow> reaches ts conditions (JArray items) y"
| reaches_entry: "(condition, x) \<in> set entries \<Longrightarrow> condition_matches ts conditions condition \<Longrightarrow>
    reaches ts conditions x y \<Longrightarrow> reaches ts conditions (JObject entries) y"

inductive_cases reaches_ArrayE: "reaches ts conditions (JArray items) y"
inductive_cases reaches_ObjectE: "reaches ts conditions (JObject entries) y"

lemma added_unblocked:
  assumes "\<not> reaches ts conditions x JNull"
  shows "fst (added ts conditions x)"
  using assms
proof (induction x)
  case (JObject entries)
  have "\<forall>(c, y) \<in> set es. condition_matches ts conditions c \<longrightarrow> fst (added ts conditions y) \<Longrightarrow>
      fst (added_entries ts conditions es)" for es
    by (induction es) auto
  moreover have "fst (added ts conditions y)" if "(c, y) \<in> set entries" "condition_matches ts conditions c" for c y
    using JObject that reaches_entry by fastforce
  ultimately show ?case by auto
qed (auto intro: reaches_here)

lemma added_items_set: "set (added_items ts conditions items) = (\<Union>x \<in> set items. set (snd (added ts conditions x)))"
  by (induction items) auto

lemma added_entries_subset:
  "t \<in> set (snd (added_entries ts conditions entries)) \<Longrightarrow>
     \<exists>c x. (c, x) \<in> set entries \<and> condition_matches ts conditions c \<and> t \<in> set (snd (added ts conditions x))"
proof (induction entries)
  case (Cons e entries)
  then show ?case by (cases e) (auto split: if_splits)
qed simp

lemma added_entries_all:
  "(\<And>c x. (c, x) \<in> set entries \<Longrightarrow> condition_matches ts conditions c \<Longrightarrow> fst (added ts conditions x)) \<Longrightarrow>
   (c, x) \<in> set entries \<Longrightarrow> condition_matches ts conditions c \<Longrightarrow>
   set (snd (added ts conditions x)) \<subseteq> set (snd (added_entries ts conditions entries))"
proof (induction entries)
  case (Cons e entries)
  obtain d y where e: "e = (d, y)" by (cases e)
  have IH: "set (snd (added ts conditions x)) \<subseteq> set (snd (added_entries ts conditions entries))" if "(c, x) \<in> set entries"
    by (rule Cons.IH[OF _ that Cons.prems(3)]) (use Cons.prems(1) in auto)
  have ok: "fst (added ts conditions y)" if "condition_matches ts conditions d" using Cons.prems(1)[of d y] that e by simp
  show ?case
  proof (cases "e = (c, x)")
    case True
    then show ?thesis using ok e Cons.prems(3) by auto
  next
    case False
    then have "(c, x) \<in> set entries" using Cons.prems(2) by simp
    then show ?thesis using IH ok e by auto
  qed
qed simp

lemma added_reached: "t \<in> set (snd (added ts conditions x)) \<Longrightarrow> reaches ts conditions x (JString t)"
proof (induction x)
  case (JArray items)
  then show ?case by (auto simp: added_items_set intro: reaches_item)
next
  case (JObject entries)
  then obtain c y where "(c, y) \<in> set entries" "condition_matches ts conditions c" "t \<in> set (snd (added ts conditions y))"
    using added_entries_subset[of t ts conditions entries] by auto
  then show ?case using JObject.IH by (fastforce intro: reaches_entry)
qed (auto intro: reaches_here)

lemma reached_added:
  "reaches ts conditions x y \<Longrightarrow> y = JString t \<Longrightarrow> \<not> reaches ts conditions x JNull \<Longrightarrow> t \<in> set (snd (added ts conditions x))"
proof (induction rule: reaches.induct)
  case (reaches_item x items y)
  then have "\<not> reaches ts conditions x JNull" using reaches.reaches_item by blast
  then show ?case using reaches_item by (auto simp: added_items_set)
next
  case (reaches_entry condition x entries y)
  have "fst (added ts conditions z)" if "(c, z) \<in> set entries" "condition_matches ts conditions c" for c z
    using reaches_entry.prems(2) that reaches.reaches_entry added_unblocked by blast
  moreover have "t \<in> set (snd (added ts conditions x))"
    using reaches_entry reaches.reaches_entry by blast
  ultimately show ?case using added_entries_all reaches_entry.hyps(1,2) by fastforce
qed auto

text \<open>
  Every target collected stands under matching conditions, and when no \<open>null\<close> stands under matching
  conditions, every string that does is collected, so that a caller who probes the targets in turn
  misses none of the fallbacks a package offers.
\<close>

theorem collect_targets_reachable:
  "set (collect_targets ts conditions x) \<subseteq> {t. reaches ts conditions x (JString t)}
   \<and> (\<not> reaches ts conditions x JNull \<longrightarrow> set (collect_targets ts conditions x) = {t. reaches ts conditions x (JString t)})"
  using added_reached reached_added unfolding collect_targets_added by blast

theorem collect_targets_reachable_witness:
  "set (collect_targets (release 5 0 0) [''types''] (JObject [(''types'', JString ''a.d.ts''), (''node'', JNull), (''default'', JString ''b.js'')]))
     = {t. reaches (release 5 0 0) [''types'']
              (JObject [(''types'', JString ''a.d.ts''), (''node'', JNull), (''default'', JString ''b.js'')]) (JString t)}"
proof -
  have "\<not> condition_matches (release 5 0 0) [''types''] ''node''" by code_simp
  then have "\<not> reaches (release 5 0 0) [''types'']
      (JObject [(''types'', JString ''a.d.ts''), (''node'', JNull), (''default'', JString ''b.js'')]) JNull"
    by (auto elim!: reaches_ObjectE elim: reaches.cases)
  then show ?thesis using collect_targets_reachable by blast
qed

section \<open>\<open>typesVersions\<close>\<close>

text \<open>The entry of \<open>typesVersions\<close> that applies: the first whose key is a range that accepts the version.\<close>

lemma version_paths_find:
  "version_paths ts entries subpath =
     (case find (\<lambda>(key, _). case parse_range key of Some r \<Rightarrow> range_test r ts | None \<Rightarrow> False) entries of
        Some (_, JObject paths) \<Rightarrow> match_types_versions_paths paths subpath
      | _ \<Rightarrow> [])"
  by (induction ts entries subpath rule: version_paths.induct) (auto split: option.split json.split)

end
