(* ===== verification/Package_Laws.thy ===== *)
theory Package_Laws
  imports Package_Entrypoints Package_Map_Laws
begin

text \<open>
  Laws of package resolution: the manifest cache is transparent, declarations are preferred, \<open>exports\<close> is
  authoritative, resolution of aliases returns when the aliases are not circular and never returns
  on a circular one, and targets stay inside their package unless they are absolute or empty.
\<close>

section \<open>The manifest cache\<close>

interpretation manifests: memo_table "\<lambda>path. Some (parsed_json h path)" "\<lambda>path cache. Some (read_package_json h path cache)"
  by unfold_locales (simp_all add: read_package_json_def Let_def)

lemma read_package_json_transparent: "manifests.sound h cache \<Longrightarrow> fst (read_package_json h path cache) = parsed_json h path"
  using manifests.transparent[of h cache path] by simp

section \<open>Declarations first\<close>

lemma prefer_declaration_find:
  "prefer_declaration fallback rs =
     (case find is_declaration rs of
        Some r \<Rightarrow> r
      | None \<Rightarrow> if fallback \<noteq> None then fallback
                else case find (\<lambda>r. r \<noteq> None) rs of Some r \<Rightarrow> r | None \<Rightarrow> None)"
  by (induction fallback rs rule: prefer_declaration.induct) (auto simp: is_declaration_def split: option.split)

text \<open>
  C24. In a package directory whose manifest has an \<open>exports\<close> field that is honoured, that field decides
  alone: the answer is the first of its targets that provides declarations, else the first that
  names a runtime file, and no other file of the directory is tried.
\<close>

theorem exports_authoritative:
  assumes "resolve_exports opts" "manifest h (package_json_path pkg_dir) = Some json" "json_get ''exports'' json = Some exports"
  shows "resolve_package_entrypoint_in_directory ts h req pkg_dir opts importer_is_esm =
     (let rs = map (resolve_target_in_package h pkg_dir)
                 (select_export_targets ts exports (subpath_key req) (active_conditions opts importer_is_esm))
      in case find is_declaration rs of
           Some r \<Rightarrow> r
         | None \<Rightarrow> (case find (\<lambda>r. r \<noteq> None) rs of Some r \<Rightarrow> r | None \<Rightarrow> None))"
proof -
  have "resolve_nested_package_subpath h req pkg_dir opts = None"
    using assms by (cases "subpath req") (simp_all add: resolve_nested_package_subpath_def Let_def)
  then show ?thesis using assms
    by (simp add: resolve_package_entrypoint_in_directory_def is_declaration_def Let_def
        resolve_first_target_in_package_def prefer_declaration_find)
qed

text \<open>A package that ships a declaration for its root and a runtime file for a subpath.\<close>

definition demo_manifest :: json where
  "demo_manifest = JObject
     [(''exports'', JObject [(''.'', JObject [(''import'', JString ''./i.mjs''), (''types'', JString ''./t.d.ts'')])]),
      (''imports'', JObject [(''#a'', JString ''#a''), (''#b'', JString ''#c''), (''#c'', JString ''./t.d.ts'')])]"

definition demo_host :: host where
  "demo_host =
     \<lparr>is_existing_file = (\<lambda>p. p \<in> {''/n/p/package.json'', ''/n/p/i.mjs'', ''/n/p/t.d.ts'', ''/n/p/index.d.ts'', ''/etc/x.d.ts'', ''/n/p.d.ts''}),
      parsed_json = (\<lambda>p. if p = ''/n/p/package.json'' then Some demo_manifest else None)\<rparr>"

definition demo_request :: "rstr \<Rightarrow> bool \<Rightarrow> package_request" where
  "demo_request spec imps =
     \<lparr>specifier = spec, package_name = spec, subpath = None, importer_dir = ''/n/p'', importer_file = ''/n/p/m.ts'',
      is_imports = imps, req_usage = DeclarationUse, import_condition = True\<rparr>"

theorem exports_authoritative_witness:
  "resolve_package_entrypoint_in_directory (release 5 0 0) demo_host (demo_request ''p'' False) ''/n/p'' default_resolver_options True
     = Some \<lparr>entry_path = ''/n/p/t.d.ts'', entry_kind = Declaration\<rparr>"
proof -
  obtain exports where e: "json_get ''exports'' demo_manifest = Some exports"
    "exports = JObject [(''.'', JObject [(''import'', JString ''./i.mjs''), (''types'', JString ''./t.d.ts'')])]"
    by (simp add: demo_manifest_def)
  have "manifest demo_host (package_json_path ''/n/p'') = Some demo_manifest" by code_simp
  from exports_authoritative[OF _ this e(1)] show ?thesis unfolding e(2)
    by (simp add: default_resolver_options_def) code_simp
qed

section \<open>Aliases\<close>

lemma ancestors_self: "\<exists>dirs. ancestors dir = dir # dirs"
  by (subst ancestors.simps) simp

lemma nearest_manifest:
  "nearest_package_json_in h dirs = Some (pkg_dir, json) \<Longrightarrow> manifest h (package_json_path pkg_dir) = Some json"
  by (induction dirs) (auto split: option.splits)

text \<open>Resolution of an alias from its package finds the same manifest again.\<close>

lemma nearest_again:
  assumes "nearest_package_json h dir = Some (pkg_dir, json)"
  shows "nearest_package_json h pkg_dir = Some (pkg_dir, json)"
  using nearest_manifest[of h "ancestors dir" pkg_dir json] assms ancestors_self[of pkg_dir]
  by (auto simp: nearest_package_json_def)

lemma alias_target_request:
  assumes "starts_with target ''#''"
  obtains req' where "imports_module_target req target pkg_dir = Some req'" "specifier req' = target" "is_imports req'"
    "importer_dir req' = pkg_dir"
proof -
  have "\<not> starts_with target ''../''" "\<not> is_absolute_path target"
    using assms by (cases target; simp add: is_absolute_path_def)+
  then show ?thesis using that assms by (simp add: imports_module_target_def)
qed

lemma module_target_alias:
  "imports_module_target req target pkg_dir = Some req' \<Longrightarrow>
     specifier req' = target \<and> importer_dir req' = pkg_dir \<and> is_imports req' = starts_with target ''#''"
  by (auto simp: imports_module_target_def split: if_splits)

lemma first_target_stuck:
  assumes "starts_with target ''#''" "imports_module_target req target pkg_dir = Some req'" "resolve req' = None"
  shows "try_import_targets resolve h req pkg_dir fallback (target # targets) = None"
  using assms by (cases target) simp_all

text \<open>
  C25. Circular aliases: if the first target of each alias of a set is again an alias of the set, the
  resolution of an alias of the set never returns, whatever bound is put on the nesting of calls. The
  smallest example is an \<open>imports\<close> map with \<open>"#a": "#a"\<close>.
\<close>

theorem alias_cycle_never_returns:
  assumes "resolve_imports opts" "nearest_package_json h (importer_dir req) = Some (pkg_dir, json)"
    "json_get ''imports'' json = Some imps" "is_imports req" "specifier req \<in> aliases"
    and closed: "\<forall>s \<in> aliases. \<exists>t \<in> aliases. starts_with t ''#''
      \<and> (\<exists>rest. select_import_targets ts imps s (active_conditions opts importer_is_esm) = t # rest)"
  shows "resolve_package_entrypoint n ts h opts root_dir importer_is_esm req = None"
  using assms(2,4,5)
proof (induction n arbitrary: req)
  case (Suc n)
  obtain t rest where t: "t \<in> aliases" "starts_with t ''#''"
    "select_import_targets ts imps (specifier req) (active_conditions opts importer_is_esm) = t # rest"
    using closed Suc.prems(3) by blast
  obtain req' where req': "imports_module_target req t pkg_dir = Some req'" "specifier req' = t" "is_imports req'"
    "importer_dir req' = pkg_dir" using alias_target_request[OF t(2)] .
  have "nearest_package_json h (importer_dir req') = Some (pkg_dir, json)"
    using nearest_again[OF Suc.prems(1)] req'(4) by simp
  then have "resolve_package_entrypoint n ts h opts root_dir importer_is_esm req' = None"
    using Suc.IH[of req'] req' t(1) by simp
  from first_target_stuck[of t req pkg_dir req' "resolve_package_entrypoint n ts h opts root_dir importer_is_esm", OF t(2) req'(1) this] show ?case
    using Suc.prems assms(1,3) t(3) by (simp add: resolve_imports_entrypoint_def del: try_import_targets.simps)
qed simp

theorem alias_cycle_never_returns_witness:
  "resolve_package_entrypoint 1000 (release 5 0 0) demo_host default_resolver_options ''/'' True (demo_request ''#a'' True) = None"
proof -
  obtain imps where i: "json_get ''imports'' demo_manifest = Some imps"
    "imps = JObject [(''#a'', JString ''#a''), (''#b'', JString ''#c''), (''#c'', JString ''./t.d.ts'')]"
    by (simp add: demo_manifest_def)
  have near: "nearest_package_json demo_host (importer_dir (demo_request ''#a'' True)) = Some (''/n/p'', demo_manifest)"
    by code_simp
  have "select_import_targets (release 5 0 0) imps ''#a'' (active_conditions default_resolver_options True) = [''#a'']"
    unfolding i(2) by code_simp
  then have "\<forall>s \<in> {''#a''}. \<exists>t \<in> {''#a''}. starts_with t ''#''
      \<and> (\<exists>rest. select_import_targets (release 5 0 0) imps s (active_conditions default_resolver_options True) = t # rest)" by simp
  from alias_cycle_never_returns[OF _ near i(1) _ _ this] show ?thesis
    by (simp add: default_resolver_options_def demo_request_def)
qed

lemma targets_return:
  assumes "\<And>target req'. target \<in> set targets \<Longrightarrow> imports_module_target req target pkg_dir = Some req' \<Longrightarrow> \<exists>r. resolve req' = Some r"
  shows "\<exists>r. try_import_targets resolve h req pkg_dir fallback targets = Some r"
  using assms
proof (induction targets arbitrary: fallback)
  case (Cons target targets)
  have IH: "\<exists>r. try_import_targets resolve h req pkg_dir fb targets = Some r" for fb
    by (rule Cons.IH) (use Cons.prems in auto)
  have "\<exists>r. (if starts_with target ''./'' then Some (resolve_target_in_package h pkg_dir target)
      else case imports_module_target req target pkg_dir of Some m \<Rightarrow> resolve m | None \<Rightarrow> Some None) = Some r"
    using Cons.prems[of target] by (cases "imports_module_target req target pkg_dir") auto
  then show ?case using IH by auto
qed simp

text \<open>
  C26. Resolution of a package request returns: a bare specifier needs no nested call, and an alias of a
  package none of whose aliases is circular, which a rank on the aliases that each nested alias
  lowers shows, needs at most one call more than its rank.
\<close>

theorem package_resolution_returns:
  assumes rank: "\<And>pkg_dir json imps s t. nearest_package_json h (importer_dir req) = Some (pkg_dir, json) \<Longrightarrow>
      json_get ''imports'' json = Some imps \<Longrightarrow>
      t \<in> set (select_import_targets ts imps s (active_conditions opts importer_is_esm)) \<Longrightarrow> starts_with t ''#'' \<Longrightarrow>
      rank t < rank s"
  shows "\<exists>r. resolve_package_entrypoint (rank (specifier req) + 2) ts h opts root_dir importer_is_esm req = Some r"
proof (cases "nearest_package_json h (importer_dir req)")
  case None
  then show ?thesis by (simp add: resolve_imports_entrypoint_def)
next
  case (Some x)
  obtain pkg_dir json where x: "x = (pkg_dir, json)" by (cases x)
  have "\<exists>r. resolve_package_entrypoint n ts h opts root_dir importer_is_esm req' = Some r"
    if "nearest_package_json h (importer_dir req') = Some (pkg_dir, json)" "rank (specifier req') + 2 \<le> n" for n req'
    using that
  proof (induction n arbitrary: req')
    case (Suc n)
    have nested: "\<exists>r. resolve_package_entrypoint n ts h opts root_dir importer_is_esm m = Some r"
      if "json_get ''imports'' json = Some imps" "imports_module_target req' target pkg_dir = Some m"
        "target \<in> set (select_import_targets ts imps (specifier req') (active_conditions opts importer_is_esm))" for imps target m
    proof (cases "is_imports m")
      case True
      then have "rank (specifier m) < rank (specifier req')"
        using rank[OF Some[unfolded x] that(1,3)] module_target_alias[OF that(2)] by simp
      then show ?thesis using Suc.IH[of m] Suc.prems nearest_again[OF Suc.prems(1)] module_target_alias[OF that(2)] by simp
    next
      case False
      then show ?thesis using Suc.prems(2) by (cases n) simp_all
    qed
    then show ?case using Suc.prems(1) targets_return[of _ req' pkg_dir]
      by (auto simp: resolve_imports_entrypoint_def split: option.split)
  qed simp
  then show ?thesis using Some x by blast
qed

theorem package_resolution_returns_witness:
  "\<exists>r. resolve_package_entrypoint 3 (release 5 0 0) (demo_host\<lparr>parsed_json := (\<lambda>p.
         if p = ''/n/p/package.json'' then Some (JObject [(''imports'', JObject [(''#b'', JString ''#c''), (''#c'', JString ''./t.d.ts'')])]) else None)\<rparr>)
       default_resolver_options ''/'' True (demo_request ''#b'' True) = Some r"
proof -
  let ?json = "JObject [(''imports'', JObject [(''#b'', JString ''#c''), (''#c'', JString ''./t.d.ts'')])]"
  let ?h = "demo_host\<lparr>parsed_json := (\<lambda>p. if p = ''/n/p/package.json'' then Some ?json else None)\<rparr>"
  let ?conditions = "active_conditions default_resolver_options True"
  define rank where "rank s = (if s = ''#b'' then 1 else 0 :: nat)" for s
  have near: "nearest_package_json ?h (importer_dir (demo_request ''#b'' True)) = Some (''/n/p'', ?json)" by code_simp
  have "rank t < rank s" if
    "nearest_package_json ?h (importer_dir (demo_request ''#b'' True)) = Some (pkg_dir, json)"
    "json_get ''imports'' json = Some imps"
    "t \<in> set (select_import_targets (release 5 0 0) imps s ?conditions)" "starts_with t ''#''" for pkg_dir json imps s t
  proof -
    have imps: "imps = JObject [(''#b'', JString ''#c''), (''#c'', JString ''./t.d.ts'')]" using that(1,2) near by auto
    have none: "best_subpath s None [(''#b'', JString ''#c''), (''#c'', JString ''./t.d.ts'')] = None"
      by (simp add: single_star_parts_def)
    show ?thesis
      using that(3,4) unfolding imps by (auto simp: select_import_targets_def is_subpath_map_def
          select_all_from_subpath_map_def none collect_targets_def rank_def split: if_splits simp del: best_subpath.simps)
  qed
  from package_resolution_returns[of ?h "demo_request ''#b'' True" "release 5 0 0" default_resolver_options True rank, OF this]
  show ?thesis by (simp add: rank_def demo_request_def numeral_3_eq_3)
qed

end
