(* ===== verification/Package_Containment.thy ===== *)
theory Package_Containment
  imports Package_Laws
begin

text \<open>
  Where the targets of a package lead: a target that is a relative path to a name stays inside the
  directory of the package, and the two kinds of target that leave it.
\<close>

section \<open>Segments of a joined path\<close>

lemma segments_append_slash: "segments (a @ CHR ''/'' # b) = segments a @ segments b"
proof -
  have "segments a = butlast (segments a) @ [last (segments a)]" by simp
  then show ?thesis by (simp add: segments_def split_on_append_sep)
qed

lemma leads_to_trivial: "List.map_filter body_component segs = [] \<Longrightarrow> leads_to dir segs = dir"
  by (induction segs) (auto simp: List.map_filter_simps enter_segment_def split: option.splits)

lemma segments_path_join:
  assumes "base \<noteq> []" "\<not> is_absolute_path rel"
  obtains front where "segments (path_join base rel) = front @ segments rel" "front \<noteq> []" "hd front = hd (segments base)"
    "\<And>dir. leads_to dir front = leads_to dir (segments base)"
    "List.map_filter body_component front = List.map_filter body_component (segments base)"
proof (cases "ends_with base ''/''")
  case True
  then obtain b where b: "base = b @ ''/''" by (auto simp: ends_with_append)
  have segs: "segments base = segments b @ [[]]" unfolding b using segments_append_slash[of b "[]"] by (simp add: segments_def)
  show ?thesis
  proof (rule that[of "segments b"])
    show "segments (path_join base rel) = segments b @ segments rel"
      using assms b segments_append_slash[of b rel] by (simp add: path_join_def ends_with_append)
  qed (simp_all add: segs enter_segment_def List.map_filter_simps body_component_def)
next
  case False
  then show ?thesis using that[of "segments base"] assms segments_append_slash[of base rel] by (simp add: path_join_def)
qed

lemma absolute_join: "base \<noteq> [] \<Longrightarrow> \<not> is_absolute_path rel \<Longrightarrow> is_absolute_path (path_join base rel) = is_absolute_path base"
  by (cases base) (auto simp: path_join_def is_absolute_path_def)

lemma components_join:
  assumes "base \<noteq> []" "\<not> is_absolute_path rel"
  shows "components (path_join base rel) = components base @ List.map_filter body_component (segments rel)"
proof -
  obtain front where "segments (path_join base rel) = front @ segments rel" "front \<noteq> []" "hd front = hd (segments base)"
    "List.map_filter body_component front = List.map_filter body_component (segments base)"
    using segments_path_join[OF assms] .
  then show ?thesis using absolute_join[OF assms] by (simp add: components_def leading_component_def)
qed

lemma file_name_join:
  assumes "base \<noteq> []" "\<not> is_absolute_path rel" "path_file_name rel = Some name"
  shows "path_file_name (path_join base rel) = Some name"
proof -
  obtain front where front: "segments (path_join base rel) = front @ segments rel" using segments_path_join[OF assms(1,2)] .
  have ne: "drop_trailing (segments rel) \<noteq> []"
    using assms(3) by (auto simp: path_file_name_def split_last_def Let_def body_component_def split: if_splits)
  have "drop_trailing (front @ segments rel) = front @ drop_trailing (segments rel)"
    using ne unfolding drop_trailing_def by (auto simp: dropWhile_append)
  then show ?thesis using assms(3) ne front by (simp add: path_file_name_def split_last_def Let_def)
qed

section \<open>Names beside a path\<close>

text \<open>A path to a name, and what stands beside it.\<close>

lemma leads_to_file_name:
  assumes "segments path = front @ name # rest" "List.map_filter body_component rest = []" "body_component name = Some (Normal name)"
  shows "leads_to dir (segments path) = name # leads_to dir front"
  using assms leads_to_trivial[of rest] by (simp add: enter_segment_def)

lemma leads_to_drop_trailing: "leads_to dir (drop_trailing segs) = leads_to dir segs"
proof -
  obtain rest where "segs = drop_trailing segs @ rest" "List.map_filter body_component rest = []" by (rule drop_trailing_split)
  then show ?thesis by (metis leads_to_simps(3) leads_to_trivial)
qed

lemma sibling_leads_to:
  assumes "path_file_name path = Some name" "body_component name' = Some (Normal name')" "CHR ''/'' \<notin> set name'"
  shows "leads_to dir (segments (replace_last path (\<lambda>_. name'))) = name' # tl (leads_to dir (segments path))"
    and "leads_to dir (segments path) \<noteq> []"
proof -
  obtain front rest where *: "split_last path = Some (front, name)" "segments path = front @ name # rest"
    "List.map_filter body_component rest = []" "body_component name = Some (Normal name)"
    using split_last_Normal[OF assms(1)] .
  have "segments (join_with ''/'' (front @ [name'])) = front @ [name']"
    using segments_free[of _ path] *(2) assms(3) by (intro segments_join) auto
  then show "leads_to dir (segments (replace_last path (\<lambda>_. name'))) = name' # tl (leads_to dir (segments path))"
    "leads_to dir (segments path) \<noteq> []"
    using leads_to_file_name[OF *(2,3,4)] assms(2) *(1) by (simp_all add: replace_last_def enter_segment_def)
qed

lemma parent_leads_to:
  assumes "path_parent path = Some parent" "split_last path = Some (front, name)"
    "body_component name' = Some (Normal name')" "CHR ''/'' \<notin> set name'"
    and free: "\<forall>s \<in> set front. CHR ''/'' \<notin> set s"
  shows "leads_to dir (segments (path_join parent name')) = name' # leads_to dir front"
proof -
  have rel: "\<not> is_absolute_path name'" using assms(3,4) by (cases name') (auto simp: is_absolute_path_def)
  have name: "segments name' = [name']" using assms(4) by (simp add: segments_def)
  show ?thesis
  proof (cases "drop_trailing front = []")
    case True
    then have "leads_to dir front = dir" using leads_to_drop_trailing[of dir front] by simp
    moreover have "parent \<in> {''/'', ''.'', []}" using True assms(1,2) by (auto simp: path_parent_def Let_def split: if_splits)
    moreover have "segments (path_join parent name') \<in> {[[], name'], [''.'', name'], [name']}"
      using calculation(2) rel name segments_append_slash[of "[]" name'] segments_append_slash[of "''.''" name']
      by (auto simp: path_join_def ends_with_def segments_def)
    ultimately show ?thesis using assms(3) by (auto simp: enter_segment_def)
  next
    case False
    then have p: "parent = join_with ''/'' (drop_trailing front)" using assms(1,2) by (simp add: path_parent_def Let_def)
    have segs: "segments parent = drop_trailing front"
      unfolding p using False free drop_trailing_subset by (intro segments_join) blast+
    have "parent \<noteq> []"
    proof
      assume "parent = []"
      then have "drop_trailing front = [[]]" using segs by (simp add: segments_def)
      then show False using drop_trailing_last[OF False] by simp
    qed
    then obtain f where "segments (path_join parent name') = f @ segments name'" "leads_to dir f = leads_to dir (segments parent)"
      using segments_path_join[OF _ rel] by metis
    then show ?thesis using assms(3) segs name leads_to_drop_trailing by (simp add: enter_segment_def)
  qed
qed

lemma with_file_name_leads_to:
  assumes "path_file_name path = Some name" "CHR ''/'' \<notin> set stem"
    "body_component (stem @ ''.'' @ ext) = Some (Normal (stem @ ''.'' @ ext))" "CHR ''/'' \<notin> set ext"
  shows "leads_to dir (segments (append_extension (with_file_name path stem) ext)) = (stem @ ''.'' @ ext) # tl (leads_to dir (segments path))"
proof -
  obtain front rest where *: "split_last path = Some (front, name)" "segments path = front @ name # rest"
    "List.map_filter body_component rest = []" "body_component name = Some (Normal name)"
    using split_last_Normal[OF assms(1)] .
  obtain parent where parent: "path_parent path = Some parent" using *(1) by (simp add: path_parent_def)
  have "append_extension (with_file_name path stem) ext = path_join parent (stem @ ''.'' @ ext)"
    using assms(1,2) parent by (cases stem) (auto simp: append_extension_def with_file_name_def path_join_def is_absolute_path_def)
  moreover have "\<forall>s \<in> set front. CHR ''/'' \<notin> set s" using segments_free[of _ path] *(2) by simp
  ultimately show ?thesis
    using parent_leads_to[OF parent *(1) assms(3)] assms(2,4) leads_to_file_name[OF *(2,3,4)] by simp
qed

text \<open>The file a candidate search returns stands beside the path it was given.\<close>

definition beside :: "rstr \<Rightarrow> rstr \<Rightarrow> bool" where
  "beside path candidate \<longleftrightarrow>
     (\<forall>dir. \<exists>name. leads_to dir (segments candidate) = name # tl (leads_to dir (segments path)))"

lemma beside_self: "path_file_name path = Some name \<Longrightarrow> beside path path"
  unfolding beside_def using leads_to_file_name by (metis split_last_Normal list.sel(3))

lemma beside_with_extension:
  assumes "path_file_name path = Some name" "CHR ''/'' \<notin> set ext" "ext \<noteq> []"
  shows "beside path (with_extension path ext)"
proof -
  obtain front rest where *: "split_last path = Some (front, name)" "segments path = front @ name # rest"
    "body_component name = Some (Normal name)" using split_last_Normal[OF assms(1)] .
  have "CHR ''/'' \<notin> set (fst (rsplit_dot name))" "fst (rsplit_dot name) \<noteq> []"
    using rsplit_dot_stem[of name] segments_free[of name path] *(2,3) by auto
  then have new: "body_component (fst (rsplit_dot name) @ ''.'' @ ext) = Some (Normal (fst (rsplit_dot name) @ ''.'' @ ext))"
    "CHR ''/'' \<notin> set (fst (rsplit_dot name) @ ''.'' @ ext)"
    using assms(2,3) by (auto simp: append_eq_Cons_conv)
  have "with_extension path ext = replace_last path (\<lambda>_. fst (rsplit_dot name) @ ''.'' @ ext)"
    using assms(1) *(1) by (simp add: with_extension_def replace_last_def)
  then show ?thesis using sibling_leads_to(1)[OF assms(1) new] unfolding beside_def by auto
qed

lemma beside_substitute:
  assumes "path_file_name path = Some name" "strip_trailing_extension path old = Some base" "CHR ''/'' \<notin> set ext" "length ext > 1"
  shows "beside path (append_extension base ext)"
proof -
  obtain front rest where *: "segments path = front @ name # rest" using split_last_Normal[OF assms(1)] .
  let ?stem = "take (length name - length old) name"
  have base: "base = with_file_name path ?stem" using assms(1,2) by (simp add: strip_trailing_extension_def)
  have "CHR ''/'' \<notin> set ?stem" using segments_free[of name path] *(1) by (auto dest: in_set_takeD)
  moreover have "body_component (?stem @ ''.'' @ ext) = Some (Normal (?stem @ ''.'' @ ext))"
    using assms(4) by (auto simp: append_eq_Cons_conv)
  ultimately show ?thesis using with_file_name_leads_to[OF assms(1) _ _ assms(3)] unfolding beside_def base by auto
qed

lemma candidates_beside:
  assumes "path_file_name path = Some name" "candidate \<in> set (declaration_candidates path) \<union> set (runtime_javascript_candidates path)"
  shows "beside path candidate"
  using assms beside_self[OF assms(1)] beside_with_extension[OF assms(1)] beside_substitute[OF assms(1)]
  by (auto simp: declaration_candidates_def runtime_javascript_candidates_def runtime_substitutes_def
      split: if_splits option.splits)

lemma resolution_beside:
  assumes "path_file_name path = Some name" "resolve_declaration_or_runtime_candidate h path = Some r"
  shows "beside path (entry_path r)"
proof -
  have "entry_path r = path \<or> entry_path r \<in> set (declaration_candidates path) \<union> set (runtime_javascript_candidates path)"
    using assms(2) by (auto simp: resolve_declaration_or_runtime_candidate_def resolve_declaration_candidate_def
        resolve_runtime_only_candidate_def find_Some_iff split: option.splits if_splits)
  then show ?thesis using beside_self[OF assms(1)] candidates_beside[OF assms(1)] by metis
qed

section \<open>Containment\<close>

lemma stays_within_extends:
  "stays_within depth (List.map_filter body_component segs) \<Longrightarrow> depth = int (length extra) \<Longrightarrow>
     \<exists>extra'. leads_to (extra @ dir) segs = extra' @ dir"
proof (induction segs arbitrary: depth extra)
  case (Cons s segs)
  consider "s = [] \<or> s = ''.''" | "s = ''..''" | "body_component s = Some (Normal s)" by fastforce
  then show ?case
  proof cases
    case 1
    then show ?thesis using Cons by (auto simp: List.map_filter_simps body_component_def enter_segment_def)
  next
    case 2
    then obtain x extra0 where x: "extra = x # extra0" using Cons.prems
      by (cases extra) (auto simp: List.map_filter_simps body_component_def)
    then show ?thesis using Cons.prems Cons.IH[of "int (length extra0)" extra0] 2
      by (auto simp: List.map_filter_simps body_component_def enter_segment_def split: if_splits)
  next
    case 3
    then show ?thesis using Cons.prems Cons.IH[of "int (length (s # extra))" "s # extra"]
      by (auto simp: List.map_filter_simps body_component_def enter_segment_def algebra_simps split: if_splits)
  qed
qed simp

lemma stays_within_prefix: "stays_within depth (cs @ ds) \<Longrightarrow> stays_within depth cs"
  by (induction depth cs rule: stays_within.induct) (auto split: if_splits)

text \<open>
  C27. Targets stay in their package: when a target, without the leading \<open>./\<close>, is a relative path that ends
  in a name, the file it resolves to lies strictly inside the directory of the package, whatever
  parent steps it takes and from wherever the paths are read.
\<close>

theorem target_stays_in_package:
  assumes "pkg_dir \<noteq> []" "\<not> is_absolute_path (trim_dot_slash target)" "path_file_name (trim_dot_slash target) = Some name"
    "resolve_target_in_package h pkg_dir target = Some r"
  shows "\<exists>extra. extra \<noteq> [] \<and> leads_to dir (segments (entry_path r)) = extra @ leads_to dir (segments pkg_dir)"
proof -
  let ?rel = "trim_dot_slash target"
  let ?joined = "path_join pkg_dir ?rel"
  have within: "stays_within 0 (below pkg_dir ?joined)" and res: "resolve_declaration_or_runtime_candidate h ?joined = Some r"
    using assms(4) by (auto simp: resolve_target_in_package_def path_is_within_def Let_def split: if_splits)
  have name: "path_file_name ?joined = Some name" using file_name_join[OF assms(1,2,3)] .
  obtain front where front: "segments ?joined = front @ segments ?rel" "leads_to dir front = leads_to dir (segments pkg_dir)"
    using segments_path_join[OF assms(1,2)] by metis
  obtain f rest where rel: "segments ?rel = f @ name # rest" "List.map_filter body_component rest = []" "body_component name = Some (Normal name)"
    using split_last_Normal[OF assms(3)] .
  have "stays_within 0 (List.map_filter body_component f)"
    using within components_join[OF assms(1,2)] rel(1) stays_within_prefix by (simp add: below_def Let_def)
  then obtain extra where "leads_to (leads_to dir (segments pkg_dir)) f = extra @ leads_to dir (segments pkg_dir)"
    using stays_within_extends[of 0 f "[]"] by auto
  then have "leads_to dir (segments ?joined) = name # extra @ leads_to dir (segments pkg_dir)"
    using front rel leads_to_trivial[of rest] by (simp add: enter_segment_def)
  then obtain n where "leads_to dir (segments (entry_path r)) = n # extra @ leads_to dir (segments pkg_dir)"
    using resolution_beside[OF name res] unfolding beside_def by (metis list.sel(3))
  then show ?thesis by (metis append_Cons list.distinct(1))
qed

theorem target_stays_in_package_witness:
  "\<exists>extra. extra \<noteq> [] \<and> leads_to [] (segments ''/n/p/a/../t.d.ts'') = extra @ leads_to [] (segments ''/n/p'')"
proof -
  have "resolve_target_in_package (demo_host\<lparr>is_existing_file := (\<lambda>p. p = ''/n/p/a/../t.d.ts'')\<rparr>) ''/n/p'' ''./a/../t.js''
      = Some \<lparr>entry_path = ''/n/p/a/../t.d.ts'', entry_kind = Declaration\<rparr>" by code_simp
  moreover have "\<not> is_absolute_path (trim_dot_slash ''./a/../t.js'')" "path_file_name (trim_dot_slash ''./a/../t.js'') = Some ''t.js''"
    by code_simp+
  ultimately show ?thesis using target_stays_in_package[of "''/n/p''" "''./a/../t.js''" "''t.js''" _ _ "[]"] by fastforce
qed

text \<open>
  The two kinds of target that leave their package. An absolute target without parent steps is taken as
  it is, although paths that escape the package are to be rejected; and the target \<open>./\<close>, which names
  the package directory itself, resolves to the declaration file beside that directory.
\<close>

theorem target_leaves_package:
  "(is_absolute_path target \<and> ParentDir \<notin> set (components target) \<and> is_declaration_file_path target \<and> is_existing_file h target \<longrightarrow>
      resolve_target_in_package h pkg_dir target = Some \<lparr>entry_path = target, entry_kind = Declaration\<rparr>)
   \<and> resolve_target_in_package demo_host ''/n/p'' ''./'' = Some \<lparr>entry_path = ''/n/p.d.ts'', entry_kind = Declaration\<rparr>"
proof -
  have flat: "ParentDir \<notin> set cs \<Longrightarrow> stays_within depth cs" for cs depth
    by (induction depth cs rule: stays_within.induct) auto
  have "resolve_target_in_package h pkg_dir target = Some \<lparr>entry_path = target, entry_kind = Declaration\<rparr>"
    if "is_absolute_path target" "ParentDir \<notin> set (components target)" "is_declaration_file_path target" "is_existing_file h target"
  proof -
    have "trim_dot_slash target = target" using that(1) by (cases target rule: trim_dot_slash.cases) (auto simp: is_absolute_path_def)
    moreover have "set (below pkg_dir target) \<subseteq> set (components target)"
      by (auto simp: below_def Let_def dest: in_set_dropD)
    then have "path_is_within pkg_dir target" unfolding path_is_within_def using flat that(2) by blast
    ultimately show ?thesis using that
      by (simp add: resolve_target_in_package_def path_join_def resolve_declaration_or_runtime_candidate_def resolve_declaration_candidate_def)
  qed
  moreover have "resolve_target_in_package demo_host ''/n/p'' ''./'' = Some \<lparr>entry_path = ''/n/p.d.ts'', entry_kind = Declaration\<rparr>"
    by code_simp
  ultimately show ?thesis by blast
qed

theorem target_leaves_package_witness:
  "resolve_target_in_package demo_host ''/n/p'' ''/etc/x.d.ts'' = Some \<lparr>entry_path = ''/etc/x.d.ts'', entry_kind = Declaration\<rparr>"
proof -
  have "is_absolute_path ''/etc/x.d.ts'' \<and> ParentDir \<notin> set (components ''/etc/x.d.ts'')
      \<and> is_declaration_file_path ''/etc/x.d.ts'' \<and> is_existing_file demo_host ''/etc/x.d.ts''" by code_simp
  then show ?thesis using target_leaves_package by blast
qed

end
