(* ===== verification/Probe.thy ===== *)
theory Probe
  imports Unix_Paths Module_Resolution
begin

text \<open>
  File existence probing with a cache (\<open>crates/surge-ts/src/probe.rs\<close>): one answer for each path, one
  answer for each directory, and after a number of probes into one directory a listing of it that
  answers without asking the file system. The file system is the record \<open>file_system\<close>; its answers do
  not change during a run.
\<close>

section \<open>The file system\<close>

datatype entry_type = PlainFile | DirectoryEntry | OtherEntry
datatype listing_result = Listed "(rstr \<times> entry_type) list" | ListingNotFound | ListingFailed

record file_system =
  fs_custom :: bool
  fs_is_file :: "rstr \<Rightarrow> bool"
  fs_is_dir :: "rstr \<Rightarrow> bool"
  fs_read_dir :: "rstr \<Rightarrow> listing_result"

definition dir_listing_threshold :: nat where
  "dir_listing_threshold = 16"

record dir_listing =
  listed_files :: "rstr set"
  maybe_lower :: "rstr set"
  unlisted :: bool

record probe_cache =
  paths :: "rstr \<rightharpoonup> bool"
  dir_probe_counts :: "rstr \<Rightarrow> nat"
  dir_listings :: "rstr \<rightharpoonup> dir_listing"
  known_dirs :: "rstr \<rightharpoonup> bool"

definition empty_probe_cache :: probe_cache where
  "empty_probe_cache = \<lparr>paths = Map.empty, dir_probe_counts = (\<lambda>_. 0), dir_listings = Map.empty, known_dirs = Map.empty\<rparr>"

section \<open>Directories\<close>

function dir_exists :: "file_system \<Rightarrow> rstr \<Rightarrow> probe_cache \<Rightarrow> bool \<times> probe_cache" where
  "dir_exists fs dir cache =
     (case known_dirs cache dir of
        Some hit \<Rightarrow> (hit, cache)
      | None \<Rightarrow>
          let (found, cache1) =
            (case path_parent dir of
               None \<Rightarrow> (fs_is_dir fs dir, cache)
             | Some parent \<Rightarrow>
                 if parent = [] then (fs_is_dir fs dir, cache)
                 else let (above, cache0) = dir_exists fs parent cache
                      in if \<not> above then (False, cache0) else (fs_is_dir fs dir, cache0))
          in (found, cache1\<lparr>known_dirs := (known_dirs cache1)(dir \<mapsto> found)\<rparr>))"
  by pat_completeness auto
termination
  by (relation "measure (\<lambda>(fs, dir, cache). length dir)") (simp_all add: path_parent_shorter)

declare dir_exists.simps [simp del]

section \<open>Listings\<close>

definition add_entry :: "dir_listing \<Rightarrow> rstr \<times> entry_type \<Rightarrow> dir_listing" where
  "add_entry listing entry =
     (case entry of (name, kind) \<Rightarrow>
        if kind = DirectoryEntry then listing
        else
          let listing1 = (if kind = PlainFile then listing\<lparr>listed_files := insert name (listed_files listing)\<rparr> else listing)
          in listing1\<lparr>maybe_lower := insert (map ascii_lower name) (maybe_lower listing1)\<rparr>)"

definition empty_listing :: dir_listing where
  "empty_listing = \<lparr>listed_files = {}, maybe_lower = {}, unlisted = False\<rparr>"

definition build_dir_listing :: "file_system \<Rightarrow> rstr \<Rightarrow> dir_listing" where
  "build_dir_listing fs dir =
     (if fs_custom fs then empty_listing\<lparr>unlisted := True\<rparr>
      else case fs_read_dir fs dir of
             Listed entries \<Rightarrow> foldl add_entry empty_listing entries
           | ListingNotFound \<Rightarrow> empty_listing
           | ListingFailed \<Rightarrow> empty_listing\<lparr>unlisted := True\<rparr>)"

definition listing_answer :: "file_system \<Rightarrow> dir_listing \<Rightarrow> rstr \<Rightarrow> rstr \<Rightarrow> bool" where
  "listing_answer fs listing path name =
     (if unlisted listing then fs_is_file fs path
      else if name \<in> listed_files listing then True
      else if map ascii_lower name \<in> maybe_lower listing then fs_is_file fs path
      else False)"

section \<open>Probing\<close>

definition is_ascii :: "rstr \<Rightarrow> bool" where
  "is_ascii s = list_all (\<lambda>c. byte c < 128) s"

definition probe_in_directory :: "file_system \<Rightarrow> rstr \<Rightarrow> rstr \<Rightarrow> rstr \<Rightarrow> probe_cache \<Rightarrow> bool \<times> probe_cache" where
  "probe_in_directory fs path parent name cache =
     (case dir_listings cache parent of
        Some listing \<Rightarrow> (listing_answer fs listing path name, cache)
      | None \<Rightarrow>
          let count = dir_probe_counts cache parent + 1;
              cache1 = cache\<lparr>dir_probe_counts := (dir_probe_counts cache)(parent := count)\<rparr>
          in if dir_listing_threshold \<le> count then
               let listing = build_dir_listing fs parent
               in (listing_answer fs listing path name, cache1\<lparr>dir_listings := (dir_listings cache1)(parent \<mapsto> listing)\<rparr>)
             else (fs_is_file fs path, cache1))"

definition probe_uncached :: "file_system \<Rightarrow> rstr \<Rightarrow> probe_cache \<Rightarrow> bool \<times> probe_cache" where
  "probe_uncached fs path cache =
     (if fs_custom fs then (fs_is_file fs path, cache)
      else case (path_parent path, path_file_name path) of
             (Some parent, Some name) \<Rightarrow>
               if is_ascii name then
                 (let (above, cache1) = dir_exists fs parent cache
                  in if \<not> above then (False, cache1) else probe_in_directory fs path parent name cache1)
               else (fs_is_file fs path, cache)
           | _ \<Rightarrow> (fs_is_file fs path, cache))"

definition probe :: "file_system \<Rightarrow> rstr \<Rightarrow> probe_cache \<Rightarrow> bool \<times> probe_cache" where
  "probe fs path cache =
     (case paths cache path of
        Some hit \<Rightarrow> (hit, cache)
      | None \<Rightarrow>
          let (found, cache1) = probe_uncached fs path cache
          in (found, cache1\<lparr>paths := (paths cache1)(path \<mapsto> found)\<rparr>))"

end
