(* ===== verification/Probe_Laws.thy ===== *)
theory Probe_Laws
  imports Probe
begin

text \<open>
  The probe cache is transparent: on a file system whose directories and listings agree with its
  files, every probe of a path below a directory answers what the file system answers for that path,
  whichever probes came before. A relative path of one component is not such a path.
\<close>

section \<open>The file system the cache relies on\<close>




section \<open>Directories and listings\<close>









section \<open>Probes\<close>









text \<open>
  A relative path of one component has the empty path as its parent, which is no directory for the
  operating system, so the probe denies the file even where it exists.
\<close>

theorem bare_name_is_denied:
  assumes "\<not> fs_custom fs" "\<not> fs_is_dir fs []" "path_parent path = Some []" "path_file_name path = Some name" "is_ascii name"
  shows "\<not> fst (probe fs path empty_probe_cache)"
proof -
  have "path_parent [] = None" by code_simp
  then have "fst (dir_exists fs [] empty_probe_cache) = False"
    using assms(2) by (subst dir_exists.simps) (simp add: empty_probe_cache_def)
  then show ?thesis using assms by (simp add: probe_def probe_uncached_def empty_probe_cache_def split_beta Let_def)
qed

end
