(* ===== verification/Config_Loading.thy ===== *)
theory Config_Loading
  imports Package_Maps Unix_Paths "HOL-Library.AList"
begin

text \<open>
  Loading a project file with what it extends (\<open>crates/surge-ts-config/src/extends.rs\<close>,
  \<open>parse.rs\<close>): reading, parsing, the cycle check, the resolution of \<open>extends\<close>, and the merge of a
  configuration over its base.

  The record \<open>config_host\<close> holds what is outside: the file system, the \<open>jsonc\<close> parser, and the
  canonical form of a path (\<open>canonicalize_if_exists\<close>, the subject of \<open>Paths\<close>). A list of diagnostics and
  the set of visited files are threaded through as in the source.
\<close>

record config_host =
  read_text :: "rstr \<Rightarrow> rstr option"
  parse_jsonc :: "rstr \<Rightarrow> rstr + json"
  path_exists :: "rstr \<Rightarrow> bool"
  path_is_file :: "rstr \<Rightarrow> bool"
  path_is_dir :: "rstr \<Rightarrow> bool"
  canonicalize :: "rstr \<Rightarrow> rstr"

datatype config_diagnostic_code =
  ConfigFileNotFound | ConfigParseError | ExtendsCycle | ExtendsFileNotFound | UnknownCompilerOption
  | InvalidCompilerOptionValue | UnsupportedLegacyCompilerOptionValue | UnsupportedLegacyCompilerOption
  | InvalidFilesEntry | InvalidIncludeEntry | InvalidExcludeEntry

record config_diagnostic =
  diagnostic_code :: config_diagnostic_code
  diagnostic_message :: rstr
  diagnostic_file :: rstr

definition diagnostic :: "config_diagnostic_code \<Rightarrow> rstr \<Rightarrow> rstr \<Rightarrow> config_diagnostic" where
  "diagnostic code message file = \<lparr>diagnostic_code = code, diagnostic_message = message, diagnostic_file = file\<rparr>"

section \<open>One configuration\<close>

record raw_config =
  raw_options :: "(rstr \<times> json) list option"
  raw_files :: "json list option"
  raw_include :: "json list option"
  raw_exclude :: "json list option"

definition default_config :: raw_config where
  "default_config = \<lparr>raw_options = None, raw_files = None, raw_include = None, raw_exclude = None\<rparr>"

definition parse_string_array_entry ::
    "json option \<Rightarrow> rstr \<Rightarrow> config_diagnostic_code \<Rightarrow> config_diagnostic list \<Rightarrow> json list option \<times> config_diagnostic list" where
  "parse_string_array_entry entry config_path code diagnostics =
     (case entry of
        None \<Rightarrow> (None, diagnostics)
      | Some (JArray items) \<Rightarrow> (Some items, diagnostics)
      | Some _ \<Rightarrow> (None, diagnostics @ [diagnostic code ''expected an array of strings'' config_path]))"

definition parse_compiler_options ::
    "json option \<Rightarrow> rstr \<Rightarrow> config_diagnostic list \<Rightarrow> (rstr \<times> json) list option \<times> config_diagnostic list" where
  "parse_compiler_options entry config_path diagnostics =
     (case entry of
        Some (JObject options) \<Rightarrow> (Some options, diagnostics)
      | Some _ \<Rightarrow>
          (None, diagnostics @ [diagnostic InvalidCompilerOptionValue ''`compilerOptions` must be a JSON object'' config_path])
      | None \<Rightarrow> (None, diagnostics))"

definition parse_current_config ::
    "rstr \<Rightarrow> (rstr \<times> json) list \<Rightarrow> config_diagnostic list \<Rightarrow> raw_config \<times> config_diagnostic list" where
  "parse_current_config config_path object diagnostics =
     (let (options, ds1) = parse_compiler_options (map_of object ''compilerOptions'') config_path diagnostics;
          (files, ds2) = parse_string_array_entry (map_of object ''files'') config_path InvalidFilesEntry ds1;
          (includes, ds3) = parse_string_array_entry (map_of object ''include'') config_path InvalidIncludeEntry ds2;
          (excludes, ds4) = parse_string_array_entry (map_of object ''exclude'') config_path InvalidExcludeEntry ds3
      in (\<lparr>raw_options = options, raw_files = files, raw_include = includes, raw_exclude = excludes\<rparr>, ds4))"

text \<open>\<open>Map::extend\<close> replaces the value of a known key in place and appends a new key.\<close>

definition extend_map :: "(rstr \<times> json) list \<Rightarrow> (rstr \<times> json) list \<Rightarrow> (rstr \<times> json) list" where
  "extend_map base child = foldl (\<lambda>m (k, v). AList.update k v m) base child"

definition option_or :: "'a option \<Rightarrow> 'a option \<Rightarrow> 'a option" where
  "option_or a b = (case a of Some x \<Rightarrow> Some x | None \<Rightarrow> b)"

definition merge_configs :: "raw_config option \<Rightarrow> raw_config \<Rightarrow> raw_config" where
  "merge_configs base child =
     (let base_options = (case Option.bind base raw_options of Some options \<Rightarrow> options | None \<Rightarrow> []);
          options = (case raw_options child of Some child_options \<Rightarrow> extend_map base_options child_options | None \<Rightarrow> base_options)
      in \<lparr>raw_options = (if options = [] then None else Some options),
          raw_files = option_or (raw_files child) (Option.bind base raw_files),
          raw_include = option_or (raw_include child) (Option.bind base raw_include),
          raw_exclude = option_or (raw_exclude child) (Option.bind base raw_exclude)\<rparr>)"

section \<open>Resolution of \<open>extends\<close>\<close>

definition cannot_resolve :: "rstr \<Rightarrow> rstr \<Rightarrow> rstr" where
  "cannot_resolve spec config_path = ''Cannot resolve extends '' @ [CHR 0x27] @ spec @ [CHR 0x27] @ '' from '' @ config_path"

definition config_directory :: "rstr \<Rightarrow> rstr" where
  "config_directory config_path = (case path_parent config_path of Some dir \<Rightarrow> dir | None \<Rightarrow> ''.'')"

definition resolve_relative_extends :: "config_host \<Rightarrow> rstr \<Rightarrow> rstr \<Rightarrow> rstr + rstr option" where
  "resolve_relative_extends h config_path spec =
     (let primary = path_join (config_directory config_path) spec
      in if path_exists h primary then Inr (Some primary)
         else
           let json_candidate = (if path_extension primary \<noteq> None then primary else with_extension primary ''json'')
           in if path_exists h json_candidate then Inr (Some json_candidate)
              else Inl (cannot_resolve spec config_path))"

definition split_package_specifier :: "rstr \<Rightarrow> (rstr \<times> rstr) option" where
  "split_package_specifier spec =
     (case filter (\<lambda>s. s \<noteq> []) (split_on (CHR ''/'') spec) of
        [] \<Rightarrow> None
      | first # rest \<Rightarrow>
          let finish = (\<lambda>name subs. Some (name, if subs = [] then ''tsconfig.json'' else join_with ''/'' subs))
          in if starts_with first ''@'' then
               (case rest of [] \<Rightarrow> None | second # subs \<Rightarrow> finish (first @ ''/'' @ second) subs)
             else finish first rest)"

definition resolve_existing_config_candidate :: "config_host \<Rightarrow> rstr \<Rightarrow> rstr option" where
  "resolve_existing_config_candidate h candidate =
     (let is_file = (\<lambda>p. path_exists h p \<and> path_is_file h p)
      in if is_file candidate then Some (canonicalize h candidate)
         else if path_extension candidate = None \<and> is_file (with_extension candidate ''json'')
         then Some (canonicalize h (with_extension candidate ''json''))
         else if path_exists h candidate \<and> path_is_dir h candidate \<and> is_file (path_join candidate ''tsconfig.json'')
         then Some (canonicalize h (path_join candidate ''tsconfig.json''))
         else None)"

fun first_package_config :: "config_host \<Rightarrow> rstr \<Rightarrow> rstr \<Rightarrow> rstr list \<Rightarrow> rstr option" where
  "first_package_config h name sub [] = None"
| "first_package_config h name sub (dir # dirs) =
     (case resolve_existing_config_candidate h (path_join (path_join (path_join dir ''node_modules'') name) sub) of
        Some found \<Rightarrow> Some found
      | None \<Rightarrow> first_package_config h name sub dirs)"

definition resolve_package_extends :: "config_host \<Rightarrow> rstr \<Rightarrow> rstr \<Rightarrow> rstr option" where
  "resolve_package_extends h spec from_dir =
     Option.bind (split_package_specifier spec) (\<lambda>(name, sub). first_package_config h name sub (ancestors from_dir))"

definition resolve_extends :: "config_host \<Rightarrow> rstr \<Rightarrow> rstr \<Rightarrow> rstr + rstr option" where
  "resolve_extends h config_path spec =
     (if is_absolute_path spec then
        (if path_exists h spec then Inr (Some spec) else Inl (cannot_resolve spec config_path))
      else if starts_with spec ''./'' \<or> starts_with spec ''../'' \<or> starts_with spec ''/''
      then resolve_relative_extends h config_path spec
      else
        case resolve_package_extends h spec (config_directory config_path) of
          Some found \<Rightarrow> Inr (Some found)
        | None \<Rightarrow> Inl (cannot_resolve spec config_path))"

section \<open>Loading\<close>

type_synonym load_state = "config_diagnostic list \<times> rstr set"

definition extends_of :: "(rstr \<times> json) list \<Rightarrow> rstr option" where
  "extends_of object = Option.bind (map_of object ''extends'') as_str"

text \<open>
  \<open>merge_config_object\<close>, with the recursive call as an argument; \<open>None\<close> when that call has not returned.
\<close>

definition merge_config_object ::
    "(rstr \<Rightarrow> load_state \<Rightarrow> (raw_config \<times> load_state) option) \<Rightarrow> config_host \<Rightarrow> rstr \<Rightarrow> (rstr \<times> json) list \<Rightarrow> load_state
      \<Rightarrow> (raw_config \<times> load_state) option" where
  "merge_config_object load h config_path object state =
     (let (parsed, ds) = parse_current_config config_path object (fst state);
          visited = snd state
      in case extends_of object of
           None \<Rightarrow> Some (merge_configs None parsed, ds, visited)
         | Some spec \<Rightarrow>
             (case resolve_extends h config_path spec of
                Inr (Some base_path) \<Rightarrow>
                  map_option (\<lambda>(base, state'). (merge_configs (Some base) parsed, state')) (load base_path (ds, visited))
              | Inr None \<Rightarrow> Some (merge_configs None parsed, ds, visited)
              | Inl message \<Rightarrow>
                  Some (merge_configs None parsed, ds @ [diagnostic ExtendsFileNotFound message config_path], visited)))"

text \<open>\<open>load_merged_config\<close> with a bound on the depth of the chain: \<open>None\<close> when the bound is reached.\<close>

fun load_merged_config :: "nat \<Rightarrow> config_host \<Rightarrow> rstr \<Rightarrow> load_state \<Rightarrow> (raw_config \<times> load_state) option" where
  "load_merged_config 0 h config_path state = None"
| "load_merged_config (Suc n) h config_path state =
     (let config_key = canonicalize h config_path;
          (diagnostics, visited) = state;
          failed = (\<lambda>code message. Some (default_config, diagnostics @ [diagnostic code message config_path], visited))
      in if config_key \<in> visited then failed ExtendsCycle ''detected tsconfig extends cycle''
         else
           case read_text h config_path of
             None \<Rightarrow> failed ConfigFileNotFound (''could not read '' @ config_path)
           | Some text \<Rightarrow>
               (case parse_jsonc h text of
                  Inl error \<Rightarrow> failed ConfigParseError error
                | Inr (JObject object) \<Rightarrow>
                    map_option (\<lambda>(merged, ds, visited'). (merged, ds, visited' - {config_key}))
                      (merge_config_object (load_merged_config n h) h config_path object (diagnostics, insert config_key visited))
                | Inr _ \<Rightarrow> failed ConfigParseError ''tsconfig.json must contain a JSON object''))"

end
