(* ===== verification/Config_Files.thy ===== *)
theory Config_Files
  imports Config_Loading
begin

text \<open>
  The source files of a project (\<open>crates/surge-ts-config/src/files.rs\<close>): explicit \<open>files\<close>, include and
  exclude patterns, patterns that climb out of the configuration directory, and the pruned walk.

  The glob library and the directory walker are third-party code. A record \<open>glob_lib\<close> holds what the
  source asks of globs; the walker is a function from a root and the filter handed to \<open>filter_entry\<close> to
  the entries it yields. An entry holds its path and whether it is a directory or a file.
\<close>

record glob_lib =
  glob_error :: "rstr \<Rightarrow> rstr option"
  set_error :: "rstr list \<Rightarrow> rstr option"
  glob_matches :: "rstr \<Rightarrow> component list \<Rightarrow> bool"

record dir_entry =
  dir_entry_path :: rstr
  entry_is_dir :: bool
  entry_is_file :: bool

definition strip_base :: "rstr \<Rightarrow> rstr \<Rightarrow> component list option" where
  "strip_base base path =
     (let b = components base; c = components path
      in if take (length b) c = b then Some (drop (length b) c) else None)"

section \<open>Patterns\<close>

definition pattern_segments :: "rstr \<Rightarrow> rstr list" where
  "pattern_segments pat = split_on (CHR ''/'') (replace_char (CHR 0x5C) (CHR ''/'') pat)"

fun escape_loop :: "nat \<Rightarrow> nat \<Rightarrow> rstr list \<Rightarrow> nat" where
  "escape_loop depth escaped [] = escaped"
| "escape_loop depth escaped (segment # segs) =
     (if segment = [] \<or> segment = ''.'' then escape_loop depth escaped segs
      else if segment = ''..'' then
        (if depth = 0 then escape_loop depth (escaped + 1) segs else escape_loop (depth - 1) escaped segs)
      else escape_loop (depth + 1) escaped segs)"

definition escaping_depth :: "rstr \<Rightarrow> nat" where
  "escaping_depth pat = escape_loop 0 0 (pattern_segments pat)"

fun rebase_loop :: "rstr list \<Rightarrow> rstr list \<Rightarrow> rstr list" where
  "rebase_loop kept [] = kept"
| "rebase_loop kept (segment # segs) =
     (if segment = [] \<or> segment = ''.'' then rebase_loop kept segs
      else if segment = ''..'' then
        (if kept \<noteq> [] \<and> last kept \<noteq> ''..'' then rebase_loop (butlast kept) segs
         else rebase_loop (kept @ [''..'']) segs)
      else rebase_loop (kept @ [segment]) segs)"

definition rebase_pattern :: "rstr \<Rightarrow> rstr \<Rightarrow> rstr" where
  "rebase_pattern before pat = join_with ''/'' (rebase_loop [] (split_on (CHR ''/'') before @ pattern_segments pat))"

definition component_text :: "component \<Rightarrow> rstr" where
  "component_text c = (case c of RootDir \<Rightarrow> ''/'' | CurDir \<Rightarrow> ''.'' | ParentDir \<Rightarrow> ''..'' | Normal s \<Rightarrow> s)"

definition lexical_ancestor :: "rstr \<Rightarrow> nat \<Rightarrow> (rstr \<times> rstr) option" where
  "lexical_ancestor root_dir depth =
     (if depth < length (ancestors root_dir)
      then let ancestor = ancestors root_dir ! depth
           in map_option (\<lambda>cs. (ancestor, join_with ''/'' (map component_text cs))) (strip_base ancestor root_dir)
      else None)"

definition contains_glob_metacharacters :: "rstr \<Rightarrow> bool" where
  "contains_glob_metacharacters pat = list_ex (\<lambda>c. c \<in> set ''*?[]{}'') pat"

definition literal_component_depth :: "rstr \<Rightarrow> nat" where
  "literal_component_depth pat = length (takeWhile (\<lambda>c. \<not> contains_glob_metacharacters (component_text c)) (components pat))"

section \<open>Include roots\<close>

definition include_walk_root :: "config_host \<Rightarrow> rstr \<Rightarrow> rstr \<Rightarrow> rstr option" where
  "include_walk_root h base_dir pat =
     (let segs = split_on (CHR ''/'') pat;
          literal = takeWhile (\<lambda>s. \<not> contains_glob_metacharacters s) segs;
          root = foldl path_join base_dir literal;
          root' = (if length literal = length segs \<and> \<not> path_is_dir h root
                   then (case path_parent root of Some parent \<Rightarrow> parent | None \<Rightarrow> root) else root)
      in if path_is_dir h root' then Some root' else None)"

definition path_starts_with :: "rstr \<Rightarrow> rstr \<Rightarrow> bool" where
  "path_starts_with path base = (strip_base base path \<noteq> None)"

definition outermost_roots :: "rstr list \<Rightarrow> rstr list" where
  "outermost_roots roots = foldl (\<lambda>kept root. if list_ex (path_starts_with root) kept then kept else kept @ [root]) [] roots"

definition sort_paths :: "rstr list \<Rightarrow> rstr list" where
  "sort_paths ps = remdups_adj (sort_key segments ps)"

definition include_walk_roots :: "config_host \<Rightarrow> rstr \<Rightarrow> rstr list \<Rightarrow> rstr list" where
  "include_walk_roots h base_dir pats =
     outermost_roots (sort_paths (List.map_filter (include_walk_root h base_dir) pats))"

definition literal_include_root :: "config_host \<Rightarrow> rstr \<Rightarrow> rstr \<Rightarrow> component list option" where
  "literal_include_root h root_dir pat =
     (let last_component = (case components pat of [] \<Rightarrow> [] | cs \<Rightarrow> component_text (last cs))
      in if contains_glob_metacharacters pat then None
         else if CHR ''.'' \<in> set last_component then None
         else
           let candidate = resolve_path root_dir pat
           in if path_exists h candidate \<and> path_is_dir h candidate
              then Some (case strip_base root_dir candidate of Some cs \<Rightarrow> cs | None \<Rightarrow> components candidate)
              else None)"

section \<open>What the walk keeps\<close>

definition is_hidden :: "component \<Rightarrow> bool" where
  "is_hidden c = starts_with (component_text c) ''.''"

definition wildcard_segments_are_visible :: "component list \<Rightarrow> nat \<Rightarrow> bool" where
  "wildcard_segments_are_visible relative literal_depth = list_all (\<lambda>c. \<not> is_hidden c) (drop literal_depth relative)"

definition is_under_any_include_root :: "component list \<Rightarrow> component list list \<Rightarrow> bool" where
  "is_under_any_include_root relative include_roots =
     list_ex (\<lambda>root. take (length root) relative = root \<and> wildcard_segments_are_visible relative (length root)) include_roots"

definition is_unreachable_dot_directory :: "dir_entry \<Rightarrow> rstr \<Rightarrow> nat list \<Rightarrow> component list list \<Rightarrow> bool" where
  "is_unreachable_dot_directory entry root_dir include_depths include_roots =
     (if \<not> entry_is_dir entry then False
      else case strip_base root_dir (dir_entry_path entry) of
             None \<Rightarrow> False
           | Some relative \<Rightarrow>
               if relative = [] then False
               else if \<not> is_hidden (last relative) then False
               else
                 let literal_reach = length relative - 1
                 in \<not> list_ex (\<lambda>d. literal_reach < d) include_depths
                    \<and> \<not> list_ex (\<lambda>root. literal_reach < length root) include_roots)"

definition should_prune :: "glob_lib \<Rightarrow> rstr \<Rightarrow> rstr \<Rightarrow> rstr list option \<Rightarrow> bool" where
  "should_prune g path root_dir exclude_set =
     (if components path = components root_dir then False
      else case strip_base root_dir path of
             None \<Rightarrow> False
           | Some relative \<Rightarrow>
               (case exclude_set of Some globs \<Rightarrow> list_ex (\<lambda>pat. glob_matches g pat relative) globs | None \<Rightarrow> False))"

definition is_supported_source_file :: "rstr \<Rightarrow> bool \<Rightarrow> bool" where
  "is_supported_source_file path allow_js =
     (case path_extension path of
        None \<Rightarrow> False
      | Some ext \<Rightarrow>
          ext \<in> {''ts'', ''tsx'', ''mts'', ''cts''} \<or> allow_js \<and> ext \<in> {''js'', ''jsx'', ''mjs'', ''cjs''})"

section \<open>Entries of the configuration\<close>

fun parse_pattern_list ::
    "json list \<Rightarrow> rstr \<Rightarrow> config_diagnostic_code \<Rightarrow> config_diagnostic list \<Rightarrow> rstr list \<times> config_diagnostic list" where
  "parse_pattern_list [] file code diagnostics = ([], diagnostics)"
| "parse_pattern_list (entry # entries) file code diagnostics =
     (case as_str entry of
        None \<Rightarrow> parse_pattern_list entries file code (diagnostics @ [diagnostic code ''pattern entries must be strings'' file])
      | Some pat \<Rightarrow> (case parse_pattern_list entries file code diagnostics of (pats, ds) \<Rightarrow> (pat # pats, ds)))"

definition accept_glob :: "glob_lib \<Rightarrow> rstr \<Rightarrow> rstr list \<times> config_diagnostic list \<Rightarrow> rstr \<Rightarrow> rstr list \<times> config_diagnostic list" where
  "accept_glob g file state pat =
     (case glob_error g pat of
        None \<Rightarrow> (fst state @ [pat], snd state)
      | Some error \<Rightarrow>
          (fst state, snd state @ [diagnostic InvalidCompilerOptionValue (''invalid glob `'' @ pat @ ''`: '' @ error) file]))"

definition finish_globset :: "glob_lib \<Rightarrow> rstr \<Rightarrow> rstr list \<times> config_diagnostic list \<Rightarrow> rstr list option \<times> config_diagnostic list" where
  "finish_globset g file state =
     (case set_error g (fst state) of
        None \<Rightarrow> (Some (fst state), snd state)
      | Some error \<Rightarrow> (None, snd state @ [diagnostic InvalidCompilerOptionValue (''failed to build globset: '' @ error) file]))"

definition build_globset :: "glob_lib \<Rightarrow> rstr list \<Rightarrow> config_diagnostic list \<Rightarrow> rstr \<Rightarrow> rstr list option \<times> config_diagnostic list" where
  "build_globset g pats diagnostics file = finish_globset g file (foldl (accept_glob g file) ([], diagnostics) pats)"

definition build_include_globset ::
    "glob_lib \<Rightarrow> rstr list \<Rightarrow> config_diagnostic list \<Rightarrow> rstr \<Rightarrow> (rstr list option \<times> nat list) \<times> config_diagnostic list" where
  "build_include_globset g pats diagnostics file =
     (case build_globset g pats diagnostics file of
        (Some accepted, ds) \<Rightarrow> ((Some accepted, map literal_component_depth accepted), ds)
      | (None, ds) \<Rightarrow> ((None, []), ds))"

fun resolve_explicit_files ::
    "config_host \<Rightarrow> rstr \<Rightarrow> bool \<Rightarrow> json list \<Rightarrow> rstr list \<times> config_diagnostic list \<Rightarrow> rstr list \<times> config_diagnostic list" where
  "resolve_explicit_files h root_dir allow_js [] state = state"
| "resolve_explicit_files h root_dir allow_js (file # files) (results, diagnostics) =
     (case as_str file of
        None \<Rightarrow>
          resolve_explicit_files h root_dir allow_js files
            (results, diagnostics @ [diagnostic InvalidFilesEntry ''files entries must be strings'' root_dir])
      | Some raw \<Rightarrow>
          let candidate = resolve_path root_dir raw
          in if \<not> path_exists h candidate \<or> \<not> path_is_file h candidate then
               resolve_explicit_files h root_dir allow_js files
                 (results, diagnostics @ [diagnostic InvalidFilesEntry (''file `'' @ raw @ ''` does not exist'') root_dir])
             else if \<not> is_supported_source_file candidate allow_js then
               resolve_explicit_files h root_dir allow_js files (results, diagnostics)
             else
               let found = canonicalize h candidate
               in resolve_explicit_files h root_dir allow_js files
                    (if found \<in> set results then results else results @ [found], diagnostics))"

section \<open>The walk\<close>

definition included :: "glob_lib \<Rightarrow> rstr list option \<Rightarrow> nat list \<Rightarrow> component list list \<Rightarrow> component list \<Rightarrow> bool" where
  "included g include_set include_depths include_roots relative =
     (case include_set of
        None \<Rightarrow> True
      | Some globs \<Rightarrow>
          list_ex (\<lambda>i. glob_matches g (globs ! i) relative \<and> wildcard_segments_are_visible relative (include_depths ! i)) [0..<length globs]
          \<or> is_under_any_include_root relative include_roots)"

definition takes_entry ::
    "glob_lib \<Rightarrow> rstr \<Rightarrow> bool \<Rightarrow> rstr list option \<Rightarrow> nat list \<Rightarrow> component list list \<Rightarrow> dir_entry \<Rightarrow> bool" where
  "takes_entry g base_dir allow_js include_set include_depths include_roots entry =
     (entry_is_file entry
      \<and> (case strip_base base_dir (dir_entry_path entry) of
           None \<Rightarrow> False
         | Some relative \<Rightarrow> included g include_set include_depths include_roots relative)
      \<and> is_supported_source_file (dir_entry_path entry) allow_js)"

definition descends ::
    "glob_lib \<Rightarrow> rstr \<Rightarrow> rstr list option \<Rightarrow> nat list \<Rightarrow> component list list \<Rightarrow> dir_entry \<Rightarrow> bool" where
  "descends g base_dir exclude_set include_depths include_roots entry =
     (\<not> should_prune g (dir_entry_path entry) base_dir exclude_set
      \<and> \<not> is_unreachable_dot_directory entry base_dir include_depths include_roots)"

definition default_excludes :: "rstr list" where
  "default_excludes =
     [''**/node_modules'', ''**/node_modules/**'', ''**/bower_components'', ''**/bower_components/**'',
      ''**/jspm_packages'', ''**/jspm_packages/**'']"

definition walk_files ::
    "(rstr \<Rightarrow> (dir_entry \<Rightarrow> bool) \<Rightarrow> dir_entry list) \<Rightarrow> config_host \<Rightarrow> glob_lib \<Rightarrow> rstr \<Rightarrow> rstr list \<Rightarrow> bool
      \<Rightarrow> rstr list option \<Rightarrow> rstr list option \<Rightarrow> nat list \<Rightarrow> component list list \<Rightarrow> rstr list" where
  "walk_files walk h g base_dir walk_roots allow_js exclude_set include_set include_depths include_roots =
     sort_paths (map (\<lambda>entry. canonicalize h (dir_entry_path entry))
       (concat (map (\<lambda>root. filter (takes_entry g base_dir allow_js include_set include_depths include_roots)
           (walk root (descends g base_dir exclude_set include_depths include_roots))) walk_roots)))"

definition rebased ::
    "config_host \<Rightarrow> rstr \<Rightarrow> rstr list \<Rightarrow> rstr list \<Rightarrow> rstr \<times> rstr list \<times> rstr list \<times> rstr list" where
  "rebased h root_dir includes excludes =
     (let escape_depth = Max (set (0 # map escaping_depth includes))
      in case (if 0 < escape_depth then lexical_ancestor root_dir escape_depth else None) of
           None \<Rightarrow> (root_dir, includes, excludes, [root_dir])
         | Some (ancestor, before) \<Rightarrow>
             let includes' = map (rebase_pattern before) includes
             in (ancestor, includes', map (rebase_pattern before) excludes, include_walk_roots h ancestor includes'))"

definition resolve_source_files ::
    "(rstr \<Rightarrow> (dir_entry \<Rightarrow> bool) \<Rightarrow> dir_entry list) \<Rightarrow> config_host \<Rightarrow> glob_lib \<Rightarrow> rstr \<Rightarrow> raw_config \<Rightarrow> bool
      \<Rightarrow> config_diagnostic list \<Rightarrow> rstr list \<times> config_diagnostic list" where
  "resolve_source_files walk h g root_dir config allow_js diagnostics =
     (case raw_files config of
        Some files \<Rightarrow> resolve_explicit_files h root_dir allow_js files ([], diagnostics)
      | None \<Rightarrow>
          let (includes, ds1) = (case raw_include config of
                Some entries \<Rightarrow> parse_pattern_list entries root_dir InvalidIncludeEntry diagnostics
              | None \<Rightarrow> ([''**/*''], diagnostics));
              (excludes, ds2) = (case raw_exclude config of
                Some entries \<Rightarrow> parse_pattern_list entries root_dir InvalidExcludeEntry ds1
              | None \<Rightarrow> ([], ds1));
              (base_dir, includes', excludes', walk_roots) = rebased h root_dir includes excludes;
              include_roots = List.map_filter (literal_include_root h base_dir) includes';
              ((include_set, include_depths), ds3) = build_include_globset g includes' ds2 root_dir;
              (exclude_set, ds4) = build_globset g (default_excludes @ excludes') ds3 root_dir
          in (walk_files walk h g base_dir walk_roots allow_js exclude_set include_set include_depths include_roots, ds4))"

end
