(* ===== verification/Config_Laws.thy ===== *)
theory Config_Laws
  imports Config_Loading
begin

text \<open>
  Laws of configuration loading: a project file loads whatever its chain of bases is, the nearest
  configuration of the chain that sets an entry wins, the set of visited files is restored, and a
  base with a dot in its name is not found without its extension.
\<close>

section \<open>Merging\<close>

text \<open>The value the first configuration of a list gives.\<close>

definition first_some :: "('a \<Rightarrow> 'b option) \<Rightarrow> 'a list \<Rightarrow> 'b option" where
  "first_some f xs = (case List.map_filter f xs of [] \<Rightarrow> None | y # _ \<Rightarrow> Some y)"

lemma first_some_simps [simp]:
  "first_some f [] = None" "first_some f (x # xs) = option_or (f x) (first_some f xs)"
  by (simp_all add: first_some_def option_or_def List.map_filter_simps split: option.split)

lemma option_or_None [simp]: "option_or a None = a" "option_or None b = b" "option_or (Some x) b = Some x"
  by (simp_all add: option_or_def split: option.split)

definition config_option :: "rstr \<Rightarrow> raw_config \<Rightarrow> json option" where
  "config_option key c = Option.bind (raw_options c) (\<lambda>options. map_of options key)"

lemma map_of_extend_map:
  "distinct (map fst child) \<Longrightarrow> map_of (extend_map base child) key = option_or (map_of child key) (map_of base key)"
proof (induction child arbitrary: base)
  case (Cons e child)
  obtain k v where e: "e = (k, v)" by (cases e)
  have "map_of (extend_map base (e # child)) key = option_or (map_of child key) (map_of (AList.update k v base) key)"
    using Cons by (simp add: extend_map_def e)
  moreover have "map_of child k = None" using Cons.prems e by (simp add: map_of_eq_None_iff)
  ultimately show ?case by (simp add: e AList.update_conv' option_or_def split: option.split)
qed (simp add: extend_map_def)

definition distinct_options :: "raw_config \<Rightarrow> bool" where
  "distinct_options c \<longleftrightarrow> (case raw_options c of Some options \<Rightarrow> distinct (map fst options) | None \<Rightarrow> True)"

lemma merge_option:
  assumes "distinct_options child"
  shows "config_option key (merge_configs base child) =
    option_or (config_option key child) (Option.bind base (config_option key))"
proof -
  define options where "options = (case raw_options child of
      Some child_options \<Rightarrow> extend_map (case Option.bind base raw_options of Some os \<Rightarrow> os | None \<Rightarrow> []) child_options
    | None \<Rightarrow> (case Option.bind base raw_options of Some os \<Rightarrow> os | None \<Rightarrow> []))"
  have "config_option key (merge_configs base child) = map_of options key"
    unfolding config_option_def merge_configs_def options_def by (simp add: Let_def)
  also have "map_of options key = option_or (config_option key child) (Option.bind base (config_option key))"
    using assms unfolding options_def
    by (cases base) (auto simp: map_of_extend_map config_option_def distinct_options_def split: option.split)
  finally show ?thesis .
qed

lemma merge_entries:
  "raw_files (merge_configs base child) = option_or (raw_files child) (Option.bind base raw_files)"
  "raw_include (merge_configs base child) = option_or (raw_include child) (Option.bind base raw_include)"
  "raw_exclude (merge_configs base child) = option_or (raw_exclude child) (Option.bind base raw_exclude)"
  by (simp_all add: merge_configs_def Let_def)

section \<open>The chain of configurations\<close>

definition read_object :: "config_host \<Rightarrow> rstr \<Rightarrow> (rstr \<times> json) list option" where
  "read_object h path =
     Option.bind (read_text h path) (\<lambda>text. case parse_jsonc h text of Inr (JObject object) \<Rightarrow> Some object | _ \<Rightarrow> None)"

definition base_of :: "config_host \<Rightarrow> rstr \<Rightarrow> (rstr \<times> json) list \<Rightarrow> rstr option" where
  "base_of h path object =
     Option.bind (extends_of object) (\<lambda>spec.
       case resolve_extends h path spec of Inr base \<Rightarrow> base | Inl _ \<Rightarrow> None)"

definition own_config :: "rstr \<Rightarrow> (rstr \<times> json) list \<Rightarrow> raw_config" where
  "own_config path object = fst (parse_current_config path object [])"

text \<open>The configurations from a file along its bases, up to a file that does not load or closes a cycle.\<close>

fun config_chain :: "nat \<Rightarrow> config_host \<Rightarrow> rstr \<Rightarrow> rstr set \<Rightarrow> raw_config list" where
  "config_chain 0 h path visited = []"
| "config_chain (Suc n) h path visited =
     (if canonicalize h path \<in> visited then []
      else case read_object h path of
             None \<Rightarrow> []
           | Some object \<Rightarrow>
               own_config path object #
                 (case base_of h path object of
                    None \<Rightarrow> []
                  | Some base \<Rightarrow> config_chain n h base (insert (canonicalize h path) visited)))"

lemma parse_entry_value:
  "fst (parse_string_array_entry entry path code ds) = (case entry of Some (JArray items) \<Rightarrow> Some items | _ \<Rightarrow> None)"
  "fst (parse_compiler_options entry path ds) = (case entry of Some (JObject options) \<Rightarrow> Some options | _ \<Rightarrow> None)"
  by (simp_all add: parse_string_array_entry_def parse_compiler_options_def split: option.split json.split)

lemma parse_current_config_own: "fst (parse_current_config path object ds) = own_config path object"
  by (simp add: own_config_def parse_current_config_def split_beta Let_def parse_entry_value)

lemma merge_config_object_base:
  "merge_config_object load h path object state =
     (let (parsed, ds) = parse_current_config path object (fst state) in
      case base_of h path object of
        Some base_path \<Rightarrow> map_option (\<lambda>(base, state'). (merge_configs (Some base) parsed, state')) (load base_path (ds, snd state))
      | None \<Rightarrow> Some (merge_configs None parsed,
          (case extends_of object of
             None \<Rightarrow> ds
           | Some spec \<Rightarrow> (case resolve_extends h path spec of
                 Inl message \<Rightarrow> ds @ [diagnostic ExtendsFileNotFound message path] | Inr _ \<Rightarrow> ds)), snd state))"
  by (cases "extends_of object"; cases "resolve_extends h path (the (extends_of object))")
    (auto simp: merge_config_object_def base_of_def Let_def split: prod.split option.split)

lemma read_object_Some:
  "read_object h path = Some object \<longleftrightarrow> (\<exists>contents. read_text h path = Some contents \<and> parse_jsonc h contents = Inr (JObject object))"
proof (cases "read_text h path")
  case (Some contents)
  show ?thesis
  proof (cases "parse_jsonc h contents")
    case (Inr x)
    then show ?thesis using Some by (cases x) (simp_all add: read_object_def)
  qed (simp add: read_object_def Some)
qed (simp add: read_object_def)

text \<open>Loading a file that can be read and holds an object.\<close>

lemma load_object:
  assumes "canonicalize h path \<notin> visited" "read_object h path = Some object"
  shows "load_merged_config (Suc n) h path (ds, visited) =
    map_option (\<lambda>(merged, ds', visited'). (merged, ds', visited' - {canonicalize h path}))
      (merge_config_object (load_merged_config n h) h path object (ds, insert (canonicalize h path) visited))"
proof -
  obtain contents where "read_text h path = Some contents" "parse_jsonc h contents = Inr (JObject object)"
    using assms(2) read_object_Some by blast
  then show ?thesis using assms(1) unfolding load_merged_config.simps Let_def prod.case by (simp del: load_merged_config.simps)
qed

lemma load_unread:
  assumes "canonicalize h path \<in> visited \<or> read_object h path = None"
  shows "\<exists>code message. load_merged_config (Suc n) h path (ds, visited) = Some (default_config, ds @ [diagnostic code message path], visited)"
proof (cases "canonicalize h path \<in> visited")
  case False
  then have "read_object h path = None" using assms by simp
  then show ?thesis using False
    by (cases "read_text h path"; cases "parse_jsonc h (the (read_text h path))"; cases "projr (parse_jsonc h (the (read_text h path)))")
      (auto simp: read_object_def Let_def)
qed (auto simp: Let_def)

section \<open>Loading returns\<close>

text \<open>The canonical names of the files that can be read.\<close>

definition config_keys :: "config_host \<Rightarrow> rstr set" where
  "config_keys h = {canonicalize h p |p. read_text h p \<noteq> None}"

lemma read_object_key: "read_object h path = Some object \<Longrightarrow> canonicalize h path \<in> config_keys h"
  unfolding read_object_Some config_keys_def by blast

lemma unvisited_decreases:
  "finite files \<Longrightarrow> key \<in> files \<Longrightarrow> key \<notin> visited \<Longrightarrow> card (files - visited) < Suc n \<Longrightarrow> card (files - insert key visited) < n"
proof -
  assume "finite files" "key \<in> files" "key \<notin> visited" "card (files - visited) < Suc n"
  then have "card (files - visited - {key}) < card (files - visited)" by (intro card_Diff1_less) auto
  moreover have "files - insert key visited = files - visited - {key}" by blast
  ultimately show ?thesis using \<open>card (files - visited) < Suc n\<close> by simp
qed

text \<open>
  C29. Loading a project file returns, whatever its \<open>extends\<close> entries are: every file of the chain that is
  read is new to the set of visited files, so a depth of one more than the number of distinct
  configuration files that are not visited yet is enough.
\<close>

theorem config_loading_returns:
  assumes finite: "finite (config_keys h)" and depth: "card (config_keys h - visited) < n"
  shows "\<exists>result. load_merged_config n h path (diagnostics, visited) = Some result"
  using depth
proof (induction n arbitrary: path diagnostics visited)
  case (Suc n)
  show ?case
  proof (cases "canonicalize h path \<in> visited \<or> read_object h path = None")
    case True
    then show ?thesis using load_unread[OF True] by metis
  next
    case False
    then obtain object where o: "canonicalize h path \<notin> visited" "read_object h path = Some object" by auto
    then have "card (config_keys h - insert (canonicalize h path) visited) < n"
      using unvisited_decreases[OF finite] read_object_key Suc.prems by blast
    then have "\<exists>r. load_merged_config n h base (ds, insert (canonicalize h path) visited) = Some r" for base ds
      using Suc.IH by blast
    then have "\<forall>base ds. \<exists>r. load_merged_config n h base (ds, insert (canonicalize h path) visited) = Some r" by blast
    then have "\<exists>r. merge_config_object (load_merged_config n h) h path object (diagnostics, insert (canonicalize h path) visited) = Some r"
      by (cases "base_of h path object") (simp_all add: merge_config_object_base split_beta del: split_paired_Ex)
    then show ?thesis unfolding load_object[OF o] by auto
  qed
qed simp

theorem config_loading_returns_witness:
  "\<exists>result. load_merged_config 2
      \<lparr>read_text = (\<lambda>p. if p = ''/p/tsconfig.json'' then Some ''x'' else None),
       parse_jsonc = (\<lambda>_. Inr (JObject [(''extends'', JString ''./tsconfig.json'')])),
       path_exists = (\<lambda>_. True), path_is_file = (\<lambda>_. True), path_is_dir = (\<lambda>_. False), canonicalize = (\<lambda>p. ''/p'')\<rparr>
      ''/p/tsconfig.json'' ([], {}) = Some result"
proof -
  let ?h = "\<lparr>read_text = (\<lambda>p. if p = ''/p/tsconfig.json'' then Some ''x'' else None),
       parse_jsonc = (\<lambda>_. Inr (JObject [(''extends'', JString ''./tsconfig.json'')])),
       path_exists = (\<lambda>_. True), path_is_file = (\<lambda>_. True), path_is_dir = (\<lambda>_. False), canonicalize = (\<lambda>p. ''/p'')\<rparr>"
  have keys: "config_keys ?h = {''/p''}" by (auto simp: config_keys_def)
  show ?thesis by (rule config_loading_returns) (simp_all add: keys)
qed

section \<open>The nearest configuration wins\<close>

definition first_of_chain :: "raw_config \<Rightarrow> raw_config list \<Rightarrow> bool" where
  "first_of_chain merged chain \<longleftrightarrow>
     (\<forall>key. config_option key merged = first_some (config_option key) chain)
     \<and> raw_files merged = first_some raw_files chain
     \<and> raw_include merged = first_some raw_include chain
     \<and> raw_exclude merged = first_some raw_exclude chain"

lemma first_of_chain_Nil: "first_of_chain default_config []"
  by (simp add: first_of_chain_def default_config_def config_option_def)

lemma first_of_chain_Cons:
  "distinct_options own \<Longrightarrow> first_of_chain base chain \<Longrightarrow> first_of_chain (merge_configs (Some base) own) (own # chain)"
  by (simp add: first_of_chain_def merge_option merge_entries)

lemma first_of_chain_single: "distinct_options own \<Longrightarrow> first_of_chain (merge_configs None own) [own]"
  by (simp add: first_of_chain_def merge_option merge_entries)

text \<open>
  C30. What loading a project file merges: each compiler option has the value of the nearest file of its
  \<open>extends\<close> chain that sets the option, and \<open>files\<close>, \<open>include\<close> and \<open>exclude\<close> are taken whole from the
  nearest file that has them; a file that does not load, or closes a cycle, contributes nothing and ends
  the chain. The set of visited files is as before.
\<close>

theorem config_nearest_wins:
  assumes "\<And>p object. read_object h p = Some object \<Longrightarrow> distinct_options (own_config p object)"
    and "load_merged_config n h path (ds, visited) = Some (merged, ds', visited')"
  shows "first_of_chain merged (config_chain n h path visited) \<and> visited' = visited"
  using assms(2)
proof (induction n arbitrary: path ds visited merged ds' visited')
  case (Suc n)
  show ?case
  proof (cases "canonicalize h path \<in> visited \<or> read_object h path = None")
    case True
    then have "merged = default_config" "visited' = visited"
      using load_unread[OF True, of n ds] Suc.prems by (force simp del: load_merged_config.simps)+
    then show ?thesis using True first_of_chain_Nil by auto
  next
    case False
    then obtain object where o: "canonicalize h path \<notin> visited" "read_object h path = Some object" by auto
    let ?inner = "insert (canonicalize h path) visited"
    obtain v where v: "merge_config_object (load_merged_config n h) h path object (ds, ?inner) = Some (merged, ds', v)"
      "visited' = v - {canonicalize h path}"
      using Suc.prems unfolding load_object[OF o] by auto
    have distinct: "distinct_options (own_config path object)" using assms(1) o(2) by blast
    show ?thesis
    proof (cases "base_of h path object")
      case None
      then show ?thesis using v o first_of_chain_single[OF distinct]
        by (auto simp: merge_config_object_base split_beta parse_current_config_own)
    next
      case (Some base_path)
      then obtain base where base: "load_merged_config n h base_path (snd (parse_current_config path object ds), ?inner) = Some (base, ds', v)"
        "merged = merge_configs (Some base) (own_config path object)"
        using v(1) by (auto simp: merge_config_object_base split_beta parse_current_config_own)
      from Suc.IH[OF base(1)] show ?thesis
        using Some o v(2) base(2) first_of_chain_Cons[OF distinct] by auto
    qed
  qed
qed simp

text \<open>A configuration whose base overrides nothing and ends in a cycle.\<close>

definition demo_config_host :: config_host where
  "demo_config_host =
     \<lparr>read_text = (\<lambda>p. if p = ''/p/a.json'' then Some ''a'' else if p = ''/p/./b.json'' then Some ''b'' else None),
      parse_jsonc = (\<lambda>s. Inr (JObject
        (if s = ''a'' then [(''extends'', JString ''./b.json''), (''compilerOptions'', JObject [(''strict'', JBool True)])]
         else [(''extends'', JString ''./b.json''), (''compilerOptions'', JObject [(''strict'', JBool False), (''jsx'', JBool True)])]))),
      path_exists = (\<lambda>_. True), path_is_file = (\<lambda>_. True), path_is_dir = (\<lambda>_. False),
      canonicalize = (\<lambda>p. if p = ''/p/a.json'' then p else ''/p/b.json'')\<rparr>"

theorem config_nearest_wins_witness:
  "map_option (\<lambda>(merged, ds, visited). (config_option ''strict'' merged, config_option ''jsx'' merged, map diagnostic_code ds, visited))
     (load_merged_config 4 demo_config_host ''/p/a.json'' ([], {})) = Some (Some (JBool True), Some (JBool True), [ExtendsCycle], {})
   \<and> (\<exists>merged. first_of_chain merged (config_chain 4 demo_config_host ''/p/a.json'' {}))"
proof -
  have run: "map_option (\<lambda>(merged, ds, visited). (config_option ''strict'' merged, config_option ''jsx'' merged, map diagnostic_code ds, visited))
     (load_merged_config 4 demo_config_host ''/p/a.json'' ([], {})) = Some (Some (JBool True), Some (JBool True), [ExtendsCycle], {})"
    by code_simp
  then obtain merged ds visited where m: "load_merged_config 4 demo_config_host ''/p/a.json'' ([], {}) = Some (merged, ds, visited)" by auto
  have "distinct_options (own_config p object)" if "read_object demo_config_host p = Some object" for p object
    using that by (auto simp: read_object_Some demo_config_host_def own_config_def parse_current_config_def parse_compiler_options_def
        parse_string_array_entry_def distinct_options_def split: if_splits)
  from config_nearest_wins[OF this m] run show ?thesis by blast
qed

section \<open>A base with a dot in its name\<close>

text \<open>
  A relative \<open>extends\<close> gets the extension \<open>.json\<close> only when its last segment has no extension, so
  \<open>./tsconfig.base\<close> does not name the file \<open>tsconfig.base.json\<close> beside the configuration.
\<close>

theorem dotted_base_not_found:
  "resolve_relative_extends (demo_config_host\<lparr>path_exists := (\<lambda>p. p = ''/p/./tsconfig.base.json'')\<rparr>) ''/p/tsconfig.json'' ''./tsconfig.base''
     = Inl (cannot_resolve ''./tsconfig.base'' ''/p/tsconfig.json'')
   \<and> resolve_relative_extends (demo_config_host\<lparr>path_exists := (\<lambda>p. p = ''/p/./base.json'')\<rparr>) ''/p/tsconfig.json'' ''./base''
     = Inr (Some ''/p/./base.json'')"
  by code_simp

end
