(* ===== verification/Config_File_Laws.thy ===== *)
theory Config_File_Laws
  imports Config_Files Config_Laws
begin

text \<open>
  Laws of the source files of a project: a pattern that climbs out of the configuration directory keeps
  its meaning when it is rewritten below an ancestor, pruning the dot directories no pattern can
  reach changes no result, and the explicit files are the accepted ones without repetition.
\<close>

section \<open>Patterns that climb\<close>

lemma escape_loop_mono: "escaped \<le> escape_loop depth escaped segs"
  by (induction depth escaped segs rule: escape_loop.induct) auto

lemma leads_to_butlast: "kept \<noteq> [] \<Longrightarrow> list_all is_name kept \<Longrightarrow> leads_to dir (butlast kept) = tl (leads_to dir kept)"
  by (induction kept rule: rev_induct) (auto simp: enter_segment_def is_name_def)

text \<open>
  As long as the pattern climbs no further than the kept directories allow, the loop keeps names only, and
  the kept path leads where the walk so far leads.
\<close>

lemma rebase_loop_meaning:
  assumes "list_all is_name kept" "length kept + escaped = m + depth" "escape_loop depth escaped segs \<le> m"
    "\<forall>s \<in> set segs. CHR ''/'' \<notin> set s"
  shows "list_all is_name (rebase_loop kept segs) \<and> leads_to dir (rebase_loop kept segs) = leads_to (leads_to dir kept) segs"
  using assms
proof (induction segs arbitrary: kept depth escaped)
  case (Cons s segs)
  consider "s = [] \<or> s = ''.''" | "s = ''..''" | "is_name s" using Cons.prems(4) by (auto simp: is_name_def)
  then show ?case
  proof cases
    case 1
    then show ?thesis using Cons.IH[of kept escaped depth] Cons.prems by (auto simp: enter_segment_def)
  next
    case 2
    have "escaped \<le> m" using Cons.prems(3) escape_loop_mono order_trans by blast
    moreover have "escaped < m \<or> 0 < depth"
      using Cons.prems(3) 2 escape_loop_mono[of "escaped + 1" depth segs] by (cases "depth = 0") auto
    ultimately have ne: "kept \<noteq> []" using Cons.prems(2) by auto
    then have "last kept \<noteq> ''..''" using Cons.prems(1) by (auto simp: list_all_iff is_name_def)
    moreover have "list_all is_name (butlast kept)" using Cons.prems(1) by (auto simp: list_all_iff dest: in_set_butlastD)
    moreover have "length (butlast kept) + (escaped + 1) = m + depth" using ne Cons.prems(2) by (cases kept) auto
    moreover have "length (butlast kept) + escaped = m + (depth - 1)" if "depth \<noteq> 0"
      using ne Cons.prems(2) that by (cases kept) auto
    ultimately show ?thesis
      using 2 ne Cons.prems(3,4) Cons.IH[of "butlast kept" "escaped + 1" depth] Cons.IH[of "butlast kept" escaped "depth - 1"]
        leads_to_butlast[OF ne Cons.prems(1), of dir]
      by (cases "depth = 0") (auto simp: enter_segment_def)
  next
    case 3
    then show ?thesis using Cons.IH[of "kept @ [s]" escaped "depth + 1"] Cons.prems
      by (auto simp: enter_segment_def is_name_def)
  qed
qed simp

lemma rebase_loop_names: "list_all is_name names \<Longrightarrow> rebase_loop kept (names @ segs) = rebase_loop (kept @ names) segs"
  by (induction names arbitrary: kept) (auto simp: is_name_def)

lemma pattern_segments_free: "s \<in> set (pattern_segments pat) \<Longrightarrow> CHR ''/'' \<notin> set s"
  unfolding pattern_segments_def by (rule split_on_pieces)

text \<open>
  C31. A pattern that climbs out of the configuration directory keeps its meaning when it is rewritten
  relative to an ancestor: if the way \<open>before\<close> from the ancestor down to the configuration directory is
  at least as long as the pattern climbs, the rewritten pattern takes no parent step, and from every
  place of the ancestor it leads where the written pattern leads from the configuration directory.
\<close>

theorem rebase_keeps_meaning:
  assumes "names \<noteq> []" "list_all is_name names" "escaping_depth pat \<le> length names"
  shows "''..'' \<notin> set (segments (rebase_pattern (join_with ''/'' names) pat))
    \<and> leads_to dir (segments (rebase_pattern (join_with ''/'' names) pat)) = leads_to (rev names @ dir) (pattern_segments pat)"
proof -
  have split: "split_on (CHR ''/'') (join_with ''/'' names) = names"
    using assms(1,2) by (intro split_on_join) (auto simp: list_all_iff is_name_def)
  define kept where "kept = rebase_loop [] (names @ pattern_segments pat)"
  have names: "leads_to dir names = rev names @ dir"
    using assms(2) by (induction names rule: rev_induct) (auto simp: enter_segment_def is_name_def)
  have k: "list_all is_name kept \<and> leads_to dir kept = leads_to (leads_to dir names) (pattern_segments pat)"
    unfolding kept_def rebase_loop_names[OF assms(2)] append_Nil
    using rebase_loop_meaning[of names 0 "length names" 0 "pattern_segments pat" dir] assms(2,3) pattern_segments_free
    by (simp add: escaping_depth_def)
  have "segments (join_with ''/'' kept) = (if kept = [] then [[]] else kept)"
    using k by (auto simp: list_all_iff is_name_def segments_def intro!: split_on_join)
  then have segs: "segments (rebase_pattern (join_with ''/'' names) pat) = (if kept = [] then [[]] else kept)"
    by (simp only: rebase_pattern_def split kept_def)
  have "''..'' \<notin> set kept" using k by (auto simp: list_all_iff is_name_def)
  moreover have "leads_to dir kept = leads_to (rev names @ dir) (pattern_segments pat)" using k names by simp
  ultimately show ?thesis unfolding segs by (cases "kept = []") (simp_all add: enter_segment_def)
qed

theorem rebase_keeps_meaning_witness:
  "rebase_pattern ''pkgs/app'' ''../shared/./*/../**/*'' = ''pkgs/shared/**/*''
   \<and> leads_to [''repo''] (segments ''pkgs/shared/**/*'') = leads_to [''app'', ''pkgs'', ''repo''] (pattern_segments ''../shared/./*/../**/*'')"
proof -
  have r: "rebase_pattern ''pkgs/app'' ''../shared/./*/../**/*'' = ''pkgs/shared/**/*''" by code_simp
  have j: "join_with ''/'' [''pkgs'', ''app''] = ''pkgs/app''" by code_simp
  have depth: "escaping_depth ''../shared/./*/../**/*'' \<le> length [''pkgs'', ''app'']" by code_simp
  have names: "[''pkgs'', ''app''] \<noteq> []" "list_all is_name [''pkgs'', ''app'']" by (simp_all add: is_name_def)
  show ?thesis
    using rebase_keeps_meaning[OF names depth, of "[''repo'']"] unfolding j r by (simp only: rev.simps append_Nil append_Cons simp_thms)
qed

section \<open>Pruned dot directories\<close>

text \<open>
  What \<open>filter_entry\<close> promises: the walk yields the entries of the tree, in order, for which the filter
  accepts the entry and every directory upper it down from the root of the walk. \<open>upper\<close> lists those.
\<close>

definition walker_laws :: "(rstr \<Rightarrow> (dir_entry \<Rightarrow> bool) \<Rightarrow> dir_entry list) \<Rightarrow> (rstr \<Rightarrow> dir_entry \<Rightarrow> dir_entry list) \<Rightarrow> bool" where
  "walker_laws walk upper \<longleftrightarrow>
     (\<forall>root keep. walk root keep = filter (\<lambda>e. list_all keep (upper root e)) (walk root (\<lambda>_. True)))
     \<and> (\<forall>root e a. a \<in> set (upper root e) \<longrightarrow>
          take (length (components (dir_entry_path a))) (components (dir_entry_path e)) = components (dir_entry_path a))"

lemma strip_base_Some: "strip_base base path = Some relative \<longleftrightarrow> components path = components base @ relative"
  unfolding strip_base_def Let_def by (metis (no_types, lifting) append_eq_conv_conj append_take_drop_id option.distinct(1) option.inject)

lemma hidden_not_visible:
  assumes "relative = up @ rest" "up \<noteq> []" "is_hidden (last up)" "d \<le> length up - 1"
  shows "\<not> wildcard_segments_are_visible relative d"
proof -
  have "last up \<in> set (drop d up)" using assms(2,4) by (metis drop_eq_Nil last_drop last_in_set leD diff_less length_greater_0_conv
        less_numeral_extra(1) order_le_less_trans)
  then show ?thesis using assms(1,3) by (auto simp: wildcard_segments_are_visible_def list_all_iff)
qed

text \<open>No entry below an unreachable dot directory is taken.\<close>

lemma nothing_below_dot_directory:
  assumes dot: "is_unreachable_dot_directory a base_dir depths roots"
    and upper: "take (length (components (dir_entry_path a))) (components (dir_entry_path e)) = components (dir_entry_path a)"
    and lens: "length depths = length globs"
  shows "\<not> takes_entry g base_dir allow_js (Some globs) depths roots e"
proof -
  obtain up where up: "strip_base base_dir (dir_entry_path a) = Some up" "up \<noteq> []" "is_hidden (last up)"
    "\<not> list_ex (\<lambda>d. length up - 1 < d) depths" "\<not> list_ex (\<lambda>root. length up - 1 < length root) roots"
    using dot by (auto simp: is_unreachable_dot_directory_def Let_def split: if_splits option.splits)
  obtain rest where rest: "components (dir_entry_path e) = components base_dir @ up @ rest"
    using upper up(1) unfolding strip_base_Some by (metis append_take_drop_id append.assoc)
  have hidden: "\<not> wildcard_segments_are_visible (up @ rest) d" if "d \<le> length up - 1" for d
    using hidden_not_visible[OF refl up(2,3) that] .
  have "\<not> included g (Some globs) depths roots (up @ rest)"
  proof -
    have "\<not> wildcard_segments_are_visible (up @ rest) (depths ! i)" if "i < length globs" for i
      using hidden[of "depths ! i"] up(4) that lens by (simp add: list_ex_iff not_less)
    moreover have "\<not> wildcard_segments_are_visible (up @ rest) (length root)" if "root \<in> set roots" for root
      using hidden[of "length root"] up(5) that by (simp add: list_ex_iff not_less)
    ultimately show ?thesis by (auto simp: included_def is_under_any_include_root_def list_ex_iff)
  qed
  then show ?thesis using rest strip_base_Some[of base_dir "dir_entry_path e" "up @ rest"] by (simp add: takes_entry_def)
qed

text \<open>
  C32. Pruning the dot directories that no include pattern can reach is a pure saving: with an include set,
  the files found are those of the walk that skips the excluded entries only.
\<close>

theorem dot_pruning_changes_nothing:
  assumes "walker_laws walk upper" "length include_depths = length globs"
  shows "walk_files walk h g base_dir walk_roots allow_js exclude_set (Some globs) include_depths include_roots =
    sort_paths (map (\<lambda>entry. canonicalize h (dir_entry_path entry))
       (concat (map (\<lambda>root. filter (takes_entry g base_dir allow_js (Some globs) include_depths include_roots)
           (walk root (\<lambda>entry. \<not> should_prune g (dir_entry_path entry) base_dir exclude_set))) walk_roots)))"
proof -
  let ?takes = "takes_entry g base_dir allow_js (Some globs) include_depths include_roots"
  let ?descends = "descends g base_dir exclude_set include_depths include_roots"
  let ?unpruned = "\<lambda>entry. \<not> should_prune g (dir_entry_path entry) base_dir exclude_set"
  have "filter ?takes (walk root ?descends) = filter ?takes (walk root ?unpruned)" for root
  proof -
    have w: "walk root keep = filter (\<lambda>e. list_all keep (upper root e)) (walk root (\<lambda>_. True))" for keep
      using assms(1) unfolding walker_laws_def by blast
    have "?descends a = ?unpruned a" if "?takes e" "a \<in> set (upper root e)" for e a
    proof -
      have "take (length (components (dir_entry_path a))) (components (dir_entry_path e)) = components (dir_entry_path a)"
        using assms(1) that(2) unfolding walker_laws_def by blast
      then show ?thesis using nothing_below_dot_directory[OF _ _ assms(2)] that(1) unfolding descends_def by blast
    qed
    then have "?takes e \<Longrightarrow> list_all ?descends (upper root e) = list_all ?unpruned (upper root e)" for e
      unfolding list_all_iff by blast
    then show ?thesis unfolding w[of ?descends] w[of ?unpruned] filter_filter by (intro filter_cong refl) metis
  qed
  then show ?thesis by (simp add: walk_files_def)
qed

definition demo_entry :: "rstr \<Rightarrow> bool \<Rightarrow> dir_entry" where
  "demo_entry path dir = \<lparr>dir_entry_path = path, entry_is_dir = dir, entry_is_file = \<not> dir\<rparr>"

definition demo_upper :: "dir_entry \<Rightarrow> dir_entry list" where
  "demo_upper e = (if dir_entry_path e = ''/p/.git/a.ts'' then [demo_entry ''/p/.git'' True, e] else [e])"

definition demo_walk :: "rstr \<Rightarrow> (dir_entry \<Rightarrow> bool) \<Rightarrow> dir_entry list" where
  "demo_walk root keep = filter (\<lambda>e. list_all keep (demo_upper e))
     [demo_entry ''/p/.git'' True, demo_entry ''/p/.git/a.ts'' False, demo_entry ''/p/b.ts'' False]"

definition demo_glob_lib :: glob_lib where
  "demo_glob_lib = \<lparr>glob_error = (\<lambda>_. None), set_error = (\<lambda>_. None), glob_matches = (\<lambda>pat _. pat = ''**/*'')\<rparr>"

theorem dot_pruning_changes_nothing_witness:
  "walk_files demo_walk (demo_config_host\<lparr>canonicalize := (\<lambda>p. p)\<rparr>) demo_glob_lib ''/p'' [''/p''] False None (Some [''**/*'']) [0] []
     = [''/p/b.ts'']
   \<and> sort_paths (map dir_entry_path (filter (takes_entry demo_glob_lib ''/p'' False (Some [''**/*'']) [0] [])
       (demo_walk ''/p'' (\<lambda>entry. \<not> should_prune demo_glob_lib (dir_entry_path entry) ''/p'' None)))) = [''/p/b.ts'']"
proof -
  have "components ''/p/.git/a.ts'' = components ''/p/.git'' @ [Normal ''a.ts'']" by code_simp
  then have laws: "walker_laws demo_walk (\<lambda>_. demo_upper)"
    by (auto simp: walker_laws_def demo_walk_def demo_upper_def demo_entry_def)
  have run: "walk_files demo_walk (demo_config_host\<lparr>canonicalize := (\<lambda>p. p)\<rparr>) demo_glob_lib ''/p'' [''/p''] False None (Some [''**/*'']) [0] []
     = [''/p/b.ts'']" by code_simp
  from dot_pruning_changes_nothing[OF laws, of "[0]" "[''**/*'']"
      "demo_config_host\<lparr>canonicalize := (\<lambda>p. p)\<rparr>" demo_glob_lib "''/p''" "[''/p'']" False None "[]"] run
  show ?thesis by simp
qed

end
