(* ===== verification/Identity.thy ===== *)
theory Identity
  imports Unions
begin

text \<open>
  The identity relation of types (\<open>crates/surge-ts-types/src/identity.rs\<close>), which every redeclaration of
  a \<open>var\<close> must meet, with the helpers it reads: the minimal length of a tuple (\<open>ty.rs\<close>), the wrappers of
  readonly arrays and written tuples (\<open>reference.rs\<close>), and the names a signature declares as its type
  parameters (\<open>function.rs\<close>).

  \<^item> Peeling a reference resolves it until the result is no reference; on a cyclic resolver the source
    recurses forever. These functions are partial, with \<open>None\<close> for a call that does not return, and the
    relation threads that through in the order of the source, short circuits included.
  \<^item> The record \<open>identity_world\<close> holds what the relation reads besides the types: the methods of references,
    the two flags of the thread, and the builder of unions.
\<close>

section \<open>Type parameters of a signature\<close>

text \<open>
  \<open>str::split_whitespace\<close> skips the whitespace at both ends, so the \<open>trim\<close> in front of it has no effect
  and is left out. The first argument of the loop is the current word.
\<close>

function whitespace_words :: "rstr \<Rightarrow> rstr \<Rightarrow> rstr list" where
  "whitespace_words word [] = (if word = [] then [] else [word])"
| "whitespace_words word (c # s) =
     (case leading_ws whitespace_chars (c # s) of
        None \<Rightarrow> whitespace_words (word @ [c]) s
      | Some w \<Rightarrow> (if word = [] then [] else [word]) @ whitespace_words [] (drop (length w - 1) s))"
  by pat_completeness auto
termination by (relation "measure (\<lambda>(word, s). length s)") auto

definition declared_name :: "rstr \<Rightarrow> rstr" where
  "declared_name item =
     (case find (\<lambda>word. word \<notin> {''const'', ''in'', ''out''}) (whitespace_words [] item) of Some name \<Rightarrow> name | None \<Rightarrow> [])"

definition pushed_name :: "rstr \<Rightarrow> rstr list" where
  "pushed_name item = (if declared_name item = [] then [] else [declared_name item])"

text \<open>The loop over the bytes of the rendered list; the second argument is the item since \<open>start\<close>.\<close>

fun head_names :: "int \<Rightarrow> rstr \<Rightarrow> rstr \<Rightarrow> rstr list" where
  "head_names depth item [] = (if depth \<le> 0 then pushed_name item else [])"
| "head_names depth item (c # cs) =
     (if c \<in> set ''<([{'' then head_names (depth + 1) (item @ [c]) cs
      else if c \<in> set ''>)]}'' then head_names (depth - 1) (item @ [c]) cs
      else if c = CHR '','' \<and> depth \<le> 0 then pushed_name item @ head_names depth [] cs
      else head_names depth (item @ [c]) cs)"

definition type_parameter_names :: "rstr option \<Rightarrow> rstr list" where
  "type_parameter_names head = (case head of None \<Rightarrow> [] | Some text \<Rightarrow> head_names 0 [] text)"

section \<open>Tuples and their wrappers\<close>

definition may_be_absent :: "ty \<Rightarrow> bool" where
  "may_be_absent element =
     (case element of
        UndefinedT \<Rightarrow> True
      | UnionT u \<Rightarrow> list_ex (\<lambda>m. type_eq m UndefinedT) (union_types u)
      | _ \<Rightarrow> False)"

definition tuple_min_length :: "ty list \<Rightarrow> nat" where
  "tuple_min_length elements = length elements - length (takeWhile may_be_absent (rev elements))"

definition READONLY_REFERENCE_ID :: rstr where
  "READONLY_REFERENCE_ID = CHR 0x00 # ''readonly''"

definition WRITTEN_TUPLE_REFERENCE_ID :: rstr where
  "WRITTEN_TUPLE_REFERENCE_ID = CHR 0x00 # ''tuple''"

definition is_readonly_array :: "type_reference \<Rightarrow> bool" where
  "is_readonly_array r = (reference_id r = READONLY_REFERENCE_ID)"

text \<open>\<open>str::parse::<usize>\<close>, on a 64-bit target.\<close>

definition parse_usize :: "rstr \<Rightarrow> nat option" where
  "parse_usize s =
     (let t = (case s of c # r \<Rightarrow> if c = CHR ''+'' then r else s | [] \<Rightarrow> [])
      in if t = [] \<or> \<not> list_all is_ascii_digit t then None
         else if decimal_value t < 2 ^ 64 then Some (nat (decimal_value t)) else None)"

definition written_tuple :: "type_reference \<Rightarrow> (ty list \<times> nat) option" where
  "written_tuple r =
     (if reference_id r \<noteq> WRITTEN_TUPLE_REFERENCE_ID then None
      else case arguments r of
             [TupleT elements, NumberLiteralT min_length] \<Rightarrow> map_option (\<lambda>n. (elements, n)) (parse_usize min_length)
           | _ \<Rightarrow> None)"

definition fixed_tuple_parts :: "ty \<Rightarrow> (ty list \<times> nat) option" where
  "fixed_tuple_parts t =
     (case t of
        TupleT elements \<Rightarrow> Some (elements, tuple_min_length elements)
      | ReferenceT r \<Rightarrow> written_tuple r
      | _ \<Rightarrow> None)"

section \<open>Peeling\<close>

partial_function (option) peeled :: "reference_methods \<Rightarrow> ty \<Rightarrow> ty option" where
  [code]: "peeled refs t = (case t of ReferenceT r \<Rightarrow> peeled refs (resolve refs r) | _ \<Rightarrow> Some t)"

partial_function (option) is_readonly_array_like :: "reference_methods \<Rightarrow> ty \<Rightarrow> bool option" where
  [code]: "is_readonly_array_like refs t =
     (case t of
        ReferenceT r \<Rightarrow> if is_readonly_array r then Some True else is_readonly_array_like refs (resolve refs r)
      | _ \<Rightarrow> Some False)"

partial_function (option) fixed_tuple_min_length :: "reference_methods \<Rightarrow> ty \<Rightarrow> nat option option" where
  [code]: "fixed_tuple_min_length refs t =
     (case t of
        ReferenceT r \<Rightarrow>
          (case written_tuple r of
             Some (_, min_length) \<Rightarrow> Some (Some min_length)
           | None \<Rightarrow> fixed_tuple_min_length refs (resolve refs r))
      | _ \<Rightarrow> Some (map_option snd (fixed_tuple_parts t)))"

section \<open>Conditions that may not return\<close>

definition and_then :: "bool option \<Rightarrow> bool option \<Rightarrow> bool option" where
  "and_then a b = (case a of None \<Rightarrow> None | Some x \<Rightarrow> if x then b else Some False)"

primrec all_of :: "('a \<Rightarrow> bool option) \<Rightarrow> 'a list \<Rightarrow> bool option" where
  "all_of p [] = Some True"
| "all_of p (x # xs) = and_then (p x) (all_of p xs)"

primrec any_of :: "('a \<Rightarrow> bool option) \<Rightarrow> 'a list \<Rightarrow> bool option" where
  "any_of p [] = Some False"
| "any_of p (x # xs) = (case p x of None \<Rightarrow> None | Some b \<Rightarrow> if b then Some True else any_of p xs)"

section \<open>The relation\<close>

record identity_world =
  world_references :: reference_methods
  strict_null_checks :: bool
  exact_optional_property_types :: bool
  world_union :: "ty list \<Rightarrow> union_handle"

definition MAX_DEPTH :: nat where
  "MAX_DEPTH = 16"

text \<open>The comparisons of parts take the comparison at the depth below as their first argument.\<close>

definition elements_identical :: "(ty \<Rightarrow> ty \<Rightarrow> bool option) \<Rightarrow> ty list \<Rightarrow> ty list \<Rightarrow> bool option" where
  "elements_identical same left right =
     and_then (Some (length left = length right)) (all_of (\<lambda>(l, r). same l r) (zip left right))"

definition members_identical :: "(ty \<Rightarrow> ty \<Rightarrow> bool option) \<Rightarrow> ty list \<Rightarrow> ty list \<Rightarrow> bool option" where
  "members_identical same left right =
     (let covers = (\<lambda>from to. all_of (\<lambda>m. any_of (\<lambda>other. same m other) to) from)
      in and_then (covers left right) (covers right left))"

definition optional_identical :: "(ty \<Rightarrow> ty \<Rightarrow> bool option) \<Rightarrow> ty option \<Rightarrow> ty option \<Rightarrow> bool option" where
  "optional_identical same left right =
     (case (left, right) of (None, None) \<Rightarrow> Some True | (Some l, Some r) \<Rightarrow> same l r | _ \<Rightarrow> Some False)"

definition signatures_identical :: "(ty \<Rightarrow> ty \<Rightarrow> bool option) \<Rightarrow> function_type \<Rightarrow> function_type \<Rightarrow> bool option" where
  "signatures_identical same left right =
     and_then (Some (length (parameters left) = length (parameters right)
                     \<and> is_variadic left = is_variadic right
                     \<and> required_parameter_count left = required_parameter_count right
                     \<and> length (type_parameter_names (type_parameter_head left))
                         = length (type_parameter_names (type_parameter_head right))))
       (and_then (all_of (\<lambda>(l, r). same l r) (zip (parameters left) (parameters right)))
         (same (return_type left) (return_type right)))"

definition optional_signatures_identical ::
    "(ty \<Rightarrow> ty \<Rightarrow> bool option) \<Rightarrow> function_type option \<Rightarrow> function_type option \<Rightarrow> bool option" where
  "optional_signatures_identical same left right =
     (case (left, right) of
        (None, None) \<Rightarrow> Some True
      | (Some l, Some r) \<Rightarrow> signatures_identical same l r
      | _ \<Rightarrow> Some False)"

definition member_type :: "identity_world \<Rightarrow> object_property \<Rightarrow> ty" where
  "member_type w p =
     (if optional p \<and> strict_null_checks w \<and> \<not> exact_optional_property_types w
      then union_type (strict_null_checks w) (world_union w) [property_ty p, UndefinedT]
      else property_ty p)"

definition properties_identical ::
    "identity_world \<Rightarrow> (ty \<Rightarrow> ty \<Rightarrow> bool option) \<Rightarrow> object_type \<Rightarrow> object_type \<Rightarrow> bool option" where
  "properties_identical w same left right =
     all_of (\<lambda>(name, p).
        case map_of (properties right) name of
          None \<Rightarrow> Some False
        | Some other \<Rightarrow>
            and_then (Some (optional p = optional other \<and> readonly p = readonly other \<and> restriction p = restriction other))
              (same (member_type w p) (member_type w other)))
       (properties left)"

definition objects_identical ::
    "identity_world \<Rightarrow> (ty \<Rightarrow> ty \<Rightarrow> bool option) \<Rightarrow> object_type \<Rightarrow> object_type \<Rightarrow> bool option" where
  "objects_identical w same left right =
     and_then (Some (length (properties left) = length (properties right)))
       (and_then (optional_identical same (string_index_type left) (string_index_type right))
         (and_then (optional_identical same (number_index_type left) (number_index_type right))
           (and_then (optional_signatures_identical same (call_signature left) (call_signature right))
             (and_then (optional_signatures_identical same (construct_signature left) (construct_signature right))
               (properties_identical w same left right)))))"

definition object_is_bare_call_signature :: "object_type \<Rightarrow> function_type option" where
  "object_is_bare_call_signature obj =
     (if properties obj = [] \<and> string_index_type obj = None \<and> number_index_type obj = None \<and> construct_signature obj = None
      then call_signature obj else None)"

definition function_object_identical :: "(ty \<Rightarrow> ty \<Rightarrow> bool option) \<Rightarrow> function_type \<Rightarrow> object_type \<Rightarrow> bool option" where
  "function_object_identical same f obj =
     (case object_is_bare_call_signature obj of None \<Rightarrow> Some False | Some signature \<Rightarrow> signatures_identical same f signature)"

definition boolean_union_identical :: "(ty \<Rightarrow> ty \<Rightarrow> bool option) \<Rightarrow> union_handle \<Rightarrow> bool option" where
  "boolean_union_identical same u = members_identical same [BooleanLiteralT False, BooleanLiteralT True] (union_types u)"

definition shapes_identical :: "identity_world \<Rightarrow> (ty \<Rightarrow> ty \<Rightarrow> bool option) \<Rightarrow> ty \<Rightarrow> ty \<Rightarrow> bool option" where
  "shapes_identical w same left right =
     (case left of
        UnionT u \<Rightarrow>
          (case right of
             UnionT v \<Rightarrow> members_identical same (union_types u) (union_types v)
           | BooleanT \<Rightarrow> boolean_union_identical same u
           | _ \<Rightarrow> Some False)
      | BooleanT \<Rightarrow> (case right of UnionT v \<Rightarrow> boolean_union_identical same v | _ \<Rightarrow> Some False)
      | ObjectT obj \<Rightarrow>
          (case right of
             ObjectT other \<Rightarrow> objects_identical w same obj other
           | FunctionT g \<Rightarrow> function_object_identical same g obj
           | _ \<Rightarrow> Some False)
      | FunctionT f \<Rightarrow>
          (case right of
             ObjectT other \<Rightarrow> function_object_identical same f other
           | FunctionT g \<Rightarrow> signatures_identical same f g
           | _ \<Rightarrow> Some False)
      | ArrayT e \<Rightarrow> (case right of ArrayT e' \<Rightarrow> same e e' | _ \<Rightarrow> Some False)
      | TupleT es \<Rightarrow> (case right of TupleT es' \<Rightarrow> elements_identical same es es' | _ \<Rightarrow> Some False)
      | OpenTupleT ls r ts \<Rightarrow>
          (case right of
             OpenTupleT ls' r' ts' \<Rightarrow>
               and_then (elements_identical same ls ls') (and_then (same r r') (elements_identical same ts ts'))
           | _ \<Rightarrow> Some False)
      | _ \<Rightarrow> Some False)"

definition identical_step :: "identity_world \<Rightarrow> (ty \<Rightarrow> ty \<Rightarrow> bool option) \<Rightarrow> ty \<Rightarrow> ty \<Rightarrow> bool option" where
  "identical_step w same left right =
     (let refs = world_references w
      in if type_eq left right then Some True
         else Option.bind (is_readonly_array_like refs left) (\<lambda>a.
              Option.bind (is_readonly_array_like refs right) (\<lambda>b.
              if a \<noteq> b then Some False
              else Option.bind (fixed_tuple_min_length refs left) (\<lambda>m.
                   Option.bind (fixed_tuple_min_length refs right) (\<lambda>n.
                   if m \<noteq> n then Some False
                   else Option.bind (peeled refs left) (\<lambda>l.
                        Option.bind (peeled refs right) (\<lambda>r.
                        if type_eq l r then Some True else shapes_identical w same l r)))))))"

primrec identical :: "identity_world \<Rightarrow> nat \<Rightarrow> ty \<Rightarrow> ty \<Rightarrow> bool option" where
  "identical w 0 = (\<lambda>left right. Some True)"
| "identical w (Suc depth) = identical_step w (identical w depth)"

definition is_type_identical_to :: "identity_world \<Rightarrow> ty \<Rightarrow> ty \<Rightarrow> bool option" where
  "is_type_identical_to w left right = identical w MAX_DEPTH left right"

end
