(* ===== verification/Identity_Laws.thy ===== *)
theory Identity_Laws
  imports Identity Union_Laws Type_Equality
begin

text \<open>
  Laws of the identity relation: it returns when peeling does, its depth bound approximates the
  coinductive relation from outside, it is symmetric, it does not see how a type was written, and the
  names of type parameters are read back from a rendered list.
\<close>

section \<open>When it returns\<close>

lemma and_then_Some [simp]: "and_then (Some a) (Some b) = Some (a \<and> b)"
  by (simp add: and_then_def)

lemma all_of_Some [simp]: "all_of (\<lambda>x. Some (P x)) xs = Some (list_all P xs)"
  by (induction xs) simp_all

lemma any_of_Some [simp]: "any_of (\<lambda>x. Some (P x)) xs = Some (list_ex P xs)"
  by (induction xs) simp_all

lemma peeled_reference [simp]: "peeled refs (ReferenceT r) = peeled refs (resolve refs r)"
  by (subst peeled.simps) simp

lemma peeled_other: "\<nexists>r. t = ReferenceT r \<Longrightarrow> peeled refs t = Some t"
  by (subst peeled.simps) (cases t; simp)

text \<open>A call that peels ends at a type that is no reference; so do the two walks beside it.\<close>

lemma peeled_Some:
  assumes "peeled refs t = Some s"
  shows "(\<nexists>r. s = ReferenceT r) \<and> is_readonly_array_like refs t \<noteq> None \<and> fixed_tuple_min_length refs t \<noteq> None"
  using assms
proof (rule peeled.raw_induct[where P = "\<lambda>refs t s. (\<nexists>r. s = ReferenceT r) \<and> is_readonly_array_like refs t \<noteq> None
    \<and> fixed_tuple_min_length refs t \<noteq> None", rotated])
  fix peeled' refs t s
  assume step: "(case t of ReferenceT r \<Rightarrow> peeled' refs (resolve refs r) | _ \<Rightarrow> Some t) = Some s"
    and IH: "\<And>refs t s. peeled' refs t = Some s \<Longrightarrow> (\<nexists>r. s = ReferenceT r) \<and> is_readonly_array_like refs t \<noteq> None
      \<and> fixed_tuple_min_length refs t \<noteq> None"
  show "(\<nexists>r. s = ReferenceT r) \<and> is_readonly_array_like refs t \<noteq> None \<and> fixed_tuple_min_length refs t \<noteq> None"
  proof (cases "\<exists>r. t = ReferenceT r")
    case True
    then obtain r where r: "t = ReferenceT r" by blast
    show ?thesis using step IH[of refs "resolve refs r" s] unfolding r
      by (subst is_readonly_array_like.simps, subst fixed_tuple_min_length.simps) (auto split: option.splits)
  next
    case False
    then show ?thesis using step
      by (subst is_readonly_array_like.simps, subst fixed_tuple_min_length.simps) (cases t; auto)
  qed
qed

definition peels :: "identity_world \<Rightarrow> bool" where
  "peels w \<longleftrightarrow> (\<forall>r. peeled (world_references w) (ReferenceT r) \<noteq> None)"

lemma peels_Some: "peels w \<Longrightarrow> \<exists>s. peeled (world_references w) t = Some s"
  by (cases "\<exists>r. t = ReferenceT r") (auto simp: peels_def peeled_other simp del: peeled_reference)

section \<open>The relation it approximates\<close>

text \<open>What must agree about the wrappers of the two types before they are peeled.\<close>

definition same_wrapping :: "identity_world \<Rightarrow> ty \<Rightarrow> ty \<Rightarrow> bool" where
  "same_wrapping w left right \<longleftrightarrow>
     is_readonly_array_like (world_references w) left = is_readonly_array_like (world_references w) right
     \<and> fixed_tuple_min_length (world_references w) left = fixed_tuple_min_length (world_references w) right"

definition covers :: "(ty \<Rightarrow> ty \<Rightarrow> bool) \<Rightarrow> ty list \<Rightarrow> ty list \<Rightarrow> bool" where
  "covers R from to \<longleftrightarrow> (\<forall>m \<in> set from. \<exists>other \<in> set to. R m other)"

definition same_signature :: "(ty \<Rightarrow> ty \<Rightarrow> bool) \<Rightarrow> function_type \<Rightarrow> function_type \<Rightarrow> bool" where
  "same_signature R f g \<longleftrightarrow>
     list_all2 R (parameters f) (parameters g) \<and> R (return_type f) (return_type g)
     \<and> is_variadic f = is_variadic g \<and> required_parameter_count f = required_parameter_count g
     \<and> length (type_parameter_names (type_parameter_head f)) = length (type_parameter_names (type_parameter_head g))"

definition same_member :: "identity_world \<Rightarrow> (ty \<Rightarrow> ty \<Rightarrow> bool) \<Rightarrow> object_property \<Rightarrow> object_property \<Rightarrow> bool" where
  "same_member w R p q \<longleftrightarrow>
     optional p = optional q \<and> readonly p = readonly q \<and> restriction p = restriction q
     \<and> R (member_type w p) (member_type w q)"

definition same_object :: "identity_world \<Rightarrow> (ty \<Rightarrow> ty \<Rightarrow> bool) \<Rightarrow> object_type \<Rightarrow> object_type \<Rightarrow> bool" where
  "same_object w R obj other \<longleftrightarrow>
     length (properties obj) = length (properties other)
     \<and> (\<forall>(name, p) \<in> set (properties obj). \<exists>q. map_of (properties other) name = Some q \<and> same_member w R p q)
     \<and> rel_option R (string_index_type obj) (string_index_type other)
     \<and> rel_option R (number_index_type obj) (number_index_type other)
     \<and> rel_option (same_signature R) (call_signature obj) (call_signature other)
     \<and> rel_option (same_signature R) (construct_signature obj) (construct_signature other)"

text \<open>Types that are no references, with parts related by \<open>R\<close>.\<close>

inductive same_shape :: "identity_world \<Rightarrow> (ty \<Rightarrow> ty \<Rightarrow> bool) \<Rightarrow> ty \<Rightarrow> ty \<Rightarrow> bool" for w R where
  unions: "covers R (union_types u) (union_types v) \<Longrightarrow> covers R (union_types v) (union_types u)
    \<Longrightarrow> same_shape w R (UnionT u) (UnionT v)"
| boolean_union: "covers R [BooleanLiteralT False, BooleanLiteralT True] (union_types u)
    \<Longrightarrow> covers R (union_types u) [BooleanLiteralT False, BooleanLiteralT True] \<Longrightarrow> same_shape w R BooleanT (UnionT u)"
| union_boolean: "covers R [BooleanLiteralT False, BooleanLiteralT True] (union_types u)
    \<Longrightarrow> covers R (union_types u) [BooleanLiteralT False, BooleanLiteralT True] \<Longrightarrow> same_shape w R (UnionT u) BooleanT"
| objects: "same_object w R obj other \<Longrightarrow> same_shape w R (ObjectT obj) (ObjectT other)"
| function_object: "object_is_bare_call_signature obj = Some g \<Longrightarrow> same_signature R f g
    \<Longrightarrow> same_shape w R (FunctionT f) (ObjectT obj)"
| object_function: "object_is_bare_call_signature obj = Some g \<Longrightarrow> same_signature R f g
    \<Longrightarrow> same_shape w R (ObjectT obj) (FunctionT f)"
| signatures: "same_signature R f g \<Longrightarrow> same_shape w R (FunctionT f) (FunctionT g)"
| arrays: "R e e' \<Longrightarrow> same_shape w R (ArrayT e) (ArrayT e')"
| tuples: "list_all2 R es es' \<Longrightarrow> same_shape w R (TupleT es) (TupleT es')"
| open_tuples: "list_all2 R ls ls' \<Longrightarrow> R r r' \<Longrightarrow> list_all2 R ts ts' \<Longrightarrow> same_shape w R (OpenTupleT ls r ts) (OpenTupleT ls' r' ts')"

inductive_simps same_shape_simps [simp]:
  "same_shape w R (UnionT u) t" "same_shape w R BooleanT t" "same_shape w R (ObjectT obj) t" "same_shape w R (FunctionT f) t"
  "same_shape w R (ArrayT e) t" "same_shape w R (TupleT es) t" "same_shape w R (OpenTupleT ls r ts) t"

lemma covers_mono: "(\<And>x y. R x y \<longrightarrow> S x y) \<Longrightarrow> covers R xs ys \<longrightarrow> covers S xs ys"
  unfolding covers_def by blast

lemma same_signature_mono: "(\<And>x y. R x y \<longrightarrow> S x y) \<Longrightarrow> same_signature R f g \<longrightarrow> same_signature S f g"
  by (auto simp: same_signature_def elim: list_all2_mono)

lemma same_object_mono:
  assumes RS: "\<And>x y. R x y \<longrightarrow> S x y"
  shows "same_object w R obj other \<longrightarrow> same_object w S obj other"
proof -
  have "rel_option R x y \<Longrightarrow> rel_option S x y" for x y using RS by (auto elim: option.rel_mono_strong)
  moreover have "rel_option (same_signature R) x y \<Longrightarrow> rel_option (same_signature S) x y" for x y
    using same_signature_mono[OF RS] by (auto elim: option.rel_mono_strong)
  ultimately show ?thesis using RS unfolding same_object_def same_member_def by fastforce
qed

lemma same_shape_mono [mono]:
  assumes RS: "\<And>x y. R x y \<longrightarrow> S x y"
  shows "same_shape w R left right \<longrightarrow> same_shape w S left right"
proof
  have l: "list_all2 R xs ys \<Longrightarrow> list_all2 S xs ys" for xs ys using RS by (auto elim: list_all2_mono)
  note related = covers_mono[OF RS, rule_format] same_signature_mono[OF RS, rule_format] same_object_mono[OF RS, rule_format] RS[rule_format] l
  assume "same_shape w R left right"
  then show "same_shape w S left right" by cases (auto intro: related)
qed

text \<open>
  Two types are the same when they are equal, or peel to equal types or to types of the same shape with
  the same parts; the relation is coinductive, so a cycle of comparisons holds.
\<close>

coinductive same_type :: "identity_world \<Rightarrow> ty \<Rightarrow> ty \<Rightarrow> bool" for w where
  equal: "type_eq left right \<Longrightarrow> same_type w left right"
| peeled_equal: "same_wrapping w left right \<Longrightarrow> peeled (world_references w) left = Some l
    \<Longrightarrow> peeled (world_references w) right = Some r \<Longrightarrow> type_eq l r \<Longrightarrow> same_type w left right"
| peeled_shape: "same_wrapping w left right \<Longrightarrow> peeled (world_references w) left = Some l
    \<Longrightarrow> peeled (world_references w) right = Some r \<Longrightarrow> same_shape w (same_type w) l r \<Longrightarrow> same_type w left right"

section \<open>The code computes the bounded relation\<close>

lemma all_of_pairs [simp]: "all_of (\<lambda>(l, r). Some (R l r)) ps = Some (list_all (\<lambda>(l, r). R l r) ps)"
  by (induction ps) auto

lemma elements_identical_Some [simp]: "elements_identical (\<lambda>x y. Some (R x y)) xs ys = Some (list_all2 R xs ys)"
  by (auto simp: elements_identical_def list_all2_iff list_all_iff)

lemma members_identical_Some [simp]: "members_identical (\<lambda>x y. Some (R x y)) xs ys = Some (covers R xs ys \<and> covers R ys xs)"
  by (simp add: members_identical_def covers_def list_all_iff list_ex_iff)

lemma optional_identical_Some [simp]: "optional_identical (\<lambda>x y. Some (R x y)) x y = Some (rel_option R x y)"
  by (cases x; cases y) (simp_all add: optional_identical_def)

lemma signatures_identical_Some [simp]: "signatures_identical (\<lambda>x y. Some (R x y)) f g = Some (same_signature R f g)"
  by (auto simp: signatures_identical_def same_signature_def list_all2_iff list_all_iff)

lemma optional_signatures_identical_Some [simp]:
  "optional_signatures_identical (\<lambda>x y. Some (R x y)) x y = Some (rel_option (same_signature R) x y)"
  by (cases x; cases y) (simp_all add: optional_signatures_identical_def)

lemma properties_identical_Some [simp]:
  "properties_identical w (\<lambda>x y. Some (R x y)) obj other =
     Some (\<forall>(name, p) \<in> set (properties obj). \<exists>q. map_of (properties other) name = Some q \<and> same_member w R p q)"
proof -
  have "(\<lambda>(name, p). case map_of (properties other) name of
          None \<Rightarrow> Some False
        | Some q \<Rightarrow>
            and_then (Some (optional p = optional q \<and> readonly p = readonly q \<and> restriction p = restriction q))
              (Some (R (member_type w p) (member_type w q))))
      = (\<lambda>x. Some (case x of (name, p) \<Rightarrow> \<exists>q. map_of (properties other) name = Some q \<and> same_member w R p q))"
    by (intro ext) (auto simp: same_member_def split: option.split)
  then show ?thesis unfolding properties_identical_def by (simp add: list_all_iff split_beta)
qed

lemma objects_identical_Some [simp]: "objects_identical w (\<lambda>x y. Some (R x y)) obj other = Some (same_object w R obj other)"
  by (auto simp: objects_identical_def same_object_def)

lemma function_object_identical_Some [simp]:
  "function_object_identical (\<lambda>x y. Some (R x y)) f obj =
     Some (\<exists>g. object_is_bare_call_signature obj = Some g \<and> same_signature R f g)"
  by (simp add: function_object_identical_def split: option.split)

lemma boolean_union_identical_Some [simp]:
  "boolean_union_identical (\<lambda>x y. Some (R x y)) u =
     Some (covers R [BooleanLiteralT False, BooleanLiteralT True] (union_types u)
       \<and> covers R (union_types u) [BooleanLiteralT False, BooleanLiteralT True])"
  by (simp add: boolean_union_identical_def)

lemma same_shape_other:
  assumes "left \<in> {StringT, NumberT, BigIntT, SymbolT, UndefinedT, NullT, VoidT, AnyT, UnknownT, GenuineUnknownT, ErrorT, NeverT}
    \<or> (\<exists>n owner. left = TypeParameterT n owner) \<or> (\<exists>s. left = StringLiteralT s) \<or> (\<exists>s. left = NumberLiteralT s)
    \<or> (\<exists>b. left = BooleanLiteralT b) \<or> (\<exists>r. left = ReferenceT r)"
  shows "\<not> same_shape w R left right"
  using assms by (auto elim: same_shape.cases)

lemma shapes_identical_Some: "shapes_identical w (\<lambda>x y. Some (R x y)) left right = Some (same_shape w R left right)"
  by (cases left) (auto simp: shapes_identical_def same_shape_other split: ty.split)

definition same_step :: "identity_world \<Rightarrow> (ty \<Rightarrow> ty \<Rightarrow> bool) \<Rightarrow> ty \<Rightarrow> ty \<Rightarrow> bool" where
  "same_step w R left right \<longleftrightarrow>
     type_eq left right
     \<or> (\<exists>l r. same_wrapping w left right \<and> peeled (world_references w) left = Some l
          \<and> peeled (world_references w) right = Some r \<and> (type_eq l r \<or> same_shape w R l r))"

primrec bounded :: "identity_world \<Rightarrow> nat \<Rightarrow> ty \<Rightarrow> ty \<Rightarrow> bool" where
  "bounded w 0 = (\<lambda>_ _. True)"
| "bounded w (Suc depth) = same_step w (bounded w depth)"

lemma identical_step_Some:
  assumes "peels w"
  shows "identical_step w (\<lambda>x y. Some (R x y)) left right = Some (same_step w R left right)"
proof -
  obtain l r where p: "peeled (world_references w) left = Some l" "peeled (world_references w) right = Some r"
    using peels_Some[OF assms] by blast
  obtain a b m n where d: "is_readonly_array_like (world_references w) left = Some a" "is_readonly_array_like (world_references w) right = Some b"
    "fixed_tuple_min_length (world_references w) left = Some m" "fixed_tuple_min_length (world_references w) right = Some n"
    using peeled_Some[OF p(1)] peeled_Some[OF p(2)] by auto
  show ?thesis
    by (auto simp: identical_step_def same_step_def same_wrapping_def p d shapes_identical_Some Let_def)
qed

lemma identical_bounded: "peels w \<Longrightarrow> identical w depth = (\<lambda>left right. Some (bounded w depth left right))"
  by (induction depth) (simp_all add: identical_step_Some ext)

section \<open>The limit of the bounds\<close>

lemma same_step_mono: "(\<And>x y. R x y \<longrightarrow> S x y) \<Longrightarrow> same_step w R left right \<Longrightarrow> same_step w S left right"
  using same_shape_mono[of R S] unfolding same_step_def by blast

lemma bounded_Suc: "bounded w (Suc depth) left right \<Longrightarrow> bounded w depth left right"
  by (induction depth arbitrary: left right) (auto intro: same_step_mono)

text \<open>A decreasing sequence of relations commutes with the shapes, because a type has finitely many parts.\<close>

definition decreasing :: "(nat \<Rightarrow> 'a \<Rightarrow> 'a \<Rightarrow> bool) \<Rightarrow> bool" where
  "decreasing B \<longleftrightarrow> (\<forall>d x y. B (Suc d) x y \<longrightarrow> B d x y)"

lemma decreasing_le: "decreasing B \<Longrightarrow> d \<le> e \<Longrightarrow> B e x y \<Longrightarrow> B d x y"
  by (induction e) (auto simp: decreasing_def le_Suc_eq)

lemma covers_limit:
  assumes "decreasing B" "\<And>d. covers (B d) xs ys"
  shows "covers (\<lambda>x y. \<forall>d. B d x y) xs ys"
  unfolding covers_def
proof (intro ballI)
  fix m assume m: "m \<in> set xs"
  show "\<exists>other \<in> set ys. \<forall>d. B d m other"
  proof (rule ccontr)
    assume "\<not> (\<exists>other \<in> set ys. \<forall>d. B d m other)"
    then obtain f where f: "\<And>other. other \<in> set ys \<Longrightarrow> \<not> B (f other) m other" by metis
    obtain other where o: "other \<in> set ys" "B (Max (f ` set ys)) m other"
      using assms(2) m unfolding covers_def by blast
    then have "f other \<le> Max (f ` set ys)" by simp
    then show False using decreasing_le[OF assms(1) _ o(2)] f[OF o(1)] by blast
  qed
qed

lemma list_all2_limit: "(\<And>d. list_all2 (B d) xs ys) \<Longrightarrow> list_all2 (\<lambda>x y. \<forall>d. B d x y) xs ys"
  by (simp add: list_all2_conv_all_nth)

lemma rel_option_limit: "(\<And>d. rel_option (B d) x y) \<Longrightarrow> rel_option (\<lambda>x y. \<forall>d. B d x y) x y"
  by (cases x; cases y) auto

lemma same_signature_limit: "(\<And>d. same_signature (B d) f g) \<Longrightarrow> same_signature (\<lambda>x y. \<forall>d. B d x y) f g"
  using list_all2_limit[of B] by (simp add: same_signature_def)

lemma same_object_limit:
  assumes "\<And>d. same_object w (B d) obj other"
  shows "same_object w (\<lambda>x y. \<forall>d. B d x y) obj other"
proof -
  have sig: "rel_option (same_signature (\<lambda>x y. \<forall>d. B d x y)) x y" if "\<And>d. rel_option (same_signature (B d)) x y" for x y
    using that same_signature_limit[of B] by (cases x; cases y) auto
  have "\<exists>q. map_of (properties other) name = Some q \<and> same_member w (\<lambda>x y. \<forall>d. B d x y) p q"
    if "(name, p) \<in> set (properties obj)" for name p
  proof -
    have each: "\<exists>q. map_of (properties other) name = Some q \<and> same_member w (B d) p q" for d
      using assms[of d] that unfolding same_object_def by blast
    then obtain q where q: "map_of (properties other) name = Some q" by blast
    have "same_member w (B d) p q" for d using each[of d] q by simp
    then show ?thesis using q unfolding same_member_def by blast
  qed
  then show ?thesis
    using assms rel_option_limit[of B] unfolding same_object_def by (auto intro!: sig)
qed

lemma same_shape_limit:
  assumes dec: "decreasing B" and shape: "\<And>d. same_shape w (B d) left right"
  shows "same_shape w (\<lambda>x y. \<forall>d. B d x y) left right"
  using shape[of 0]
proof cases
  case (unions u v)
  then show ?thesis using shape by (auto intro: covers_limit[OF dec])
next
  case (boolean_union u)
  then show ?thesis using shape by (auto intro: covers_limit[OF dec])
next
  case (union_boolean u)
  then show ?thesis using shape by (auto intro: covers_limit[OF dec])
next
  case (objects obj other)
  then show ?thesis using shape by (auto intro: same_object_limit)
next
  case (function_object obj g f)
  then show ?thesis using shape by (auto intro: same_signature_limit)
next
  case (object_function obj g f)
  then show ?thesis using shape by (auto intro: same_signature_limit)
next
  case (signatures f g)
  then show ?thesis using shape by (auto intro: same_signature_limit)
qed (use shape in \<open>auto intro: list_all2_limit\<close>)

lemma same_type_bounded: "same_type w left right \<Longrightarrow> bounded w depth left right"
proof (induction depth arbitrary: left right)
  case (Suc depth)
  show ?case using Suc.prems same_shape_mono[of "same_type w" "bounded w depth"] Suc.IH
    by cases (auto simp: same_step_def)
qed simp

lemma bounded_post:
  assumes "\<forall>depth. bounded w depth left right"
  shows "type_eq left right
    \<or> (\<exists>l r. same_wrapping w left right \<and> peeled (world_references w) left = Some l \<and> peeled (world_references w) right = Some r
         \<and> (type_eq l r \<or> same_shape w (\<lambda>x y. (\<forall>depth. bounded w depth x y) \<or> same_type w x y) l r))"
proof (cases "type_eq left right")
  case False
  have step: "same_step w (bounded w depth) left right" for depth
    using spec[OF assms, of "Suc depth"] by simp
  obtain l r where p: "same_wrapping w left right" "peeled (world_references w) left = Some l" "peeled (world_references w) right = Some r"
    using step[of 0] False unfolding same_step_def by blast
  then have "type_eq l r \<or> (\<forall>depth. same_shape w (bounded w depth) l r)"
    using step False unfolding same_step_def by auto
  then have "type_eq l r \<or> same_shape w (\<lambda>x y. \<forall>depth. bounded w depth x y) l r"
    using same_shape_limit[of "bounded w"] bounded_Suc unfolding decreasing_def by blast
  then show ?thesis using p same_shape_mono[of "\<lambda>x y. \<forall>depth. bounded w depth x y"
      "\<lambda>x y. (\<forall>depth. bounded w depth x y) \<or> same_type w x y" w l r] by blast
qed simp

lemma bounded_same_type: "(\<And>depth. bounded w depth left right) \<Longrightarrow> same_type w left right"
  by (rule same_type.coinduct[where X = "\<lambda>l r. \<forall>depth. bounded w depth l r"], blast, drule bounded_post, blast)

text \<open>
  C33. The depth bound only approximates from outside: when every reference peels, the comparison returns,
  two types that are the same are identical at every depth, a pair that is refused at some depth is not
  the same, and what is identical at every depth is the same.
\<close>

theorem identity_depth_limit:
  assumes "\<And>r. peeled (world_references w) (ReferenceT r) \<noteq> None"
  shows "is_type_identical_to w left right \<noteq> None
    \<and> (same_type w left right \<longleftrightarrow> (\<forall>depth. identical w depth left right = Some True))"
proof -
  have "peels w" using assms unfolding peels_def by blast
  then have "identical w depth = (\<lambda>x y. Some (bounded w depth x y))" for depth by (rule identical_bounded)
  then show ?thesis using same_type_bounded bounded_same_type by (auto simp: is_type_identical_to_def)
qed

definition node :: "rstr \<Rightarrow> ty" where
  "node name = ReferenceT (TypeReference name name [])"

definition node_object :: "rstr \<Rightarrow> object_type" where
  "node_object name =
     ObjectType [(''next'', ObjectProperty (node name) False False False None False)] None None False False None None
       False False None 0 None None"

definition demo_world :: identity_world where
  "demo_world =
     \<lparr>world_references = \<lparr>is_unique_symbol = (\<lambda>_. False),
        resolve = (\<lambda>r. if reference_id r \<in> {''a'', ''b''} then ObjectT (node_object (reference_id r)) else NumberT)\<rparr>,
      strict_null_checks = True, exact_optional_property_types = False, world_union = owned_union\<rparr>"

lemma demo_world_peels: "peeled (world_references demo_world) (ReferenceT r) \<noteq> None"
  by (simp add: demo_world_def peeled_other)

text \<open>Two recursive interfaces of different names with the same members.\<close>

theorem identity_depth_limit_witness:
  "same_type demo_world (node ''a'') (node ''b'') \<and> identical demo_world 100 (node ''a'') (node ''b'') = Some True
   \<and> is_type_identical_to demo_world (ArrayT (node ''a'')) (ArrayT NumberT) = Some False"
proof -
  have p: "peeled (world_references demo_world) (node i) = Some (ObjectT (node_object i))" if "i \<in> {''a'', ''b''}" for i
    using that by (auto simp: demo_world_def node_def peeled_other)
  have wr: "same_wrapping demo_world (node ''a'') (node ''b'')" by code_simp
  have "same_type demo_world (node ''a'') (node ''b'')"
  proof (rule same_type.coinduct[where X = "\<lambda>l r. l = node ''a'' \<and> r = node ''b''"], simp, elim conjE)
    fix l r assume "l = node ''a''" "r = node ''b''"
    moreover have "same_object demo_world (\<lambda>x y. (x = node ''a'' \<and> y = node ''b'') \<or> same_type demo_world x y)
        (node_object ''a'') (node_object ''b'')"
      by (simp add: same_object_def node_object_def same_member_def member_type_def)
    ultimately show "(\<exists>left right. l = left \<and> r = right \<and> type_eq left right)
        \<or> (\<exists>left right la ra. l = left \<and> r = right \<and> same_wrapping demo_world left right
             \<and> peeled (world_references demo_world) left = Some la \<and> peeled (world_references demo_world) right = Some ra \<and> type_eq la ra)
        \<or> (\<exists>left right la ra. l = left \<and> r = right \<and> same_wrapping demo_world left right
             \<and> peeled (world_references demo_world) left = Some la \<and> peeled (world_references demo_world) right = Some ra
             \<and> same_shape demo_world (\<lambda>x y. (x = node ''a'' \<and> y = node ''b'') \<or> same_type demo_world x y) la ra)"
      using wr p by fastforce
  qed
  moreover have "is_type_identical_to demo_world (ArrayT (node ''a'')) (ArrayT NumberT) = Some False" by code_simp
  ultimately show ?thesis using identity_depth_limit[OF demo_world_peels, of "node ''a''" "node ''b''"] by blast
qed

section \<open>Symmetry\<close>

definition wf_world :: "identity_world \<Rightarrow> bool" where
  "wf_world w \<longleftrightarrow>
     (\<forall>r. wf_type (resolve (world_references w) r)) \<and> (\<forall>ts. list_all wf_type ts \<longrightarrow> wf_union (world_union w ts))"

lemma peeled_wf:
  assumes "peeled refs t = Some s"
  shows "(\<forall>r. wf_type (resolve refs r)) \<longrightarrow> wf_type t \<longrightarrow> wf_type s"
  using assms
  by (rule peeled.raw_induct[where P = "\<lambda>refs t s. (\<forall>r. wf_type (resolve refs r)) \<longrightarrow> wf_type t \<longrightarrow> wf_type s", rotated])
    (auto split: ty.splits)

lemma union_type_wf:
  assumes "wf_world w" "list_all wf_type types"
  shows "wf_type (union_type strict (world_union w) types)"
proof -
  have fl: "list_all wf_type (flatten_members types)" using assms(2) by (rule flatten_members_wf)
  have um: "list_all wf_type (union_members strict (flatten_members types))"
    using union_members_origin[OF fl, of strict] fl by (fastforce simp: list_all_iff)
  have "\<And>u. wf_union u \<Longrightarrow> wf_type (UnionT u)" by simp
  then show ?thesis using um assms(1)
    unfolding union_type_def wf_world_def Let_def by (auto split: list.split)
qed

lemma member_type_wf: "wf_world w \<Longrightarrow> wf_property p \<Longrightarrow> wf_type (member_type w p)"
  using union_type_wf[of w "[property_ty p, UndefinedT]"] wf_propertyD[of p] by (simp add: member_type_def)

lemma wf_parts:
  "wf_type (FunctionT f) \<Longrightarrow> list_all wf_type (parameters f) \<and> wf_type (return_type f)"
  "wf_object obj \<Longrightarrow> (k, p) \<in> set (properties obj) \<Longrightarrow> wf_property p"
  "wf_object obj \<Longrightarrow> pred_option wf_type (string_index_type obj) \<and> pred_option wf_type (number_index_type obj)
    \<and> pred_option wf_function (call_signature obj) \<and> pred_option wf_function (construct_signature obj)"
  by (cases f, simp) (cases obj, fastforce simp: list_all_iff)+

definition symmetric_on_wf :: "(ty \<Rightarrow> ty \<Rightarrow> bool) \<Rightarrow> bool" where
  "symmetric_on_wf R \<longleftrightarrow> (\<forall>x y. wf_type x \<longrightarrow> wf_type y \<longrightarrow> R x y \<longrightarrow> R y x)"

lemma list_all2_sym_wf:
  "symmetric_on_wf R \<Longrightarrow> list_all wf_type xs \<Longrightarrow> list_all wf_type ys \<Longrightarrow> list_all2 R xs ys \<Longrightarrow> list_all2 R ys xs"
  by (auto simp: symmetric_on_wf_def list_all2_conv_all_nth list_all_length)

lemma rel_option_sym_wf:
  "symmetric_on_wf R \<Longrightarrow> pred_option wf_type x \<Longrightarrow> pred_option wf_type y \<Longrightarrow> rel_option R x y \<Longrightarrow> rel_option R y x"
  by (cases x; cases y) (auto simp: symmetric_on_wf_def)

lemma same_signature_sym:
  "symmetric_on_wf R \<Longrightarrow> wf_function f \<Longrightarrow> wf_function g \<Longrightarrow> same_signature R f g \<Longrightarrow> same_signature R g f"
  using wf_parts(1)[of f] wf_parts(1)[of g] list_all2_sym_wf[of R "parameters f" "parameters g"]
  by (auto simp: same_signature_def symmetric_on_wf_def)

lemma signature_option_sym:
  "symmetric_on_wf R \<Longrightarrow> pred_option wf_function x \<Longrightarrow> pred_option wf_function y
    \<Longrightarrow> rel_option (same_signature R) x y \<Longrightarrow> rel_option (same_signature R) y x"
  by (cases x; cases y) (auto intro: same_signature_sym)

lemma same_object_sym:
  assumes sym: "symmetric_on_wf R" and w: "wf_world w" and wf: "wf_object obj" "wf_object other"
    and same: "same_object w R obj other"
  shows "same_object w R other obj"
proof -
  have len: "length (properties obj) = length (properties other)" using same by (simp add: same_object_def)
  have "\<forall>(name, p) \<in> set (properties obj). \<exists>q. map_of (properties other) name = Some q \<and> (same_member w R p q \<and> wf_property q)"
    using same wf_parts(2)[OF wf(2)] unfolding same_object_def by (blast dest: map_of_SomeD)
  then have "\<forall>(name, q) \<in> set (properties other). \<exists>p. map_of (properties obj) name = Some p \<and> same_member w R q p"
  proof (rule index_map_sym[OF len wf_object_keys[OF wf(1)]])
    fix name p q assume p: "(name, p) \<in> set (properties obj)" and q: "same_member w R p q \<and> wf_property q"
    have "wf_type (member_type w p)" "wf_type (member_type w q)"
      using member_type_wf[OF w] wf_parts(2)[OF wf(1) p] q by blast+
    then show "same_member w R q p" using q sym by (auto simp: same_member_def symmetric_on_wf_def)
  qed
  then show ?thesis
    using same len wf_parts(3)[OF wf(1)] wf_parts(3)[OF wf(2)] rel_option_sym_wf[OF sym] signature_option_sym[OF sym]
    unfolding same_object_def by simp
qed

lemma bare_call_wf: "wf_object obj \<Longrightarrow> object_is_bare_call_signature obj = Some g \<Longrightarrow> wf_function g"
  using wf_parts(3)[of obj] by (auto simp: object_is_bare_call_signature_def split: if_splits)

lemma same_shape_sym:
  assumes sym: "symmetric_on_wf R" and w: "wf_world w" and wf: "wf_type left" "wf_type right"
    and same: "same_shape w R left right"
  shows "same_shape w R right left"
  using same
proof cases
  case (objects obj other)
  then show ?thesis using same_object_sym[OF sym w] wf by simp
next
  case (signatures f g)
  then show ?thesis using same_signature_sym[OF sym] wf by simp
next
  case (arrays e e')
  then show ?thesis using sym wf by (simp add: symmetric_on_wf_def)
next
  case (tuples es es')
  then show ?thesis using list_all2_sym_wf[OF sym] wf by simp
next
  case (open_tuples ls ls' r r' ts ts')
  then show ?thesis using list_all2_sym_wf[OF sym] sym wf by (simp add: symmetric_on_wf_def)
qed (auto intro: same_shape.intros)

lemma bounded_sym:
  assumes "wf_world w" "wf_type left" "wf_type right" "bounded w depth left right"
  shows "bounded w depth right left"
  using assms(2-)
proof (induction depth arbitrary: left right)
  case (Suc depth)
  have sym: "symmetric_on_wf (bounded w depth)" using Suc.IH by (simp add: symmetric_on_wf_def)
  have res: "\<forall>r. wf_type (resolve (world_references w) r)" using assms(1) by (simp add: wf_world_def)
  have wf: "wf_type l" "wf_type r"
    if "peeled (world_references w) left = Some l" "peeled (world_references w) right = Some r" for l r
    using peeled_wf that res Suc.prems(1,2) by blast+
  show ?case
    using Suc.prems type_eq_sym_all(1) wf same_shape_sym[OF sym assms(1)]
    unfolding bounded.simps same_step_def same_wrapping_def by (metis (no_types, lifting))
qed simp

text \<open>
  C34. Identity is symmetric and reflexive on well-formed types, although properties are looked up from one
  side only and signatures, members and elements are compared in the order of the left operand.
\<close>

theorem identity_symmetric:
  assumes "\<And>r. peeled (world_references w) (ReferenceT r) \<noteq> None" "wf_world w" "wf_type left" "wf_type right"
  shows "is_type_identical_to w left right = is_type_identical_to w right left \<and> is_type_identical_to w left left = Some True"
proof -
  have "peels w" using assms(1) unfolding peels_def by blast
  then have code: "identical w depth = (\<lambda>x y. Some (bounded w depth x y))" for depth by (rule identical_bounded)
  have "bounded w MAX_DEPTH left left"
    using type_eq_refl_all(1)[OF assms(3)] by (simp add: MAX_DEPTH_def numeral_eq_Suc same_step_def)
  then show ?thesis using bounded_sym[OF assms(2)] assms(3,4) by (auto simp: is_type_identical_to_def code)
qed

lemma demo_world_wf: "wf_world demo_world"
  by (simp add: wf_world_def demo_world_def node_object_def node_def owned_union_def)

theorem identity_symmetric_witness:
  "is_type_identical_to demo_world (UnionT (owned_union [node ''a'', StringT])) (UnionT (owned_union [StringT, node ''b''])) = Some True
   \<and> is_type_identical_to demo_world (UnionT (owned_union [StringT, node ''b''])) (UnionT (owned_union [node ''a'', StringT])) = Some True"
proof -
  have "is_type_identical_to demo_world (UnionT (owned_union [node ''a'', StringT])) (UnionT (owned_union [StringT, node ''b''])) = Some True"
    by code_simp
  moreover have "wf_type (UnionT (owned_union [node ''a'', StringT]))" "wf_type (UnionT (owned_union [StringT, node ''b'']))"
    by (simp_all add: owned_union_def node_def)
  ultimately show ?thesis using identity_symmetric[OF demo_world_peels demo_world_wf] by metis
qed

section \<open>Blind to the spelling\<close>

lemma not_reference_wrapping:
  "\<nexists>r. t = ReferenceT r \<Longrightarrow> is_readonly_array_like refs t = Some False"
  "\<nexists>r. t = ReferenceT r \<Longrightarrow> fixed_tuple_min_length refs t = Some (map_option snd (fixed_tuple_parts t))"
  by (subst is_readonly_array_like.simps, cases t; simp) (subst fixed_tuple_min_length.simps, cases t; simp)

lemma identical_at_max: "peels w \<Longrightarrow> same_step w (bounded w 15) left right \<Longrightarrow> is_type_identical_to w left right = Some True"
  using identical_bounded[of w "Suc 15"] bounded.simps(2)[of w 15] by (simp add: is_type_identical_to_def MAX_DEPTH_def)

lemma same_shape_identical:
  assumes "peels w" "same_shape w (bounded w 15) left right" "\<nexists>r. left = ReferenceT r" "\<nexists>r. right = ReferenceT r"
    "fixed_tuple_parts left = None" "fixed_tuple_parts right = None"
  shows "is_type_identical_to w left right = Some True"
proof -
  have "same_step w (bounded w 15) left right"
    using assms(2-) by (simp add: same_step_def same_wrapping_def not_reference_wrapping peeled_other)
  then show ?thesis by (rule identical_at_max[OF assms(1)])
qed

lemma bounded_refl: "wf_type t \<Longrightarrow> bounded w depth t t"
  using type_eq_refl_all(1)[of t] by (cases depth) (simp_all add: same_step_def)

lemma covers_same_members:
  "set xs = set ys \<Longrightarrow> list_all wf_type xs \<Longrightarrow> covers (bounded w depth) xs ys"
  using bounded_refl by (fastforce simp: covers_def list_all_iff)

text \<open>
  C35. Identity does not see how a type is written: an alias that is neither a \<open>readonly\<close> array nor a
  written tuple is identical to what it stands for, a union to each of its reorderings, \<open>boolean\<close> to
  \<open>false | true\<close>, and an object type whose only member is a call signature to the function type.
\<close>

theorem identity_blind_to_spelling:
  assumes "\<And>r. peeled (world_references w) (ReferenceT r) \<noteq> None" "wf_world w"
    and "\<not> is_readonly_array r" "written_tuple r = None"
    and "wf_union u" "set (union_types v) = set (union_types u)"
    and "set (union_types b) = {BooleanLiteralT False, BooleanLiteralT True}"
    and "wf_function f" "object_is_bare_call_signature obj = Some f"
  shows "is_type_identical_to w (ReferenceT r) (resolve (world_references w) r) = Some True
    \<and> is_type_identical_to w (UnionT u) (UnionT v) = Some True
    \<and> is_type_identical_to w BooleanT (UnionT b) = Some True
    \<and> is_type_identical_to w (ObjectT obj) (FunctionT f) = Some True"
proof (intro conjI)
  have peels: "peels w" using assms(1) unfolding peels_def by blast
  let ?refs = "world_references w"
  have "is_readonly_array_like ?refs (ReferenceT r) = is_readonly_array_like ?refs (resolve ?refs r)"
    "fixed_tuple_min_length ?refs (ReferenceT r) = fixed_tuple_min_length ?refs (resolve ?refs r)"
    by (subst is_readonly_array_like.simps, simp add: assms(3)) (subst fixed_tuple_min_length.simps, simp add: assms(4))
  moreover obtain s where s: "peeled ?refs (resolve ?refs r) = Some s" using peels_Some[OF peels] by blast
  moreover have "type_eq s s"
    using peeled_wf[OF s] assms(2) by (intro type_eq_refl_all(1)) (simp add: wf_world_def)
  ultimately have "same_step w (bounded w 15) (ReferenceT r) (resolve ?refs r)"
    by (auto simp: same_step_def same_wrapping_def)
  then show "is_type_identical_to w (ReferenceT r) (resolve ?refs r) = Some True" by (rule identical_at_max[OF peels])
next
  have peels: "peels w" using assms(1) unfolding peels_def by blast
  have "list_all wf_type (union_types u)" "list_all wf_type (union_types v)"
    using wf_union_members[OF assms(5)] assms(6) by (simp_all add: list_all_iff)
  then show "is_type_identical_to w (UnionT u) (UnionT v) = Some True"
    using assms(6) by (intro same_shape_identical[OF peels]) (simp_all add: fixed_tuple_parts_def covers_same_members)
  have "list_all wf_type (union_types b)" by (simp add: list_all_iff assms(7))
  then show "is_type_identical_to w BooleanT (UnionT b) = Some True"
    using assms(7) by (intro same_shape_identical[OF peels]) (simp_all add: fixed_tuple_parts_def covers_same_members)
  have "wf_type (FunctionT f)" using assms(8) by simp
  then have "same_signature (bounded w 15) f f"
    using wf_parts(1)[of f] bounded_refl by (auto simp: same_signature_def list_all_iff intro: list.rel_refl_strong)
  then show "is_type_identical_to w (ObjectT obj) (FunctionT f) = Some True"
    using assms(9) by (intro same_shape_identical[OF peels]) (simp_all add: fixed_tuple_parts_def)
qed

definition demo_signature :: "rstr option \<Rightarrow> function_type" where
  "demo_signature head = FunctionType [NumberT] None VoidT False 1 0 head"

definition demo_callable :: object_type where
  "demo_callable = ObjectType [] None None False False None (Some (demo_signature None)) False False None 0 None None"

theorem identity_blind_to_spelling_witness:
  "is_type_identical_to demo_world (node ''a'') (ObjectT (node_object ''a'')) = Some True
   \<and> is_type_identical_to demo_world (UnionT (owned_union [node ''a'', StringT])) (UnionT (owned_union [StringT, node ''a''])) = Some True
   \<and> is_type_identical_to demo_world BooleanT (UnionT (owned_union [BooleanLiteralT True, BooleanLiteralT False])) = Some True
   \<and> is_type_identical_to demo_world (ObjectT demo_callable) (FunctionT (demo_signature None)) = Some True"
proof -
  have r: "\<not> is_readonly_array (TypeReference ''a'' ''a'' [])" "written_tuple (TypeReference ''a'' ''a'' []) = None"
    by code_simp+
  have u: "wf_union (owned_union [node ''a'', StringT])"
    "set (union_types (owned_union [StringT, node ''a''])) = set (union_types (owned_union [node ''a'', StringT]))"
    "set (union_types (owned_union [BooleanLiteralT True, BooleanLiteralT False])) = {BooleanLiteralT False, BooleanLiteralT True}"
    by (auto simp: owned_union_def node_def)
  have f: "wf_function (demo_signature None)" "object_is_bare_call_signature demo_callable = Some (demo_signature None)"
    by (simp_all add: demo_signature_def demo_callable_def object_is_bare_call_signature_def)
  have "resolve (world_references demo_world) (TypeReference ''a'' ''a'' []) = ObjectT (node_object ''a'')"
    by (simp add: demo_world_def)
  then show ?thesis using identity_blind_to_spelling[OF demo_world_peels demo_world_wf r u f] by (simp add: node_def)
qed

section \<open>Signatures the relation does not tell apart\<close>

text \<open>
  The equality test in front of the comparison reads the payload only, in which a signature does not record
  its type parameters: \<open><T>(x: number) => void\<close> and \<open>(x: number) => void\<close> are answered identical, although
  the comparison of signatures itself would refuse them.
\<close>

theorem generic_signature_conflated:
  "is_type_identical_to demo_world (FunctionT (demo_signature (Some ''T''))) (FunctionT (demo_signature None)) = Some True
   \<and> signatures_identical (identical demo_world 15) (demo_signature (Some ''T'')) (demo_signature None) = Some False"
  by code_simp

text \<open>
  An arrow closes a bracket it never opened. In the list of \<open><T extends (f: () => void, n: number) => void>\<close>
  the comma between the two parameters of the constraint is taken for one between type parameters, and the
  name \<open>n:\<close> is read.
\<close>

theorem arrow_splits_constraint:
  "type_parameter_names (Some ''T extends (f: () => void, n: number) => void'') = [''T'', ''n:'']"
  by code_simp

end
