(* ===== verification/Type_Parameter_Laws.thy ===== *)
theory Type_Parameter_Laws
  imports Identity
begin

text \<open>
  The names a signature declares are read back from its rendered type parameter list
  (\<open>FunctionType::type_parameter_names\<close>): modifiers, constraints and defaults are skipped, and a comma
  separates two parameters only outside every bracket.
\<close>

section \<open>Rendered parameters\<close>

definition type_parameter_modifiers :: "rstr set" where
  "type_parameter_modifiers = {''const'', ''in'', ''out''}"

text \<open>A byte of a name: no bracket, comma or first byte of a whitespace character.\<close>

definition name_byte :: "char \<Rightarrow> bool" where
  "name_byte c \<longleftrightarrow> c \<notin> set ''<([{>)]},'' \<and> c \<notin> hd ` set whitespace_chars"

text \<open>Brackets are closed in the text, never before they are opened, and a comma stands inside one.\<close>

fun closed_text :: "nat \<Rightarrow> rstr \<Rightarrow> bool" where
  "closed_text depth [] \<longleftrightarrow> depth = 0"
| "closed_text depth (c # cs) \<longleftrightarrow>
     (if c \<in> set ''<([{'' then closed_text (depth + 1) cs
      else if c \<in> set ''>)]}'' then 0 < depth \<and> closed_text (depth - 1) cs
      else if c = CHR '','' then 0 < depth \<and> closed_text depth cs
      else closed_text depth cs)"

record rendered_parameter =
  modifiers :: "rstr list"
  parameter_name :: rstr
  parameter_rest :: rstr

definition render_parameter :: "rendered_parameter \<Rightarrow> rstr" where
  "render_parameter p = concat (map (\<lambda>m. m @ '' '') (modifiers p)) @ parameter_name p @ parameter_rest p"

definition rendered_ok :: "rendered_parameter \<Rightarrow> bool" where
  "rendered_ok p \<longleftrightarrow>
     set (modifiers p) \<subseteq> type_parameter_modifiers \<and> parameter_name p \<notin> type_parameter_modifiers
     \<and> parameter_name p \<noteq> [] \<and> list_all name_byte (parameter_name p)
     \<and> (parameter_rest p = [] \<or> (\<exists>rest. parameter_rest p = '' '' @ rest)) \<and> closed_text 0 (parameter_rest p)"

section \<open>Words\<close>

lemma leading_ws_None:
  assumes "name_byte c"
  shows "leading_ws whitespace_chars (c # s) = None"
proof -
  have "[] \<notin> set whitespace_chars" by code_simp
  then have "\<not> starts_with (c # s) w" if "w \<in> set whitespace_chars" for w
  proof (cases w)
    case (Cons a list)
    then have "a \<in> hd ` set whitespace_chars" using that by force
    then show ?thesis using assms Cons by (auto simp: name_byte_def starts_with_def)
  qed (use that \<open>[] \<notin> set whitespace_chars\<close> in simp)
  then show ?thesis by (auto simp: leading_ws_def find_None_iff)
qed

lemma leading_ws_space: "leading_ws whitespace_chars (CHR '' '' # s) = Some '' ''"
proof -
  have "whitespace_chars = map (\<lambda>c. [c]) [CHR 0x09, CHR 0x0A, CHR 0x0B, CHR 0x0C, CHR 0x0D] @ '' '' # drop 6 whitespace_chars"
    by code_simp
  then obtain ws where w: "whitespace_chars = map (\<lambda>c. [c]) [CHR 0x09, CHR 0x0A, CHR 0x0B, CHR 0x0C, CHR 0x0D] @ '' '' # ws" by blast
  show ?thesis unfolding leading_ws_def w by (simp add: starts_with_def)
qed

lemma words_name: "list_all name_byte w \<Longrightarrow> whitespace_words acc (w @ s) = whitespace_words (acc @ w) s"
  by (induction w arbitrary: acc) (simp_all add: leading_ws_None)

lemma words_space: "whitespace_words acc (CHR '' '' # s) = (if acc = [] then [] else [acc]) @ whitespace_words [] s"
  by (simp add: leading_ws_space)

lemma modifier_bytes: "m \<in> type_parameter_modifiers \<Longrightarrow> list_all name_byte m \<and> m \<noteq> []"
  unfolding type_parameter_modifiers_def by (elim insertE) (auto, code_simp+)

lemma words_modifiers:
  "set ms \<subseteq> type_parameter_modifiers \<Longrightarrow>
   whitespace_words [] (concat (map (\<lambda>m. m @ '' '') ms) @ s) = ms @ whitespace_words [] s"
  using modifier_bytes by (induction ms) (simp_all add: words_name words_space del: whitespace_words.simps)

lemma declared_name_rendered:
  assumes "rendered_ok p" "pre \<in> {[], '' ''}"
  shows "declared_name (pre @ render_parameter p) = parameter_name p"
proof -
  have name: "list_all name_byte (parameter_name p)" "parameter_name p \<noteq> []" using assms(1) by (simp_all add: rendered_ok_def)
  have "\<exists>ws. whitespace_words [] (parameter_name p @ parameter_rest p) = parameter_name p # ws"
    using assms(1) name(2) unfolding words_name[OF name(1)]
    by (auto simp: rendered_ok_def words_space simp del: whitespace_words.simps(2))
  then obtain ws where "whitespace_words [] (render_parameter p) = modifiers p @ parameter_name p # ws"
    using assms(1) words_modifiers unfolding render_parameter_def rendered_ok_def by metis
  moreover have "whitespace_words [] (pre @ s) = whitespace_words [] s" for s
    using assms(2) by (auto simp: words_space simp del: whitespace_words.simps(2))
  moreover have "find (\<lambda>word. word \<notin> type_parameter_modifiers) (ms @ parameter_name p # ws) = Some (parameter_name p)"
    if "set ms \<subseteq> type_parameter_modifiers" for ms
    using that assms(1) by (induction ms) (simp_all add: rendered_ok_def)
  ultimately show ?thesis using assms(1)
    by (simp add: declared_name_def rendered_ok_def type_parameter_modifiers_def)
qed

section \<open>Items\<close>

lemma head_names_closed:
  "closed_text depth s \<Longrightarrow> head_names (int depth) item (s @ rest) = head_names 0 (item @ s) rest"
proof (induction s arbitrary: depth item)
  case (Cons c s)
  consider "c \<in> set ''<([{''" | "c \<in> set ''>)]}''" "c \<notin> set ''<([{''" | "c = CHR '',''" | "c \<notin> set ''<([{>)]},''" by auto
  then show ?case
  proof cases
    case 1
    then show ?thesis using Cons.prems Cons.IH[of "depth + 1" "item @ [c]"] by (simp add: add.commute)
  next
    case 2
    then show ?thesis using Cons.prems Cons.IH[of "depth - 1" "item @ [c]"] by (simp add: of_nat_diff)
  next
    case 3
    then show ?thesis using Cons.prems Cons.IH[of depth "item @ [c]"] by simp
  next
    case 4
    then show ?thesis using Cons.prems Cons.IH[of depth "item @ [c]"] by simp
  qed
qed simp

lemma closed_name: "list_all name_byte w \<Longrightarrow> closed_text depth (w @ s) = closed_text depth s"
  by (induction w) (auto simp: name_byte_def)

lemma closed_rendered: "rendered_ok p \<Longrightarrow> closed_text 0 (render_parameter p)"
proof -
  assume p: "rendered_ok p"
  have "closed_text 0 (concat (map (\<lambda>m. m @ '' '') ms) @ s) = closed_text 0 s" if "set ms \<subseteq> type_parameter_modifiers" for ms s
    using that modifier_bytes by (induction ms) (simp_all add: closed_name)
  then show ?thesis using p closed_name by (simp add: render_parameter_def rendered_ok_def)
qed

lemma head_names_rendered:
  assumes "rendered_ok p" "pre \<in> {[], '' ''}"
  shows "head_names 0 [] (pre @ render_parameter p @ rest) = head_names 0 (pre @ render_parameter p) rest"
proof -
  have "closed_text 0 (pre @ render_parameter p)" using closed_rendered[OF assms(1)] assms(2) by auto
  from head_names_closed[OF this, of "[]" rest] show ?thesis by simp
qed

lemma pushed_rendered: "rendered_ok p \<Longrightarrow> pre \<in> {[], '' ''} \<Longrightarrow> pushed_name (pre @ render_parameter p) = [parameter_name p]"
  using declared_name_rendered by (simp add: pushed_name_def rendered_ok_def)

lemma head_names_joined:
  "ps \<noteq> [] \<Longrightarrow> list_all rendered_ok ps \<Longrightarrow> pre \<in> {[], '' ''} \<Longrightarrow>
   head_names 0 [] (pre @ join_with '', '' (map render_parameter ps)) = map parameter_name ps"
proof (induction ps arbitrary: pre)
  case (Cons p ps)
  have p: "rendered_ok p" using Cons.prems by simp
  show ?case
  proof (cases ps)
    case Nil
    then show ?thesis using head_names_rendered[OF p Cons.prems(3), of "[]"] pushed_rendered[OF p Cons.prems(3)] by simp
  next
    case (Cons q qs)
    have "head_names 0 [] ('' '' @ join_with '', '' (map render_parameter ps)) = map parameter_name ps"
      using Cons.IH[of "'' ''"] \<open>ps = q # qs\<close> Cons.prems by simp
    then show ?thesis
      using head_names_rendered[OF p Cons.prems(3)] pushed_rendered[OF p Cons.prems(3)] \<open>ps = q # qs\<close>
      by (simp add: join_with_Cons)
  qed
qed simp

text \<open>
  C36. Reading the names back: the list rendered from parameters with modifiers, a name, and a constraint or
  default whose brackets are closed and whose commas stand inside brackets gives the names in order.
\<close>

theorem type_parameter_names_roundtrip:
  assumes "list_all rendered_ok ps" "ps \<noteq> []"
  shows "type_parameter_names (Some (join_with '', '' (map render_parameter ps))) = map parameter_name ps"
  using head_names_joined[OF assms(2,1), of "[]"] by (simp add: type_parameter_names_def)

theorem type_parameter_names_roundtrip_witness:
  "type_parameter_names (Some ''const K extends Pick<T, [A, B]>, in out T = {a: (b: A, c: B)}'') = [''K'', ''T'']"
proof -
  let ?ps = "[\<lparr>modifiers = [''const''], parameter_name = ''K'', parameter_rest = '' extends Pick<T, [A, B]>''\<rparr>,
    \<lparr>modifiers = [''in'', ''out''], parameter_name = ''T'', parameter_rest = '' = {a: (b: A, c: B)}''\<rparr>]"
  have "list_all name_byte ''K''" "list_all name_byte ''T''" by code_simp+
  then have "list_all rendered_ok ?ps"
    by (auto simp: rendered_ok_def type_parameter_modifiers_def)
  from type_parameter_names_roundtrip[OF this] show ?thesis by (simp add: render_parameter_def)
qed

end
