(* ===== verification/Template_Literals.thy ===== *)
theory Template_Literals
  imports Types Utf8
begin

text \<open>
  Matching against template literal types (\<open>crates/surge-ts-types/src/template_literal.rs\<close>): what every
  placeholder of a template captures from a string or from another template, and which strings a
  \<open>number\<close> or \<open>bigint\<close> placeholder takes.

  \<^item> Texts are byte lists. A slice that is not on character boundaries panics, and so does an index out
    of range; the matcher returns \<open>None\<close> then. \<open>Some None\<close> says that the source does not fit.
  \<^item> What lies between two matches is kept in its parts, texts around types. The source makes a string
    literal of a single text and calls \<open>template_literal_type\<close> on the others (\<open>match_type\<close>).
\<close>

section \<open>Substrings\<close>

fun str_find :: "rstr \<Rightarrow> rstr \<Rightarrow> nat option" where
  "str_find needle [] = (if needle = [] then Some 0 else None)"
| "str_find needle (c # s) =
     (if starts_with (c # s) needle then Some 0 else map_option Suc (str_find needle s))"

text \<open>\<open>text.get(p..).and_then(|rest| rest.find(delimiter))\<close>.\<close>

definition find_from :: "rstr \<Rightarrow> nat \<Rightarrow> rstr \<Rightarrow> nat option" where
  "find_from text p delimiter = (if is_char_boundary text p then str_find delimiter (drop p text) else None)"

section \<open>The matcher\<close>

record captured =
  captured_texts :: "rstr list"
  captured_types :: "ty list"

definition match_type :: "(rstr list \<Rightarrow> ty list \<Rightarrow> ty) \<Rightarrow> captured \<Rightarrow> ty" where
  "match_type template_literal_type m =
     (case captured_texts m of
        [text] \<Rightarrow> StringLiteralT text
      | _ \<Rightarrow> template_literal_type (captured_texts m) (captured_types m))"

text \<open>\<open>texts\<close> are the texts of the source, the last one without the end that the target ends with.\<close>

definition add_match :: "rstr list \<Rightarrow> ty list \<Rightarrow> nat \<times> nat \<Rightarrow> nat \<Rightarrow> nat \<Rightarrow> captured option" where
  "add_match texts types cursor s p =
     (case cursor of (seg, pos) \<Rightarrow>
        if s = seg then map_option (\<lambda>text. \<lparr>captured_texts = [text], captured_types = []\<rparr>) (slice (texts ! s) pos p)
        else case (slice (texts ! seg) pos (length (texts ! seg)), slice (texts ! s) 0 p) of
               (Some first, Some final) \<Rightarrow>
                 if seg + 1 \<le> s \<and> s \<le> length types
                 then Some \<lparr>captured_texts = first # take (s - (seg + 1)) (drop (seg + 1) texts) @ [final],
                            captured_types = take (s - seg) (drop seg types)\<rparr>
                 else None
             | _ \<Rightarrow> None)"

text \<open>The search goes on in the next text from its start; \<open>rest\<close> are the texts from \<open>s\<close> on.\<close>

fun search_texts :: "rstr \<Rightarrow> nat \<Rightarrow> nat \<Rightarrow> rstr list \<Rightarrow> (nat \<times> nat) option" where
  "search_texts delimiter s p [] = None"
| "search_texts delimiter s p (text # rest) =
     (case find_from text p delimiter of
        Some found \<Rightarrow> Some (s, p + found)
      | None \<Rightarrow> if rest = [] then None else search_texts delimiter (s + 1) 0 rest)"

text \<open>Where the next match ends: the segment and the position, before the delimiter is skipped.\<close>

definition next_match :: "rstr list \<Rightarrow> nat \<times> nat \<Rightarrow> rstr \<Rightarrow> (nat \<times> nat) option option" where
  "next_match texts cursor delimiter =
     (case cursor of (seg, pos) \<Rightarrow>
        if delimiter \<noteq> [] then Some (search_texts delimiter seg pos (drop seg texts))
        else if pos < length (texts ! seg) then
          map_option (\<lambda>rest. Some (seg, pos + (case rest of [] \<Rightarrow> 1 | c # _ \<Rightarrow> char_width c)))
            (slice (texts ! seg) pos (length (texts ! seg)))
        else if seg < length texts - 1 then Some (Some (seg + 1, 0))
        else Some None)"

fun match_delimiters :: "rstr list \<Rightarrow> ty list \<Rightarrow> nat \<times> nat \<Rightarrow> rstr list \<Rightarrow> captured list option option" where
  "match_delimiters texts types cursor [] =
     map_option (\<lambda>m. Some [m]) (add_match texts types cursor (length texts - 1) (length (texts ! (length texts - 1))))"
| "match_delimiters texts types cursor (delimiter # delimiters) =
     (case next_match texts cursor delimiter of
        None \<Rightarrow> None
      | Some None \<Rightarrow> Some None
      | Some (Some (s, p)) \<Rightarrow>
          (case add_match texts types cursor s p of
             None \<Rightarrow> None
           | Some m \<Rightarrow>
               map_option (map_option (\<lambda>ms. m # ms))
                 (match_delimiters texts types (s, p + length delimiter) delimiters)))"

definition infer_from_literal_parts :: "rstr list \<Rightarrow> ty list \<Rightarrow> rstr list \<Rightarrow> captured list option option" where
  "infer_from_literal_parts source_texts source_types target_texts =
     (if source_texts = [] \<or> target_texts = [] then None
      else
        let last_source = length source_texts - 1;
            source_start = source_texts ! 0;
            source_end = source_texts ! last_source;
            last_target = length target_texts - 1;
            target_start = target_texts ! 0;
            target_end = target_texts ! last_target
        in if (last_source = 0 \<and> length source_start < length target_start + length target_end)
              \<or> \<not> starts_with source_start target_start \<or> \<not> ends_with source_end target_end
           then Some None
           else
             case slice source_end 0 (length source_end - length target_end) of
               None \<Rightarrow> None
             | Some remaining_end \<Rightarrow>
                 match_delimiters (butlast source_texts @ [remaining_end]) source_types (0, length target_start)
                   (take (max last_target 1 - 1) (drop 1 target_texts)))"

text \<open>A string literal is matched as a single text.\<close>

definition infer_from_string :: "rstr \<Rightarrow> rstr list \<Rightarrow> captured list option option" where
  "infer_from_string text target_texts = infer_from_literal_parts [text] [] target_texts"

section \<open>Numeric strings\<close>

definition strip_radix :: "rstr \<Rightarrow> rstr list \<Rightarrow> rstr option" where
  "strip_radix text spellings =
     map_option (\<lambda>p. drop (length p) text) (find (starts_with text) spellings)"

definition is_digit_of :: "int \<Rightarrow> char \<Rightarrow> bool" where
  "is_digit_of radix c \<longleftrightarrow>
     is_ascii_digit c \<and> digit_value c < radix \<or> (97 \<le> byte c \<and> byte c - 87 < radix \<and> byte c \<le> 122)
     \<or> (65 \<le> byte c \<and> byte c - 55 < radix \<and> byte c \<le> 90)"

definition radix_digits :: "rstr \<Rightarrow> bool option" where
  "radix_digits text =
     (let valid = (\<lambda>spellings radix. map_option (\<lambda>digits. digits \<noteq> [] \<and> list_all (is_digit_of radix) digits) (strip_radix text spellings))
      in case valid [''0x'', ''0X''] 16 of
           Some b \<Rightarrow> Some b
         | None \<Rightarrow> (case valid [''0o'', ''0O''] 8 of Some b \<Rightarrow> Some b | None \<Rightarrow> valid [''0b'', ''0B''] 2))"

definition strip_sign :: "rstr \<Rightarrow> rstr" where
  "strip_sign text = (case text of c # s \<Rightarrow> if c \<in> {CHR ''+'', CHR ''-''} then s else text | [] \<Rightarrow> [])"

text \<open>The texts in front of and behind the first character that satisfies \<open>P\<close>.\<close>

definition cut_at :: "(char \<Rightarrow> bool) \<Rightarrow> rstr \<Rightarrow> rstr \<times> rstr option" where
  "cut_at P text =
     (takeWhile (\<lambda>c. \<not> P c) text, case dropWhile (\<lambda>c. \<not> P c) text of [] \<Rightarrow> None | _ # s \<Rightarrow> Some s)"

definition is_valid_number_string :: "rstr \<Rightarrow> bool" where
  "is_valid_number_string v =
     (if v = [] then False
      else
        let text = trim v
        in if text = [] then True
           else case radix_digits text of
                  Some valid \<Rightarrow> valid
                | None \<Rightarrow>
                    (let (mantissa, exponent) = cut_at (\<lambda>c. c \<in> {CHR ''e'', CHR ''E''}) (strip_sign text);
                         (whole, point) = cut_at (\<lambda>c. c = CHR ''.'') mantissa;
                         fraction = (case point of Some s \<Rightarrow> s | None \<Rightarrow> [])
                     in if whole = [] \<and> fraction = [] \<or> \<not> list_all is_ascii_digit whole \<or> \<not> list_all is_ascii_digit fraction
                        then False
                        else case exponent of
                               None \<Rightarrow> True
                             | Some e \<Rightarrow> strip_sign e \<noteq> [] \<and> list_all is_ascii_digit (strip_sign e)))"

definition is_valid_bigint_string :: "rstr \<Rightarrow> bool" where
  "is_valid_bigint_string v =
     (let unsigned = (case v of c # s \<Rightarrow> if c = CHR ''-'' then s else v | [] \<Rightarrow> [])
      in case radix_digits unsigned of
           Some valid \<Rightarrow> valid
         | None \<Rightarrow> unsigned \<noteq> [] \<and> list_all is_ascii_digit unsigned)"

end
