(* ===== verification/Template_Laws.thy ===== *)
theory Template_Laws
  imports Template_Literals
begin

text \<open>
  Laws of matching against template literals. A source is a word of characters and types; the captured
  pieces with the texts of the target between them give the source back, a source is refused only when
  it has no such decomposition, and on valid UTF-8 no slice panics.
\<close>

section \<open>Valid texts\<close>

declare valid_utf8.simps(2) [simp del]

lemma valid_utf8_append:
  assumes "valid_utf8 a" "valid_utf8 (a @ b)"
  shows "valid_utf8 b"
  using assms
proof (induction "length a" arbitrary: a rule: less_induct)
  case less
  show ?case
  proof (cases a)
    case (Cons x a1)
    have "valid_utf8 (x # a1)" using less.prems(1) Cons by simp
    then obtain ch rest where r: "a1 = ch @ rest" "valid_utf8 rest" "Suc (length ch) = char_width x"
      by (rule valid_utf8_char)
    have "valid_utf8 (x # a1 @ b)" using less.prems(2) Cons by simp
    then obtain ch' rest' where r': "a1 @ b = ch' @ rest'" "valid_utf8 rest'" "Suc (length ch') = char_width x"
      by (rule valid_utf8_char)
    have "ch = ch' \<and> rest @ b = rest'" using r r' by (simp add: append_eq_append_conv)
    then show ?thesis using less.hyps[of rest] r(1,2) r'(2) Cons by simp
  qed (use less.prems in simp)
qed

lemma valid_utf8_swap:
  assumes "valid_utf8 (x # ch @ r)" "Suc (length ch) = char_width x" "valid_utf8 r'"
  shows "valid_utf8 (x # ch @ r')"
proof -
  consider "ch = []" | c1 where "ch = [c1]" | c1 c2 where "ch = [c1, c2]" | c1 c2 c3 where "ch = [c1, c2, c3]"
    using assms(2) by (auto simp: char_width_def length_Suc_conv numeral_eq_Suc split: if_splits)
  then show ?thesis using assms
    by cases (simp_all add: valid_utf8.simps(2)[of x] char_width_def split: if_split_asm)
qed

lemma valid_utf8_split:
  assumes "valid_utf8 (a @ b)" "b = [] \<or> \<not> is_continuation (hd b)"
  shows "valid_utf8 a \<and> valid_utf8 b"
  using assms
proof (induction "length a" arbitrary: a rule: less_induct)
  case less
  show ?case
  proof (cases a)
    case (Cons x a1)
    then have "valid_utf8 (x # a1 @ b)" using less.prems by simp
    then obtain ch rest where r: "a1 @ b = ch @ rest" "\<forall>c \<in> set ch. is_continuation c" "valid_utf8 rest" "Suc (length ch) = char_width x"
      by (rule valid_utf8_char)
    have "length ch \<le> length a1"
    proof (rule ccontr)
      assume "\<not> length ch \<le> length a1"
      then obtain d where "ch = a1 @ d" "b = d @ rest" "d \<noteq> []"
        using r(1) by (auto simp: append_eq_append_conv2)
      then show False using r(2) less.prems(2) by (cases d) auto
    qed
    then obtain rest0 where a1: "a1 = ch @ rest0" "rest = rest0 @ b"
      using r(1) by (auto simp: append_eq_append_conv2)
    then have "valid_utf8 rest0 \<and> valid_utf8 b" using less.hyps[of rest0] r(3) less.prems(2) Cons by simp
    moreover have "valid_utf8 (x # ch @ rest)" using less.prems(1) Cons r(1) by simp
    ultimately show ?thesis using valid_utf8_swap[of x ch rest rest0] r(4) Cons a1(1) by simp
  qed (use less.prems in simp)
qed

lemma starts_with_iff: "starts_with s p \<longleftrightarrow> (\<exists>r. s = p @ r)"
  by (auto simp: starts_with_def) (metis append_take_drop_id)

lemma ends_with_iff: "ends_with s p \<longleftrightarrow> (\<exists>r. s = r @ p)"
  by (auto simp: ends_with_def) (metis append_take_drop_id)

lemma boundary_valid:
  assumes "valid_utf8 s" "is_char_boundary s i"
  shows "valid_utf8 (take i s) \<and> valid_utf8 (drop i s)"
  using valid_utf8_split[of "take i s" "drop i s"] assms by (auto simp: is_char_boundary_def hd_drop_conv_nth)

lemma valid_boundary: "i \<le> length s \<Longrightarrow> valid_utf8 (drop i s) \<Longrightarrow> is_char_boundary s i"
  using valid_utf8_hd[of "drop i s"] by (auto simp: is_char_boundary_def hd_drop_conv_nth)

lemma boundary_le: "is_char_boundary s i \<Longrightarrow> i \<le> length s"
  by (auto simp: is_char_boundary_def)

lemma boundary_length: "is_char_boundary s (length s)"
  by (simp add: is_char_boundary_def)

text \<open>An occurrence of a valid text starts and ends on boundaries.\<close>

lemma occurrence_boundary:
  assumes "valid_utf8 s" "valid_utf8 d" "d \<noteq> []" "starts_with (drop p s) d"
  shows "is_char_boundary s p" "is_char_boundary s (p + length d)"
proof -
  obtain r where r: "drop p s = d @ r" using assms(4) by (auto simp: starts_with_iff)
  then have "p < length s" using assms(3) by (cases "p < length s") auto
  then have "s ! p = hd d" using r assms(3) by (metis hd_append2 hd_drop_conv_nth)
  then show p: "is_char_boundary s p"
    using valid_utf8_hd[OF assms(2,3)] \<open>p < length s\<close> by (simp add: is_char_boundary_def)
  have "valid_utf8 r" using valid_utf8_append[OF assms(2)] boundary_valid[OF assms(1) p] r by simp
  moreover have d: "drop (p + length d) s = r" using r by (metis add.commute append_eq_conv_conj drop_drop)
  moreover have "p + length d \<le> length s" using arg_cong[OF r, of length] \<open>p < length s\<close> by simp
  ultimately show "is_char_boundary s (p + length d)" by (intro valid_boundary) simp_all
qed

lemma str_find_Some:
  "str_find d s = Some i \<Longrightarrow> i \<le> length s \<and> starts_with (drop i s) d \<and> (\<forall>j < i. \<not> starts_with (drop j s) d)"
proof (induction s arbitrary: i)
  case (Cons c s)
  show ?case
  proof (cases i)
    case (Suc i')
    then have f: "str_find d s = Some i'" "\<not> starts_with (c # s) d" using Cons.prems by (auto split: if_splits)
    have "\<not> starts_with (drop j (c # s)) d" if "j < i" for j
      using Cons.IH[OF f(1)] f(2) that Suc by (cases j) auto
    then show ?thesis using Cons.IH[OF f(1)] Suc by simp
  qed (use Cons.prems in \<open>auto split: if_splits\<close>)
qed (simp add: starts_with_def split: if_splits)

lemma str_find_None: "str_find d s = None \<Longrightarrow> \<not> starts_with (drop j s) d"
proof (induction s arbitrary: j)
  case (Cons c s)
  then show ?case by (cases j) (auto split: if_splits)
qed (auto simp: starts_with_def split: if_splits)

section \<open>Words\<close>

text \<open>A source, a target and a captured piece are words over characters and types.\<close>

fun weave :: "rstr list \<Rightarrow> ty list \<Rightarrow> (char + ty) list" where
  "weave [] types = []"
| "weave [t] types = map Inl t"
| "weave (t # u # ts) types = map Inl t @ (case types of [] \<Rightarrow> [] | y # _ \<Rightarrow> [Inr y]) @ weave (u # ts) (tl types)"

definition captured_word :: "captured \<Rightarrow> (char + ty) list" where
  "captured_word m = weave (captured_texts m) (captured_types m)"

text \<open>Words with delimiters between them, and a whole target with words for its placeholders.\<close>

fun around :: "rstr list \<Rightarrow> (char + ty) list list \<Rightarrow> (char + ty) list" where
  "around ds [] = []"
| "around [] (w # ws) = w"
| "around (d # ds) (w # ws) = w @ map Inl d @ around ds ws"

definition filled :: "rstr list \<Rightarrow> (char + ty) list list \<Rightarrow> (char + ty) list" where
  "filled target_texts ws = map Inl (hd target_texts) @ around (butlast (tl target_texts)) ws @ map Inl (last target_texts)"

lemma weave_append_hd: "weave ((a @ b) # ts) types = map Inl a @ weave (b # ts) types"
  by (cases ts) simp_all

lemma weave_cut:
  "k < length ts \<Longrightarrow> length ts \<le> Suc (length types) \<Longrightarrow>
   weave ts types = weave (take k ts @ [take p (ts ! k)]) (take k types) @ weave (drop p (ts ! k) # drop (Suc k) ts) (drop k types)"
proof (induction k arbitrary: ts types)
  case 0
  then obtain t ts' where "ts = t # ts'" by (cases ts) auto
  then show ?case using weave_append_hd[of "take p t" "drop p t"] by simp
next
  case (Suc k)
  obtain t ts1 where t: "ts = t # ts1" using Suc.prems by (cases ts) simp_all
  obtain u ts' where u: "ts1 = u # ts'" using Suc.prems t by (cases ts1) simp_all
  obtain y types' where y: "types = y # types'" using Suc.prems t u by (cases types) simp_all
  note ts = t[unfolded u] y
  obtain v vs where v: "take k (u # ts') @ [take p ((u # ts') ! k)] = v # vs"
    by (cases "take k (u # ts')") auto
  let ?rest = "weave (drop p ((u # ts') ! k) # drop (Suc k) (u # ts')) (drop k types')"
  have "weave ts types = map Inl t @ Inr y # weave (u # ts') types'" by (simp add: ts)
  also have "weave (u # ts') types' = weave (v # vs) (take k types') @ ?rest"
    using Suc.IH[of "u # ts'" types'] Suc.prems unfolding ts v by simp
  also have "map Inl t @ Inr y # weave (v # vs) (take k types') @ ?rest = weave (t # v # vs) (y # take k types') @ ?rest" by simp
  finally show ?case unfolding ts v[symmetric] by (simp only: take_Suc_Cons append_Cons nth_Cons_Suc drop_Suc_Cons)
qed

lemma weave_last: "weave (ts @ [a @ b]) types = weave (ts @ [a]) types @ map Inl b"
proof (induction ts arbitrary: types)
  case (Cons t ts)
  then show ?case by (cases ts) simp_all
qed simp

text \<open>What is left of the source at a cursor.\<close>

definition remaining :: "rstr list \<Rightarrow> ty list \<Rightarrow> nat \<times> nat \<Rightarrow> (char + ty) list" where
  "remaining texts types cursor =
     (case cursor of (seg, pos) \<Rightarrow> weave (drop pos (texts ! seg) # drop (Suc seg) texts) (drop seg types))"

lemma slice_Some: "slice s a b = Some t \<longleftrightarrow> a \<le> b \<and> is_char_boundary s a \<and> is_char_boundary s b \<and> t = take (b - a) (drop a s)"
  by (auto simp: slice_def)

lemma add_match_remaining:
  assumes m: "add_match texts types (seg, pos) s p = Some m"
    and len: "length texts = Suc (length types)" and seg: "seg < length texts" "s < length texts"
  shows "remaining texts types (seg, pos) = captured_word m @ remaining texts types (s, p)"
proof (cases "s = seg")
  case True
  then have "pos \<le> p" "is_char_boundary (texts ! seg) p" "m = \<lparr>captured_texts = [take (p - pos) (drop pos (texts ! seg))], captured_types = []\<rparr>"
    using m by (auto simp: add_match_def slice_Some)
  moreover from this have "drop pos (texts ! seg) = take (p - pos) (drop pos (texts ! seg)) @ drop p (texts ! seg)"
    by (metis append_take_drop_id drop_drop le_add_diff_inverse2)
  ultimately show ?thesis using True weave_append_hd
    by (simp add: remaining_def captured_word_def) (metis weave_append_hd)
next
  case False
  then have lt: "seg + 1 \<le> s" "m = \<lparr>captured_texts = drop pos (texts ! seg) # take (s - (seg + 1)) (drop (seg + 1) texts) @ [take p (texts ! s)],
      captured_types = take (s - seg) (drop seg types)\<rparr>"
    using m by (auto simp: add_match_def slice_Some split: option.splits if_splits)
  let ?ts = "drop pos (texts ! seg) # drop (Suc seg) texts" and ?k = "s - seg"
  have k: "?k < length ?ts" "length ?ts \<le> Suc (length (drop seg types))" using lt(1) seg len by simp_all
  have "?ts ! ?k = texts ! s" using lt(1) seg by (simp add: nth_Cons')
  moreover have "take ?k ?ts = drop pos (texts ! seg) # take (s - (seg + 1)) (drop (seg + 1) texts)"
    using lt(1) by (simp add: take_Cons')
  moreover have "drop (Suc ?k) ?ts = drop (Suc s) texts" using lt(1) by simp
  moreover have "drop ?k (drop seg types) = drop s types" using lt(1) by simp
  ultimately show ?thesis using weave_cut[OF k, of p] lt(2) by (simp add: remaining_def captured_word_def)
qed

lemma add_match_returns:
  assumes "seg \<le> s" "s = seg \<Longrightarrow> pos \<le> p" "s \<le> length types" "is_char_boundary (texts ! seg) pos"
    "is_char_boundary (texts ! s) p" "is_char_boundary (texts ! s) 0"
  shows "\<exists>m. add_match texts types (seg, pos) s p = Some m"
  using assms boundary_length[of "texts ! seg"] boundary_le[of "texts ! seg" pos]
  by (auto simp: add_match_def slice_def)

section \<open>Searching a delimiter\<close>

lemma find_from_Some:
  assumes "find_from t p d = Some f"
  shows "is_char_boundary t p" "p + f \<le> length t" "starts_with (drop (p + f) t) d" "\<forall>j < f. \<not> starts_with (drop (p + j) t) d"
  using assms str_find_Some[of d "drop p t" f] boundary_le[of t p]
  by (auto simp: find_from_def add.commute split: if_splits)

lemma search_texts_Some:
  "search_texts d s p texts = Some (s', p') \<Longrightarrow>
   \<exists>k < length texts. s' = s + k \<and> (k = 0 \<longrightarrow> p \<le> p') \<and> starts_with (drop p' (texts ! k)) d"
proof (induction d s p texts rule: search_texts.induct)
  case (2 d s p t rest)
  show ?case
  proof (cases "find_from t p d")
    case None
    then have "rest \<noteq> []" "search_texts d (s + 1) 0 rest = Some (s', p')" using "2.prems" by (auto split: if_splits)
    then obtain k where "k < length rest" "s' = s + 1 + k" "starts_with (drop p' (rest ! k)) d"
      using "2.IH" None by blast
    then show ?thesis by (intro exI[of _ "Suc k"]) simp
  next
    case (Some f)
    then show ?thesis using "2.prems" find_from_Some(3)[OF Some] by auto
  qed
qed simp

text \<open>An occurrence of a text in a word lies in the first text or after the first type.\<close>

lemma occurrence_in_prefix:
  assumes "map Inl t @ Z = w1 @ map Inl d @ X" "length w1 + length d \<le> length t"
  shows "starts_with (drop (length w1) t) d"
proof -
  have "take (length w1 + length d) (map Inl t @ Z) = w1 @ map Inl d" using assms(1) by simp
  then have "take (length w1 + length d) (map Inl t) = w1 @ map Inl d" using assms(2) by simp
  then have m: "map Inl (take (length w1 + length d) t) = w1 @ map Inl d" by (simp add: take_map)
  have "(map Inl (drop (length w1) (take (length w1 + length d) t)) :: (char + ty) list) = map Inl d"
    using arg_cong[OF m, of "drop (length w1)"] by (simp add: drop_map)
  then have "drop (length w1) (take (length w1 + length d) t) = d" by (simp add: inj_map_eq_map inj_on_def)
  then have "take (length d) (drop (length w1) t) = d" by (simp add: drop_take)
  then show ?thesis by (simp add: starts_with_def)
qed

lemma occurrence_after_type:
  assumes eq: "map Inl t @ Inr y # Z = w1 @ map Inl d @ X" and d: "d \<noteq> []" and far: "length t < length w1 + length d"
  shows "\<exists>w'. w1 = map Inl t @ Inr y # w' \<and> Z = w' @ map Inl d @ X"
proof (cases "length t < length w1")
  case True
  then have "take (Suc (length t)) w1 = map Inl t @ [Inr y]"
    using arg_cong[OF eq, of "take (Suc (length t))"] by simp
  then have "w1 = map Inl t @ Inr y # drop (Suc (length t)) w1"
    by (metis append_take_drop_id append.assoc append_Cons append_Nil)
  then show ?thesis using eq by (metis append.assoc append_Cons list.inject same_append_eq)
next
  case False
  have "(map Inl t @ Inr y # Z) ! length t = Inr y" by (simp add: nth_append)
  moreover have "(w1 @ map Inl d @ X) ! length t = Inl (d ! (length t - length w1))"
    using False far by (auto simp: nth_append)
  ultimately show ?thesis using eq by simp
qed

text \<open>
  The leftmost occurrence is the right one: behind it there is everything that stands behind any other
  occurrence.
\<close>

lemma leftmost_leaves_more:
  assumes "A @ map Inl d @ W = w1 @ map Inl d @ X" "length A \<le> length w1"
  shows "\<exists>Y. W = Y @ X"
proof -
  have "length X \<le> length W" using arg_cong[OF assms(1), of length] assms(2) by simp
  then have "drop (length W - length X) W = X"
    using arg_cong[OF assms(1), of "\<lambda>l. drop (length l - length X) l"] by simp
  then show ?thesis by (metis append_take_drop_id)
qed

lemma search_texts_complete:
  assumes "d \<noteq> []" "length ts \<le> length types" "is_char_boundary t p" "\<forall>u \<in> set ts. valid_utf8 u"
    and "weave (drop p t # ts) types = w1 @ map Inl d @ X"
  shows "\<exists>k p' Y. search_texts d s p (t # ts) = Some (s + k, p') \<and> k < length (t # ts)
    \<and> weave (drop (p' + length d) ((t # ts) ! k) # drop k ts) (drop k types) = Y @ X"
  using assms(2-)
proof (induction ts arbitrary: t p s types w1)
  case Nil
  have word: "map Inl (drop p t) = w1 @ map Inl d @ X" using Nil.prems(4) by simp
  have "length (map Inl (drop p t) :: (char + ty) list) = length (w1 @ map Inl d @ X)" using word by (rule arg_cong)
  then have "length w1 + length d \<le> length (drop p t)" by simp
  then have "starts_with (drop (length w1) (drop p t)) d" using occurrence_in_prefix[of "drop p t" "[]"] word by simp
  then obtain f where f: "find_from t p d = Some f" "f \<le> length w1"
    using str_find_None[of d "drop p t" "length w1"] str_find_Some[of d "drop p t"] Nil.prems(2)
    by (cases "str_find d (drop p t)") (auto simp: find_from_def not_less dest: leI)
  obtain r where r: "drop (p + f) t = d @ r" using find_from_Some(3)[OF f(1)] by (auto simp: starts_with_iff)
  have "drop p t = take f (drop p t) @ d @ r" using r by (metis add.commute append_take_drop_id drop_drop)
  then have "map Inl (take f (drop p t)) @ map Inl d @ map Inl r = w1 @ map Inl d @ X" using word by (metis map_append)
  then have "\<exists>Y. map Inl r = Y @ X" by (rule leftmost_leaves_more) (use f(2) in simp)
  moreover have "drop (p + f + length d) t = r" using r by (metis add.commute append_eq_conv_conj drop_drop)
  ultimately show ?case using f(1) by auto
next
  case (Cons u us)
  then obtain y types' where types: "types = y # types'" by (cases types) simp_all
  have word: "map Inl (drop p t) @ Inr y # weave (u # us) types' = w1 @ map Inl d @ X" using Cons.prems(4) types by simp
  show ?case
  proof (cases "find_from t p d")
    case None
    then have "length (drop p t) < length w1 + length d"
      using occurrence_in_prefix[OF word] str_find_None[of d "drop p t"] Cons.prems(2) by (force simp: find_from_def not_less)
    then obtain w' where w': "weave (u # us) types' = w' @ map Inl d @ X"
      using occurrence_after_type[OF word assms(1)] by blast
    have "is_char_boundary u 0" using Cons.prems(3) by (simp add: boundary_zero)
    then obtain k p' Y where k: "search_texts d (s + 1) 0 (u # us) = Some (s + 1 + k, p')" "k < length (u # us)"
      "weave (drop (p' + length d) ((u # us) ! k) # drop k us) (drop k types') = Y @ X"
      using Cons.IH[of types' u 0 w' "s + 1"] w' Cons.prems types by auto
    then show ?thesis using None types by (intro exI[of _ "Suc k"] exI[of _ p'] exI[of _ Y]) simp
  next
    case (Some f)
    obtain r where r: "drop (p + f) t = d @ r" using find_from_Some(3)[OF Some] by (auto simp: starts_with_iff)
    have t: "drop p t = take f (drop p t) @ d @ r" using r by (metis add.commute append_take_drop_id drop_drop)
    have near: "f \<le> length w1"
    proof (rule ccontr)
      assume "\<not> f \<le> length w1"
      then have "length w1 + length d \<le> length (drop p t)" using arg_cong[OF t, of length] find_from_Some(2)[OF Some] by simp
      then show False using occurrence_in_prefix[OF word] find_from_Some(4)[OF Some] \<open>\<not> f \<le> length w1\<close> by (simp add: add.commute)
    qed
    have "map Inl (take f (drop p t)) @ map Inl d @ weave (r # u # us) types = w1 @ map Inl d @ X"
      using word t types by (metis append.assoc append_Cons append_Nil list.case(2) list.sel(3) map_append weave.simps(3))
    then have "\<exists>Y. weave (r # u # us) types = Y @ X" by (rule leftmost_leaves_more) (use near in simp)
    moreover have "drop (p + f + length d) t = r" using r by (metis add.commute append_eq_conv_conj drop_drop)
    ultimately show ?thesis using Some by (intro exI[of _ 0] exI[of _ "p + f"]) auto
  qed
qed

section \<open>The loop over the delimiters\<close>

definition matchable :: "rstr list \<Rightarrow> ty list \<Rightarrow> bool" where
  "matchable texts types \<longleftrightarrow> length texts = Suc (length types) \<and> list_all valid_utf8 texts"

definition cursor_ok :: "rstr list \<Rightarrow> nat \<times> nat \<Rightarrow> bool" where
  "cursor_ok texts cursor \<longleftrightarrow> fst cursor < length texts \<and> is_char_boundary (texts ! fst cursor) (snd cursor)"

text \<open>Where the next match ends lies behind the cursor, on a boundary, in front of the delimiter.\<close>

definition match_end :: "rstr list \<Rightarrow> nat \<times> nat \<Rightarrow> rstr \<Rightarrow> nat \<times> nat \<Rightarrow> bool" where
  "match_end texts cursor d fin \<longleftrightarrow>
     fst cursor \<le> fst fin \<and> (fst fin = fst cursor \<longrightarrow> snd cursor \<le> snd fin) \<and> cursor_ok texts fin
     \<and> cursor_ok texts (fst fin, snd fin + length d) \<and> starts_with (drop (snd fin) (texts ! fst fin)) d"

lemma character_boundary:
  assumes "valid_utf8 s" "is_char_boundary s p" "p < length s"
  shows "is_char_boundary s (p + char_width (s ! p))"
proof -
  have "valid_utf8 (s ! p # drop (Suc p) s)"
    using boundary_valid[OF assms(1,2)] Cons_nth_drop_Suc[OF assms(3)] by simp
  then obtain ch rest where r: "drop (Suc p) s = ch @ rest" "valid_utf8 rest" "Suc (length ch) = char_width (s ! p)"
    by (rule valid_utf8_char)
  have "drop (p + char_width (s ! p)) s = drop (length ch) (drop (Suc p) s)" by (simp add: r(3)[symmetric] add.commute)
  then have "drop (p + char_width (s ! p)) s = rest" using r(1) by simp
  moreover have "p + char_width (s ! p) \<le> length s"
    using arg_cong[OF r(1), of length] r(3) assms(3) by simp
  ultimately show ?thesis using r(2) by (intro valid_boundary) simp_all
qed

lemma next_match_spec:
  assumes ok: "matchable texts types" "cursor_ok texts cursor" and d: "valid_utf8 d"
  shows "\<exists>r. next_match texts cursor d = Some r \<and> (\<forall>fin. r = Some fin \<longrightarrow> match_end texts cursor d fin)"
proof -
  obtain seg pos where c: "cursor = (seg, pos)" by (cases cursor)
  have seg: "seg < length texts" "is_char_boundary (texts ! seg) pos" using ok(2) by (simp_all add: cursor_ok_def c)
  have valid: "valid_utf8 (texts ! s)" if "s < length texts" for s using ok(1) that by (simp add: matchable_def list_all_length)
  consider "d \<noteq> []" | "d = []" "pos < length (texts ! seg)" | "d = []" "\<not> pos < length (texts ! seg)" "seg < length texts - 1"
    | "d = []" "\<not> pos < length (texts ! seg)" "\<not> seg < length texts - 1" by blast
  then show ?thesis
  proof cases
    case 1
    have "match_end texts cursor d (s, p)" if found: "search_texts d seg pos (drop seg texts) = Some (s, p)" for s p
    proof -
      obtain k where k: "k < length texts - seg" "s = seg + k" "k = 0 \<longrightarrow> pos \<le> p" "starts_with (drop p (texts ! s)) d"
        using search_texts_Some[OF found] by auto
      moreover have "s < length texts" using k by simp
      ultimately show ?thesis
        using occurrence_boundary[OF valid d 1 k(4)] by (simp add: match_end_def cursor_ok_def c)
    qed
    then show ?thesis using 1 by (simp add: next_match_def c)
  next
    case 2
    have rest: "drop pos (texts ! seg) = (texts ! seg) ! pos # drop (Suc pos) (texts ! seg)"
      using Cons_nth_drop_Suc[OF 2(2)] by simp
    have "match_end texts cursor d (seg, pos + char_width (texts ! seg ! pos))"
      using 2 seg character_boundary[OF valid[OF seg(1)] seg(2) 2(2)]
      by (simp add: match_end_def cursor_ok_def c starts_with_def)
    moreover have "slice (texts ! seg) pos (length (texts ! seg)) = Some (drop pos (texts ! seg))"
      using 2(2) seg(2) boundary_length by (simp add: slice_def)
    ultimately show ?thesis using 2 rest by (simp add: next_match_def c)
  next
    case 3
    then have "match_end texts cursor d (seg + 1, 0)"
      using boundary_zero[OF valid[of "seg + 1"]] by (simp add: match_end_def cursor_ok_def c starts_with_def)
    then show ?thesis using 3 by (simp add: next_match_def c)
  qed (simp add: next_match_def c)
qed

lemma match_end_captured:
  assumes "matchable texts types" "cursor_ok texts cursor" "match_end texts cursor d fin"
  shows "\<exists>m. add_match texts types cursor (fst fin) (snd fin) = Some m
    \<and> remaining texts types cursor = captured_word m @ map Inl d @ remaining texts types (fst fin, snd fin + length d)"
proof -
  obtain seg pos s p where c: "cursor = (seg, pos)" "fin = (s, p)" by (cases cursor; cases fin)
  have seg: "seg < length texts" "is_char_boundary (texts ! seg) pos" using assms(2) by (simp_all add: cursor_ok_def c)
  have e: "seg \<le> s" "s = seg \<Longrightarrow> pos \<le> p" "s < length texts" "is_char_boundary (texts ! s) p" "starts_with (drop p (texts ! s)) d"
    using assms(3) by (simp_all add: match_end_def cursor_ok_def c)
  have "is_char_boundary (texts ! s) 0" using assms(1) e(3) by (simp add: matchable_def list_all_length boundary_zero)
  then obtain m where m: "add_match texts types (seg, pos) s p = Some m"
    using add_match_returns[where types = types, OF e(1,2) _ seg(2) e(4)] assms(1) e(3) by (auto simp: matchable_def)
  have r: "remaining texts types (seg, pos) = captured_word m @ remaining texts types (s, p)"
    using add_match_remaining[OF m _ seg(1) e(3)] assms(1) by (simp add: matchable_def)
  obtain r' where "drop p (texts ! s) = d @ r'" using e(5) by (auto simp: starts_with_iff)
  moreover from this have "drop (p + length d) (texts ! s) = r'" by (metis add.commute append_eq_conv_conj drop_drop)
  ultimately have "remaining texts types (s, p) = map Inl d @ remaining texts types (s, p + length d)"
    by (simp add: remaining_def weave_append_hd)
  then show ?thesis using m r c by simp
qed

lemma last_match:
  assumes "matchable texts types" "cursor_ok texts cursor"
  shows "\<exists>m. match_delimiters texts types cursor [] = Some (Some [m]) \<and> remaining texts types cursor = captured_word m"
proof -
  let ?s = "length texts - 1"
  have ne: "texts \<noteq> []" using assms(1) by (auto simp: matchable_def)
  then have "match_end texts cursor [] (?s, length (texts ! ?s))"
    using assms(2) boundary_le by (auto simp: match_end_def cursor_ok_def starts_with_def boundary_length)
  from match_end_captured[OF assms this] obtain m where m: "add_match texts types cursor ?s (length (texts ! ?s)) = Some m"
    "remaining texts types cursor = captured_word m @ remaining texts types (?s, length (texts ! ?s))" by auto
  moreover have "remaining texts types (?s, length (texts ! ?s)) = []" using ne by (simp add: remaining_def)
  ultimately show ?thesis by simp
qed

lemma match_delimiters_sound:
  assumes "matchable texts types" "cursor_ok texts cursor" "\<forall>d \<in> set ds. valid_utf8 d"
  shows "\<exists>r. match_delimiters texts types cursor ds = Some r
    \<and> (\<forall>ms. r = Some ms \<longrightarrow> length ms = Suc (length ds) \<and> remaining texts types cursor = around ds (map captured_word ms))"
  using assms(2,3)
proof (induction ds arbitrary: cursor)
  case Nil
  then show ?case using last_match[OF assms(1), of cursor] by (auto simp del: match_delimiters.simps)
next
  case (Cons d ds)
  have "valid_utf8 d" using Cons.prems(2) by simp
  from next_match_spec[OF assms(1) Cons.prems(1) this]
  obtain r where r: "next_match texts cursor d = Some r" "\<And>fin. r = Some fin \<Longrightarrow> match_end texts cursor d fin" by blast
  show ?case
  proof (cases r)
    case (Some fin)
    obtain s p where fin: "fin = (s, p)" by (cases fin)
    obtain m where m: "add_match texts types cursor s p = Some m"
      "remaining texts types cursor = captured_word m @ map Inl d @ remaining texts types (s, p + length d)"
      using match_end_captured[OF assms(1) Cons.prems(1) r(2)[OF Some]] fin by auto
    have "cursor_ok texts (s, p + length d)" using r(2)[OF Some] fin by (simp add: match_end_def)
    then obtain r' where r': "match_delimiters texts types (s, p + length d) ds = Some r'"
      "\<And>ms. r' = Some ms \<Longrightarrow> length ms = Suc (length ds) \<and> remaining texts types (s, p + length d) = around ds (map captured_word ms)"
      using Cons.IH[of "(s, p + length d)"] Cons.prems(2) by auto
    show ?thesis using r(1) r' m Some fin by (cases r') simp_all
  qed (use r in simp)
qed

lemma around_prepend: "ws \<noteq> [] \<Longrightarrow> Y @ around ds ws = around ds ((Y @ hd ws) # tl ws)"
  by (cases ws; cases ds) simp_all

lemma match_delimiters_complete:
  assumes "matchable texts types" "cursor_ok texts cursor" "\<forall>d \<in> set ds. valid_utf8 d \<and> d \<noteq> []"
    and "length ws = Suc (length ds)" "remaining texts types cursor = around ds ws"
  shows "match_delimiters texts types cursor ds \<noteq> Some None"
  using assms(2-)
proof (induction ds arbitrary: cursor ws)
  case Nil
  then show ?case using last_match[OF assms(1), of cursor] by (auto simp del: match_delimiters.simps)
next
  case (Cons d ds)
  obtain seg pos where c: "cursor = (seg, pos)" by (cases cursor)
  have seg: "seg < length texts" "is_char_boundary (texts ! seg) pos" using Cons.prems(1) by (simp_all add: cursor_ok_def c)
  have d: "valid_utf8 d" "d \<noteq> []" using Cons.prems(2) by simp_all
  obtain w ws' where w: "ws = w # ws'" "length ws' = Suc (length ds)" using Cons.prems(3) by (cases ws) auto
  have len: "length (drop (Suc seg) texts) \<le> length (drop seg types)" using assms(1) by (simp add: matchable_def)
  have valid: "\<forall>u \<in> set (drop (Suc seg) texts). valid_utf8 u" using assms(1) by (auto simp: matchable_def list_all_iff dest: in_set_dropD)
  have word: "weave (drop pos (texts ! seg) # drop (Suc seg) texts) (drop seg types) = w @ map Inl d @ around ds ws'"
    using Cons.prems(4) w by (simp add: remaining_def c)
  obtain k p Y where k: "search_texts d seg pos (texts ! seg # drop (Suc seg) texts) = Some (seg + k, p)"
    "k < length (texts ! seg # drop (Suc seg) texts)"
    "weave (drop (p + length d) ((texts ! seg # drop (Suc seg) texts) ! k) # drop k (drop (Suc seg) texts)) (drop k (drop seg types)) = Y @ around ds ws'"
    using search_texts_complete[OF d(2) len seg(2) valid word] by blast
  have nm: "next_match texts cursor d = Some (Some (seg + k, p))"
    using k(1) d(2) Cons_nth_drop_Suc[OF seg(1)] by (simp add: next_match_def c)
  have "match_end texts cursor d (seg + k, p)" using next_match_spec[OF assms(1) Cons.prems(1) d(1)] nm by simp
  then have ok: "cursor_ok texts (seg + k, p + length d)"
    and m: "\<exists>m. add_match texts types cursor (seg + k) p = Some m"
    using match_end_captured[OF assms(1) Cons.prems(1), of d "(seg + k, p)"] by (auto simp: match_end_def)
  have "(texts ! seg # drop (Suc seg) texts) ! k = texts ! (seg + k)"
    using k(2) seg(1) by (cases k) simp_all
  then have "remaining texts types (seg + k, p + length d) = Y @ around ds ws'"
    using k(3) by (simp add: remaining_def add.commute)
  then have "remaining texts types (seg + k, p + length d) = around ds ((Y @ hd ws') # tl ws')"
    using around_prepend[of ws' Y ds] w(2) by (cases ws') auto
  then have "match_delimiters texts types (seg + k, p + length d) ds \<noteq> Some None"
    using Cons.IH[OF ok, of "(Y @ hd ws') # tl ws'"] Cons.prems(2) w(2) by (cases ws') auto
  then show ?case using nm m by auto
qed

section \<open>The whole match\<close>

lemma weave_hd:
  "ts \<noteq> [] \<Longrightarrow> length ts = Suc (length types) \<Longrightarrow>
   \<exists>Z. weave ts types = map Inl (hd ts) @ Z \<and> (Z = [] \<or> (\<exists>y Z'. Z = Inr y # Z'))"
  by (cases ts; cases "tl ts"; cases types) auto

lemma weave_end:
  "length ts = Suc (length types) \<Longrightarrow> \<exists>W. weave ts types = W @ map Inl (last ts) \<and> (W = [] \<or> (\<exists>W' y. W = W' @ [Inr y]))"
proof (induction types arbitrary: ts)
  case Nil
  then show ?case by (cases ts) auto
next
  case (Cons y types)
  obtain t ts1 where t: "ts = t # ts1" using Cons.prems by (cases ts) simp_all
  obtain u ts2 where u: "ts1 = u # ts2" using Cons.prems t by (cases ts1) simp_all
  obtain W where "weave ts1 types = W @ map Inl (last ts1)" "W = [] \<or> (\<exists>W' y. W = W' @ [Inr y])"
    using Cons.IH[of ts1] Cons.prems t by auto
  then show ?case unfolding t u by (intro exI[of _ "map Inl t @ Inr y # W"]) auto
qed

text \<open>The text in front of the first type is all a text at the start of the word can be taken from.\<close>

lemma word_starts_with:
  assumes eq: "map Inl t @ Z = map Inl d @ X" and Z: "Z = [] \<or> (\<exists>y Z'. Z = Inr y # Z')"
  shows "starts_with t d"
proof (cases "length d \<le> length t")
  case True
  then show ?thesis using occurrence_in_prefix[of t Z "[]" d X] eq by simp
next
  case False
  then have "d \<noteq> []" by auto
  show ?thesis
  proof (cases "Z = []")
    case True
    then show ?thesis using arg_cong[OF eq, of length] False by simp
  next
    case False
    then show ?thesis using Z occurrence_after_type[of t _ _ "[]" d X] eq \<open>d \<noteq> []\<close> \<open>\<not> length d \<le> length t\<close> by auto
  qed
qed

lemma word_ends_with:
  assumes eq: "W @ map Inl t = X @ map Inl d" and W: "W = [] \<or> (\<exists>W' y. W = W' @ [Inr y])"
  shows "ends_with t d"
proof -
  have "map Inl (rev t) @ rev W = map Inl (rev d) @ rev X" using arg_cong[OF eq, of rev] by (simp add: rev_map)
  moreover have "rev W = [] \<or> (\<exists>y Z'. rev W = Inr y # Z')" using W by (elim disjE exE) simp_all
  ultimately have "starts_with (rev t) (rev d)" by (rule word_starts_with)
  then obtain r where "rev t = rev d @ r" by (auto simp: starts_with_iff)
  then have "t = rev r @ d" by (metis rev_append rev_rev_ident)
  then show ?thesis by (simp add: ends_with_def)
qed

text \<open>Whether the ends of the source fit the ends of the target.\<close>

definition ends_fit :: "rstr list \<Rightarrow> rstr list \<Rightarrow> bool" where
  "ends_fit source_texts target_texts \<longleftrightarrow>
     \<not> (length source_texts = 1 \<and> length (hd source_texts) < length (hd target_texts) + length (last target_texts))
     \<and> starts_with (hd source_texts) (hd target_texts) \<and> ends_with (last source_texts) (last target_texts)"

lemma ends_fit_needed:
  assumes "length source_texts = Suc (length types)" "weave source_texts types = filled target_texts ws"
  shows "ends_fit source_texts target_texts"
proof -
  have ne: "source_texts \<noteq> []" using assms(1) by auto
  obtain Z where Z: "weave source_texts types = map Inl (hd source_texts) @ Z" "Z = [] \<or> (\<exists>y Z'. Z = Inr y # Z')"
    using weave_hd[OF ne assms(1)] by blast
  obtain W where W: "weave source_texts types = W @ map Inl (last source_texts)" "W = [] \<or> (\<exists>W' y. W = W' @ [Inr y])"
    using weave_end[OF assms(1)] by blast
  have "map Inl (hd source_texts) @ Z = map Inl (hd target_texts) @ around (butlast (tl target_texts)) ws @ map Inl (last target_texts)"
    using Z(1) assms(2) by (simp add: filled_def)
  then have "starts_with (hd source_texts) (hd target_texts)" by (rule word_starts_with) (rule Z(2))
  moreover have "ends_with (last source_texts) (last target_texts)"
    using W assms(2) word_ends_with[of W "last source_texts" _ "last target_texts"] unfolding filled_def by (metis append.assoc)
  moreover have "length (hd target_texts) + length (last target_texts) \<le> length (hd source_texts)" if "length source_texts = 1"
  proof -
    obtain s where s: "source_texts = [s]" using \<open>length source_texts = 1\<close> by (auto simp: length_Suc_conv)
    show ?thesis using arg_cong[OF assms(2), of length] unfolding s by (simp add: filled_def)
  qed
  ultimately show ?thesis unfolding ends_fit_def by (metis not_less)
qed

lemma infer_starts:
  assumes len: "length source_texts = Suc (length types)" and valid: "list_all valid_utf8 source_texts" "list_all valid_utf8 target_texts"
    and two: "2 \<le> length target_texts" and fit: "ends_fit source_texts target_texts"
  obtains texts cursor where "matchable texts types" "cursor_ok texts cursor"
    "infer_from_literal_parts source_texts types target_texts = match_delimiters texts types cursor (butlast (tl target_texts))"
    "weave source_texts types = map Inl (hd target_texts) @ remaining texts types cursor @ map Inl (last target_texts)"
proof -
  let ?start = "hd target_texts" and ?fin = "last target_texts"
  have ne: "source_texts \<noteq> []" "target_texts \<noteq> []" using len two by auto
  have vt: "valid_utf8 ?start" "valid_utf8 ?fin" using valid(2) ne(2) by (auto simp: list_all_iff)
  obtain r where r: "last source_texts = r @ ?fin" using fit unfolding ends_fit_def ends_with_iff by blast
  have "valid_utf8 (r @ ?fin)" using valid(1) ne(1) r[symmetric] by (simp add: list_all_iff)
  then have vr: "valid_utf8 r" using valid_utf8_split[of r ?fin] valid_utf8_hd[OF vt(2)] by blast
  have sl: "slice (last source_texts) 0 (length (last source_texts) - length ?fin) = Some r"
    using valid_boundary[of "length r" "r @ ?fin"] vt(2) boundary_zero[OF \<open>valid_utf8 (r @ ?fin)\<close>] by (simp add: r slice_def)
  let ?texts = "butlast source_texts @ [r]"
  have "list_all valid_utf8 (butlast source_texts)" using valid(1) by (auto simp: list_all_iff dest: in_set_butlastD)
  then have m: "matchable ?texts types" using len vr by (simp add: matchable_def)
  have "starts_with (?texts ! 0) ?start"
  proof (cases "length source_texts = 1")
    case True
    then obtain s where s: "source_texts = [s]" by (auto simp: length_Suc_conv)
    then show ?thesis using fit r by (auto simp: ends_fit_def starts_with_def)
  next
    case False
    then have "1 < length source_texts" using ne(1) by (cases source_texts) auto
    then show ?thesis using fit ne by (simp add: ends_fit_def nth_append hd_conv_nth nth_butlast)
  qed
  then obtain t where t: "?texts ! 0 = ?start @ t" by (auto simp: starts_with_iff)
  have "valid_utf8 (?texts ! 0)" using m by (simp add: matchable_def list_all_length)
  then have "cursor_ok ?texts (0, length ?start)"
    using valid_boundary[of "length ?start" "?texts ! 0"] valid_utf8_append[OF vt(1), of t] t by (simp add: cursor_ok_def)
  moreover have "infer_from_literal_parts source_texts types target_texts = match_delimiters ?texts types (0, length ?start) (butlast (tl target_texts))"
  proof -
    have "take (max (length target_texts - 1) 1 - 1) (drop 1 target_texts) = butlast (tl target_texts)"
      using two by (simp add: butlast_conv_take drop_Suc max_def)
    moreover have "length source_texts = 1 \<longleftrightarrow> length source_texts - 1 = 0" using ne(1) by (cases source_texts) simp_all
    ultimately show ?thesis
      using fit sl ne by (auto simp: infer_from_literal_parts_def ends_fit_def hd_conv_nth last_conv_nth Let_def)
  qed
  moreover have "weave source_texts types = map Inl ?start @ remaining ?texts types (0, length ?start) @ map Inl ?fin"
  proof -
    have "weave source_texts types = weave (butlast source_texts @ [r @ ?fin]) types" using ne(1) r by (metis append_butlast_last_id)
    also have "\<dots> = weave ?texts types @ map Inl ?fin" by (rule weave_last)
    also have "?texts = (?start @ t) # drop 1 ?texts" using t by (cases ?texts) auto
    finally show ?thesis using t by (simp add: weave_append_hd remaining_def)
  qed
  ultimately show thesis using that m by blast
qed

lemma infer_refuses_ends:
  assumes "source_texts \<noteq> []" "target_texts \<noteq> []" "\<not> ends_fit source_texts target_texts"
  shows "infer_from_literal_parts source_texts types target_texts = Some None"
proof -
  have "length source_texts = 1 \<longleftrightarrow> length source_texts - 1 = 0" using assms(1) by (cases source_texts) simp_all
  then show ?thesis
    using assms by (auto simp: infer_from_literal_parts_def ends_fit_def hd_conv_nth last_conv_nth Let_def)
qed

text \<open>
  C37. What a template captures gives the source back: the pieces captured for the placeholders, with the
  texts of the target around them, are the source, whether it is a string or a template with types of
  its own.
\<close>

theorem captured_pieces_roundtrip:
  assumes "length source_texts = Suc (length source_types)" "list_all valid_utf8 source_texts" "list_all valid_utf8 target_texts"
    and "2 \<le> length target_texts" "infer_from_literal_parts source_texts source_types target_texts = Some (Some ms)"
  shows "length ms = length target_texts - 1 \<and> weave source_texts source_types = filled target_texts (map captured_word ms)"
proof -
  have "source_texts \<noteq> []" "target_texts \<noteq> []" using assms(1,4) by auto
  then have "ends_fit source_texts target_texts" using infer_refuses_ends assms(5) by fastforce
  from infer_starts[OF assms(1-4) this] obtain texts cursor where s: "matchable texts source_types" "cursor_ok texts cursor"
    "infer_from_literal_parts source_texts source_types target_texts = match_delimiters texts source_types cursor (butlast (tl target_texts))"
    "weave source_texts source_types = map Inl (hd target_texts) @ remaining texts source_types cursor @ map Inl (last target_texts)"
    by blast
  have "\<forall>d \<in> set (butlast (tl target_texts)). valid_utf8 d"
    using assms(3) by (metis in_set_butlastD list.set_sel(2) list_all_iff tl_Nil)
  from match_delimiters_sound[OF s(1,2) this] show ?thesis
    using s(3,4) assms(4,5) by (auto simp: filled_def)
qed

theorem captured_pieces_roundtrip_witness:
  "infer_from_literal_parts [''a'', ''b-c-z''] [NumberT] [[], ''-'', ''z'']
     = Some (Some [\<lparr>captured_texts = [''a'', ''b''], captured_types = [NumberT]\<rparr>, \<lparr>captured_texts = [''c-''], captured_types = []\<rparr>])
   \<and> weave [''a'', ''b-c-z''] [NumberT] = filled [[], ''-'', ''z''] [[Inl (CHR ''a''), Inr NumberT, Inl (CHR ''b'')], map Inl ''c-'']"
proof -
  have run: "infer_from_literal_parts [''a'', ''b-c-z''] [NumberT] [[], ''-'', ''z'']
     = Some (Some [\<lparr>captured_texts = [''a'', ''b''], captured_types = [NumberT]\<rparr>, \<lparr>captured_texts = [''c-''], captured_types = []\<rparr>])"
    by code_simp
  have "list_all valid_utf8 [''a'', ''b-c-z'']" "list_all valid_utf8 [[], ''-'', ''z'']" by code_simp+
  from captured_pieces_roundtrip[OF _ this _ run] run show ?thesis by (simp add: captured_word_def)
qed

text \<open>
  C38. The matcher never slices off a character boundary, and it refuses a source exactly if no pieces at all
  give it back, as long as no two placeholders of the target stand next to each other: taking every
  delimiter at its leftmost place loses no match.
\<close>

theorem leftmost_matching_complete:
  assumes "length source_texts = Suc (length source_types)" "list_all valid_utf8 source_texts" "list_all valid_utf8 target_texts"
    and "2 \<le> length target_texts" "[] \<notin> set (butlast (tl target_texts))"
  shows "infer_from_literal_parts source_texts source_types target_texts \<noteq> None
    \<and> (infer_from_literal_parts source_texts source_types target_texts = Some None
       \<longleftrightarrow> (\<nexists>ws. length ws = length target_texts - 1 \<and> weave source_texts source_types = filled target_texts ws))"
proof (cases "ends_fit source_texts target_texts")
  case False
  moreover have "source_texts \<noteq> []" "target_texts \<noteq> []" using assms(1,4) by auto
  ultimately show ?thesis using infer_refuses_ends ends_fit_needed[OF assms(1)] by fastforce
next
  case True
  from infer_starts[OF assms(1-4) this] obtain texts cursor where s: "matchable texts source_types" "cursor_ok texts cursor"
    "infer_from_literal_parts source_texts source_types target_texts = match_delimiters texts source_types cursor (butlast (tl target_texts))"
    "weave source_texts source_types = map Inl (hd target_texts) @ remaining texts source_types cursor @ map Inl (last target_texts)"
    by blast
  have d: "\<forall>d \<in> set (butlast (tl target_texts)). valid_utf8 d \<and> d \<noteq> []"
    using assms(3,5) by (metis in_set_butlastD list.set_sel(2) list_all_iff tl_Nil)
  obtain r where r: "match_delimiters texts source_types cursor (butlast (tl target_texts)) = Some r"
    "\<And>ms. r = Some ms \<Longrightarrow> length ms = Suc (length (butlast (tl target_texts)))
      \<and> remaining texts source_types cursor = around (butlast (tl target_texts)) (map captured_word ms)"
    using match_delimiters_sound[OF s(1,2)] d by blast
  have len: "Suc (length (butlast (tl target_texts))) = length target_texts - 1" using assms(4) by simp
  have "r \<noteq> None" if "length ws = length target_texts - 1" "weave source_texts source_types = filled target_texts ws" for ws
    using match_delimiters_complete[OF s(1,2) d] that len r(1) s(4) by (auto simp: filled_def)
  moreover have "\<exists>ws. length ws = length target_texts - 1 \<and> weave source_texts source_types = filled target_texts ws" if "r = Some ms" for ms
    using r(2)[OF that] len s(4) by (intro exI[of _ "map captured_word ms"]) (simp add: filled_def)
  ultimately show ?thesis using s(3) r(1) by (cases r) auto
qed

theorem leftmost_matching_complete_witness:
  "infer_from_literal_parts [''get-a-b''] [] [''get-'', ''-'', ''c''] = Some None
   \<and> (\<nexists>ws. length ws = 2 \<and> weave [''get-a-b''] [] = filled [''get-'', ''-'', ''c''] ws)"
proof -
  have run: "infer_from_literal_parts [''get-a-b''] [] [''get-'', ''-'', ''c''] = Some None" by code_simp
  have "list_all valid_utf8 [''get-a-b'']" "list_all valid_utf8 [''get-'', ''-'', ''c'']" by code_simp+
  from leftmost_matching_complete[OF _ this, of "[]"] run show ?thesis by simp
qed

section \<open>Numeric strings\<close>

text \<open>
  The test of a \<open>number\<close> placeholder checks the form of the text only, although it is to accept what
  \<open>Number\<close> reads as a finite number: \<open>1e999\<close> is accepted. The test of a \<open>bigint\<close> placeholder accepts a
  leading zero, after which the text with \<open>n\<close> behind it is no bigint literal.
\<close>

theorem infinite_number_accepted:
  "is_valid_number_string ''1e999'' \<and> is_valid_bigint_string ''007''"
  by code_simp

end
