(* ===== verification/Import_Graph.thy ===== *)
theory Import_Graph
  imports Package_Maps Unix_Paths
begin

text \<open>
  The import graph of the loader (\<open>crates/surge-ts/src/import_graph.rs\<close>, with the cache of scanned
  sources of \<open>specifier_scan.rs\<close>): from the sources of a project, the files their relative and mapped
  specifiers lead to are read and become sources in turn, a wave of sources at a time.

  The record \<open>graph_env\<close> holds what the code asks of its surroundings: the answers of the shared
  probe (which do not depend on its cache, see \<open>Probe_Laws\<close>), directories, file contents, the JSON
  parser, the realpath of the system, the specifiers a parse of a source yields, and which indices the
  threads of a parallel read or scan take from their shared counter. The answers do not change during
  a run, and the canonicalisation memo is transparent (\<open>Path_Laws\<close>), so paths are canonicalised
  directly. A panic of path normalisation is \<open>None\<close>. The optional dump of the edges is not modelled.
\<close>

record graph_env =
  is_probed_file :: "rstr \<Rightarrow> bool"
  is_directory :: "rstr \<Rightarrow> bool"
  read_text :: "rstr \<Rightarrow> rstr option"
  json_of_text :: "rstr \<Rightarrow> json option"
  graph_realpath :: "rstr \<Rightarrow> rstr option"
  written_specifiers :: "rstr \<Rightarrow> rstr \<Rightarrow> rstr list"
  custom_host :: bool
  parallelism :: nat
  read_split :: "rstr list \<Rightarrow> nat list list"
  scan_split :: "nat list \<Rightarrow> nat list list"

record graph_options =
  json_modules :: bool
  path_table :: "path_mapping list"
  graph_base_url :: "rstr option"
  graph_root :: rstr

type_synonym probe_memo = "rstr \<rightharpoonup> bool"

section \<open>Which files join the graph\<close>

definition path_ends_with_ignore_ascii_case :: "rstr \<Rightarrow> rstr \<Rightarrow> bool" where
  "path_ends_with_ignore_ascii_case path tail_str \<longleftrightarrow>
     length tail_str \<le> length path
     \<and> map ascii_lower (drop (length path - length tail_str) path) = map ascii_lower tail_str"

definition path_contains_ignore_ascii_case :: "rstr \<Rightarrow> rstr \<Rightarrow> bool" where
  "path_contains_ignore_ascii_case path needle =
     list_ex (\<lambda>i. map ascii_lower (take (length needle) (drop i path)) = map ascii_lower needle)
       [0..<length path + 1 - length needle]"

definition is_loadable_graph_file :: "rstr \<Rightarrow> bool \<Rightarrow> bool" where
  "is_loadable_graph_file path resolve_json =
     (if path_ends_with_ignore_ascii_case path ''.json'' then resolve_json
      else path_ends_with_ignore_ascii_case path ''.ts'' \<or> path_ends_with_ignore_ascii_case path ''.tsx''
           \<or> path_ends_with_ignore_ascii_case path ''.mts'' \<or> path_ends_with_ignore_ascii_case path ''.cts'')"

definition is_javascript_file :: "rstr \<Rightarrow> bool" where
  "is_javascript_file path =
     list_ex (path_ends_with_ignore_ascii_case path) [''.js'', ''.jsx'', ''.mjs'', ''.cjs'']"

definition is_dependency_javascript_source_file :: "rstr \<Rightarrow> bool" where
  "is_dependency_javascript_source_file path =
     (let is_node_modules = path_contains_ignore_ascii_case path ''/node_modules/''
                            \<or> path_contains_ignore_ascii_case path (CHR 0x5C # ''node_modules'' @ [CHR 0x5C]);
          is_javascript_source =
            path_ends_with_ignore_ascii_case path ''.js'' \<or> path_ends_with_ignore_ascii_case path ''.jsx''
            \<or> path_ends_with_ignore_ascii_case path ''.mjs'' \<or> path_ends_with_ignore_ascii_case path ''.cjs''
      in is_node_modules \<and> is_javascript_source)"

section \<open>Probing candidates\<close>

definition candidate_is_existing_file :: "graph_env \<Rightarrow> rstr \<Rightarrow> probe_memo \<Rightarrow> bool \<times> probe_memo" where
  "candidate_is_existing_file env candidate memo =
     (case memo candidate of
        Some hit \<Rightarrow> (hit, memo)
      | None \<Rightarrow> let is_file = is_probed_file env candidate in (is_file, memo(candidate \<mapsto> is_file)))"

text \<open>The loop over candidates that \<open>resolve_relative_candidate\<close> and \<open>probe_loadable_candidates\<close> share.\<close>

fun first_loadable :: "graph_env \<Rightarrow> bool \<Rightarrow> rstr list \<Rightarrow> probe_memo \<Rightarrow> rstr option \<times> probe_memo" where
  "first_loadable env json [] memo = (None, memo)"
| "first_loadable env json (candidate # candidates) memo =
     (let (found, memo1) = candidate_is_existing_file env candidate memo
      in if \<not> found then first_loadable env json candidates memo1
         else if is_dependency_javascript_source_file candidate \<or> \<not> is_loadable_graph_file candidate json
         then first_loadable env json candidates memo1
         else (Some candidate, memo1))"

fun first_on_disk :: "graph_env \<Rightarrow> rstr list \<Rightarrow> probe_memo \<Rightarrow> rstr option \<times> probe_memo" where
  "first_on_disk env [] memo = (None, memo)"
| "first_on_disk env (candidate # candidates) memo =
     (let (found, memo1) = candidate_is_existing_file env candidate memo
      in if found then (Some candidate, memo1) else first_on_disk env candidates memo1)"

definition importer_directory :: "rstr \<Rightarrow> rstr" where
  "importer_directory importer = (case path_parent importer of Some dir \<Rightarrow> dir | None \<Rightarrow> [])"

definition resolve_relative_candidate ::
    "graph_env \<Rightarrow> bool \<Rightarrow> rstr \<Rightarrow> rstr \<Rightarrow> probe_memo \<Rightarrow> (rstr option \<times> probe_memo) option" where
  "resolve_relative_candidate env json importer specifier memo =
     Option.bind (normalize_path_string specifier) (\<lambda>normalized_specifier.
       Option.bind (normalize_path_string (path_join (importer_directory importer) normalized_specifier)) (\<lambda>joined.
         Some (first_loadable env json
           (if relative_specifier_names_directory specifier then directory_index_candidates joined
            else relative_import_candidates joined normalized_specifier) memo)))"

section \<open>JavaScript modules on disk\<close>

definition removable_extensions :: "rstr list" where
  "removable_extensions =
     [''.d.ts'', ''.d.mts'', ''.d.cts'', ''.mjs'', ''.mts'', ''.cjs'', ''.cts'', ''.ts'', ''.js'', ''.tsx'', ''.jsx'', ''.json'']"

definition extension_replacements :: "bool \<Rightarrow> rstr \<Rightarrow> rstr list" where
  "extension_replacements json extension =
     (if extension \<in> {''.mjs'', ''.mts'', ''.d.mts''} then [''.mts'', ''.d.mts'', ''.mjs'']
      else if extension \<in> {''.cjs'', ''.cts'', ''.d.cts''} then [''.cts'', ''.d.cts'', ''.cjs'']
      else if extension = ''.json'' \<and> json then [''.d.json.ts'', ''.json'']
      else if extension = ''.json'' then [''.d.json.ts'']
      else if extension \<in> {''.tsx'', ''.jsx''} then [''.tsx'', ''.ts'', ''.d.ts'', ''.jsx'', ''.js'']
      else if extension \<in> {''.ts'', ''.d.ts'', ''.js''} then [''.ts'', ''.tsx'', ''.d.ts'', ''.js'', ''.jsx'']
      else [''.d'' @ extension @ ''.ts''])"

definition replaced_names :: "bool \<Rightarrow> rstr \<Rightarrow> rstr list" where
  "replaced_names json name =
     (case rsplit_once (CHR ''.'') name of
        None \<Rightarrow> []
      | Some (_, after_dot) \<Rightarrow>
          let extension = (case find (ends_with name) removable_extensions of
                             Some ext \<Rightarrow> ext
                           | None \<Rightarrow> CHR ''.'' # after_dot);
              stem = take (length name - length extension) name
          in map (\<lambda>replacement. stem @ replacement) (extension_replacements json extension))"

definition module_file_on_disk :: "graph_env \<Rightarrow> bool \<Rightarrow> rstr \<Rightarrow> probe_memo \<Rightarrow> rstr option \<times> probe_memo" where
  "module_file_on_disk env json candidate memo =
     (case path_file_name candidate of
        None \<Rightarrow> (None, memo)
      | Some name \<Rightarrow>
          first_on_disk env
            (map (with_file_name candidate)
              (replaced_names json name
               @ map (\<lambda>extension. name @ extension) [''.ts'', ''.tsx'', ''.d.ts'', ''.js'', ''.jsx'']))
            memo)"

definition package_json_entry :: "graph_env \<Rightarrow> rstr \<Rightarrow> rstr option option" where
  "package_json_entry env directory =
     (case Option.bind (read_text env (path_join directory ''package.json'')) (json_of_text env) of
        None \<Rightarrow> Some None
      | Some json \<Rightarrow>
          (case List.map_filter (\<lambda>field. string_field field json) [''typings'', ''types'', ''main''] of
             [] \<Rightarrow> Some None
           | entry # _ \<Rightarrow> map_option Some (normalize_path_string (path_join directory entry))))"

function module_on_disk ::
    "graph_env \<Rightarrow> bool \<Rightarrow> rstr \<Rightarrow> bool \<Rightarrow> probe_memo \<Rightarrow> (rstr option \<times> probe_memo) option" where
  "module_on_disk env json candidate consider_package_json memo =
     (case module_file_on_disk env json candidate memo of
        (Some file, memo1) \<Rightarrow> Some (Some file, memo1)
      | (None, memo1) \<Rightarrow>
          if \<not> is_directory env candidate then Some (None, memo1)
          else
            Option.bind
              (if consider_package_json then
                 Option.bind (package_json_entry env candidate) (\<lambda>entry.
                   case entry of
                     None \<Rightarrow> Some (None, memo1)
                   | Some path \<Rightarrow> module_on_disk env json path False memo1)
               else Some (None, memo1))
              (\<lambda>(by_package, memo2).
                case by_package of
                  Some file \<Rightarrow> Some (Some file, memo2)
                | None \<Rightarrow> Some (module_file_on_disk env json (path_join candidate ''index'') memo2)))"
  by pat_completeness auto
termination
  by (relation "measure (\<lambda>(env, json, candidate, consider, memo). if consider then 1 else 0)") auto

declare module_on_disk.simps [simp del]

definition resolve_relative_javascript ::
    "graph_env \<Rightarrow> bool \<Rightarrow> rstr \<Rightarrow> rstr \<Rightarrow> probe_memo \<Rightarrow> (rstr option \<times> probe_memo) option" where
  "resolve_relative_javascript env json importer specifier memo =
     Option.bind (normalize_path_string specifier) (\<lambda>normalized.
       Option.bind (normalize_path_string (path_join (importer_directory importer) normalized)) (\<lambda>candidate.
         Option.bind (module_on_disk env json candidate True memo) (\<lambda>(found, memo1).
           Some (case found of
                   Some file \<Rightarrow> if is_javascript_file file then Some file else None
                 | None \<Rightarrow> None, memo1))))"

section \<open>Mapped specifiers\<close>

definition probe_loadable_candidates :: "graph_env \<Rightarrow> bool \<Rightarrow> rstr \<Rightarrow> probe_memo \<Rightarrow> rstr option \<times> probe_memo" where
  "probe_loadable_candidates env json target memo = first_loadable env json (mapped_target_candidates target) memo"

fun first_mapped_target ::
    "graph_env \<Rightarrow> bool \<Rightarrow> rstr \<Rightarrow> rstr list \<Rightarrow> probe_memo \<Rightarrow> (rstr option \<times> probe_memo) option" where
  "first_mapped_target env json mapping_base [] memo = Some (None, memo)"
| "first_mapped_target env json mapping_base (target # targets) memo =
     Option.bind (normalize_path_string (path_join mapping_base target)) (\<lambda>joined.
       case probe_loadable_candidates env json joined memo of
         (Some candidate, memo1) \<Rightarrow> Some (Some candidate, memo1)
       | (None, memo1) \<Rightarrow> first_mapped_target env json mapping_base targets memo1)"

definition resolve_paths_alias_candidate ::
    "graph_env \<Rightarrow> graph_options \<Rightarrow> rstr \<Rightarrow> probe_memo \<Rightarrow> (rstr option \<times> probe_memo) option" where
  "resolve_paths_alias_candidate env opts specifier memo =
     (let mapping_base = (case graph_base_url opts of Some base \<Rightarrow> base | None \<Rightarrow> graph_root opts)
      in case select_path_mapping_targets specifier (path_table opts) of
           Some targets \<Rightarrow> first_mapped_target env (json_modules opts) mapping_base targets memo
         | None \<Rightarrow>
             (case graph_base_url opts of
                Some base \<Rightarrow>
                  Option.bind (normalize_path_string (path_join base specifier)) (\<lambda>joined.
                    Some (probe_loadable_candidates env (json_modules opts) joined memo))
              | None \<Rightarrow> Some (None, memo)))"

definition resolve_specifier_on_disk :: "graph_env \<Rightarrow> graph_options \<Rightarrow> rstr \<Rightarrow> rstr \<Rightarrow> rstr option option" where
  "resolve_specifier_on_disk env opts importer specifier =
     (if is_relative_specifier specifier then
        Option.bind (resolve_relative_candidate env (json_modules opts) importer specifier Map.empty) (\<lambda>(found, memo).
          case found of
            Some file \<Rightarrow> Some (Some file)
          | None \<Rightarrow> map_option fst (resolve_relative_javascript env (json_modules opts) importer specifier memo))
      else map_option fst (resolve_paths_alias_candidate env opts specifier Map.empty))"

section \<open>The state of the loader\<close>

record import_graph_state =
  known_files :: "rstr set"
  graph_memo :: probe_memo
  next_source_index :: nat
  synced_inputs :: nat

text \<open>
  With the buffers the loader passes along: the inputs of the program, the sources to scan (path, file
  name, text), the JavaScript modules found, and the slots of the scanner.
\<close>

record loader_state = import_graph_state +
  input_files :: "(rstr \<times> rstr) list"
  graph_sources :: "(rstr \<times> rstr \<times> rstr) list"
  javascript_modules :: "(rstr \<times> rstr \<times> rstr) list"
  scanned_slots :: "nat \<rightharpoonup> rstr list"

definition canonical_path :: "graph_env \<Rightarrow> rstr \<Rightarrow> rstr option" where
  "canonical_path env path = map_option canonical (full_realpath_entry (graph_realpath env) path)"

definition canonical_name :: "graph_env \<Rightarrow> rstr \<Rightarrow> rstr option" where
  "canonical_name env path = map_option canonical_str (full_realpath_entry (graph_realpath env) path)"

section \<open>Scanning a wave\<close>

definition scanned_specifiers :: "graph_env \<Rightarrow> nat \<Rightarrow> rstr \<Rightarrow> rstr \<Rightarrow> (nat \<rightharpoonup> rstr list) \<Rightarrow> rstr list \<times> (nat \<rightharpoonup> rstr list)" where
  "scanned_specifiers env index file_name source_text slots =
     (case slots index of
        Some found \<Rightarrow> (found, slots)
      | None \<Rightarrow> let found = written_specifiers env file_name source_text in (found, slots(index \<mapsto> found)))"

text \<open>
  \<open>prefetch\<close>: each thread takes slots of the pending list from the shared counter; the parses are
  entered when all threads have ended.
\<close>

definition prefetch :: "graph_env \<Rightarrow> (rstr \<times> rstr \<times> rstr) list \<Rightarrow> nat \<Rightarrow> (nat \<rightharpoonup> rstr list) \<Rightarrow> (nat \<rightharpoonup> rstr list)" where
  "prefetch env sources start slots =
     (let pending = filter (\<lambda>index. slots index = None) [start..<length sources]
      in if length pending < 32 \<or> min (parallelism env) (length pending) \<le> 1 then slots
         else
           let scan_slot = (\<lambda>slot. let index = pending ! slot
                                   in case sources ! index of (_, file_name, source_text) \<Rightarrow>
                                        (index, written_specifiers env file_name source_text));
               results = concat (map (map scan_slot) (scan_split env pending))
           in foldl (\<lambda>slots (index, scanned). slots(index \<mapsto> scanned)) slots results)"

text \<open>The candidate of one specifier, and the JavaScript file of a relative one without a candidate.\<close>

definition resolve_import ::
    "graph_env \<Rightarrow> graph_options \<Rightarrow> rstr \<Rightarrow> rstr \<Rightarrow> probe_memo \<Rightarrow> ((rstr option \<times> rstr option) \<times> probe_memo) option" where
  "resolve_import env opts file_path specifier memo =
     (if is_relative_specifier specifier then
        Option.bind (resolve_relative_candidate env (json_modules opts) file_path specifier memo) (\<lambda>(candidate, memo1).
          case candidate of
            Some file \<Rightarrow> Some ((Some file, None), memo1)
          | None \<Rightarrow>
              Option.bind (resolve_relative_javascript env (json_modules opts) file_path specifier memo1) (\<lambda>(javascript, memo2).
                Some ((None, javascript), memo2)))
      else
        Option.bind (resolve_paths_alias_candidate env opts specifier memo) (\<lambda>(candidate, memo1).
          Some ((candidate, None), memo1)))"

definition record_javascript ::
    "graph_env \<Rightarrow> rstr \<Rightarrow> rstr \<Rightarrow> rstr option \<Rightarrow> loader_state \<Rightarrow> loader_state option" where
  "record_javascript env file_name specifier javascript st =
     (case javascript of
        None \<Rightarrow> Some st
      | Some file \<Rightarrow>
          Option.bind (canonical_name env file) (\<lambda>name.
            Some (st\<lparr>javascript_modules := javascript_modules st @ [(file_name, specifier, name)]\<rparr>)))"

definition discover ::
    "graph_env \<Rightarrow> graph_options \<Rightarrow> rstr \<Rightarrow> loader_state \<times> rstr list \<Rightarrow> (loader_state \<times> rstr list) option" where
  "discover env opts candidate = (\<lambda>(st, discovered).
     if is_dependency_javascript_source_file candidate \<or> \<not> is_loadable_graph_file candidate (json_modules opts)
     then Some (st, discovered)
     else
       Option.bind (canonical_path env candidate) (\<lambda>canonical_file.
         Option.bind (canonical_name env canonical_file) (\<lambda>normalized.
           if normalized \<in> known_files st then Some (st, discovered)
           else Some (st\<lparr>known_files := insert normalized (known_files st)\<rparr>, discovered @ [canonical_file]))))"

definition visit_specifier ::
    "graph_env \<Rightarrow> graph_options \<Rightarrow> rstr \<Rightarrow> rstr \<Rightarrow> rstr \<Rightarrow> loader_state \<times> rstr list \<Rightarrow> (loader_state \<times> rstr list) option" where
  "visit_specifier env opts file_path file_name specifier = (\<lambda>(st, discovered).
     Option.bind (resolve_import env opts file_path specifier (graph_memo st)) (\<lambda>((candidate, javascript), memo).
       Option.bind (record_javascript env file_name specifier javascript (st\<lparr>graph_memo := memo\<rparr>)) (\<lambda>st1.
         case candidate of
           None \<Rightarrow> Some (st1, discovered)
         | Some file \<Rightarrow> discover env opts file (st1, discovered))))"

fun visit_specifiers ::
    "graph_env \<Rightarrow> graph_options \<Rightarrow> rstr \<Rightarrow> rstr \<Rightarrow> rstr list \<Rightarrow> loader_state \<times> rstr list \<Rightarrow> (loader_state \<times> rstr list) option" where
  "visit_specifiers env opts file_path file_name [] found = Some found"
| "visit_specifiers env opts file_path file_name (specifier # specifiers) found =
     Option.bind (visit_specifier env opts file_path file_name specifier found)
       (visit_specifiers env opts file_path file_name specifiers)"

definition scan_source ::
    "graph_env \<Rightarrow> graph_options \<Rightarrow> rstr \<times> rstr \<times> rstr \<Rightarrow> loader_state \<times> rstr list \<Rightarrow> (loader_state \<times> rstr list) option" where
  "scan_source env opts = (\<lambda>(file_path, file_name, source_text) (st, discovered).
     let index = next_source_index st;
         (specifiers, slots) = scanned_specifiers env index file_name source_text (scanned_slots st)
     in visit_specifiers env opts file_path file_name specifiers
          (st\<lparr>next_source_index := index + 1, scanned_slots := slots\<rparr>, discovered))"

fun scan_wave ::
    "graph_env \<Rightarrow> graph_options \<Rightarrow> (rstr \<times> rstr \<times> rstr) list \<Rightarrow> loader_state \<times> rstr list \<Rightarrow> (loader_state \<times> rstr list) option" where
  "scan_wave env opts [] found = Some found"
| "scan_wave env opts (source # wave) found =
     Option.bind (scan_source env opts source found) (scan_wave env opts wave)"

section \<open>Reading a wave\<close>

text \<open>
  \<open>read_discovered_sources\<close>: eight files or more are read by threads, and the texts are put back in the
  order of the paths by the index each thread took. A missing text is a file that cannot be read.
\<close>

definition read_discovered_sources :: "graph_env \<Rightarrow> rstr list \<Rightarrow> (rstr \<times> rstr option) list" where
  "read_discovered_sources env discovered =
     (if length discovered < 8 \<or> min (parallelism env) (length discovered) \<le> 1 \<or> custom_host env
      then map (\<lambda>path. (path, read_text env path)) discovered
      else
        let results = concat (map (map (\<lambda>index. (index, read_text env (discovered ! index)))) (read_split env discovered))
        in map (\<lambda>(path, _, source_text). (path, source_text)) (zip discovered (sort_key fst results)))"

fun append_sources :: "(rstr \<times> rstr option) list \<Rightarrow> loader_state \<Rightarrow> loader_state" where
  "append_sources [] st = st"
| "append_sources ((path, source_text) # results) st =
     append_sources results
       (case source_text of
          None \<Rightarrow> st
        | Some code \<Rightarrow> st\<lparr>input_files := input_files st @ [(path, code)],
                          graph_sources := graph_sources st @ [(path, path, code)]\<rparr>)"

definition loaded_count :: "(rstr \<times> rstr option) list \<Rightarrow> nat" where
  "loaded_count results = length (filter (\<lambda>(_, source_text). source_text \<noteq> None) results)"

section \<open>Expansion\<close>

text \<open>
  The loop of \<open>expand_project_inputs\<close>. It need not end on a file system without end, so it is a partial
  function: \<open>None\<close> is a run that does not return, \<open>Some None\<close> a panic.
\<close>

partial_function (option) expand_waves ::
    "graph_env \<Rightarrow> graph_options \<Rightarrow> loader_state \<Rightarrow> nat \<Rightarrow> (loader_state \<times> nat) option option" where
  "expand_waves env opts st added =
     (if next_source_index st < length (graph_sources st) then
        (case scan_wave env opts (drop (next_source_index st) (graph_sources st))
                (st\<lparr>scanned_slots := prefetch env (graph_sources st) (next_source_index st) (scanned_slots st)\<rparr>, []) of
           None \<Rightarrow> Some None
         | Some (st1, discovered) \<Rightarrow>
             let results = read_discovered_sources env discovered
             in expand_waves env opts (append_sources results st1) (added + loaded_count results))
      else Some (Some (st, added)))"

declare expand_waves.simps [code]

fun insert_known :: "graph_env \<Rightarrow> (rstr \<times> rstr) list \<Rightarrow> rstr set \<Rightarrow> rstr set option" where
  "insert_known env [] known = Some known"
| "insert_known env ((file_name, _) # inputs) known =
     Option.bind (canonical_name env file_name) (\<lambda>name. insert_known env inputs (insert name known))"

text \<open>The slice of the inputs since the last call panics when it starts behind their end.\<close>

definition sync_known_files :: "graph_env \<Rightarrow> loader_state \<Rightarrow> loader_state option" where
  "sync_known_files env st =
     (if length (input_files st) < synced_inputs st then None
      else map_option (\<lambda>known. st\<lparr>known_files := known\<rparr>)
             (insert_known env (drop (synced_inputs st) (input_files st)) (known_files st)))"

definition mark_synced :: "loader_state \<Rightarrow> loader_state" where
  "mark_synced st = st\<lparr>synced_inputs := length (input_files st)\<rparr>"

definition expand_project_inputs ::
    "graph_env \<Rightarrow> graph_options \<Rightarrow> loader_state \<Rightarrow> (loader_state \<times> nat) option option" where
  "expand_project_inputs env opts st =
     (case sync_known_files env st of
        None \<Rightarrow> Some None
      | Some st1 \<Rightarrow> map_option (map_option (apfst mark_synced)) (expand_waves env opts st1 0))"

end
