(* ===== verification/Import_Graph_Laws.thy ===== *)
theory Import_Graph_Laws
  imports Import_Graph "HOL-Library.Multiset"
begin

text \<open>
  Laws of the import graph. Reading and scanning by threads is the same as doing it in order, and a wave
  of sources gives what one source at a time gives. The probe memo does not show in the answers, so the
  sources at the end are the files the imports reach. Expansion returns when finitely many files can be
  read.
\<close>

section \<open>Threads that share a counter\<close>

text \<open>Every index of the list is taken by one thread, once.\<close>

definition splits_exactly :: "nat \<Rightarrow> nat list list \<Rightarrow> bool" where
  "splits_exactly n split \<longleftrightarrow> mset (concat split) = mset [0..<n]"

definition counters_shared :: "graph_env \<Rightarrow> bool" where
  "counters_shared env \<longleftrightarrow>
     (\<forall>paths. splits_exactly (length paths) (read_split env paths))
     \<and> (\<forall>pending. splits_exactly (length pending) (scan_split env pending))"

lemma insort_key_indexed: "insort_key fst (i, f i) (map (\<lambda>i. (i, f i)) is) = map (\<lambda>i. (i, f i)) (insort i is)"
  by (induction "is") auto

lemma sort_key_indexed: "sort_key fst (map (\<lambda>i. (i, f i)) is) = map (\<lambda>i. (i, f i)) (sort is)"
  by (induction "is") (simp_all add: insort_key_indexed)

lemma concat_map_map: "concat (map (map f) xss) = map f (concat xss)"
  by (induction xss) auto

lemma sort_split: "splits_exactly n split \<Longrightarrow> sort (concat split) = [0..<n]"
  by (auto simp: splits_exactly_def intro: properties_for_sort)

lemma read_discovered_serial:
  assumes "counters_shared env"
  shows "read_discovered_sources env discovered = map (\<lambda>path. (path, read_text env path)) discovered"
proof -
  have "map (\<lambda>(path, _, code). (path, code)) (zip discovered (map (\<lambda>i. (i, read_text env (discovered ! i))) [0..<length discovered]))
      = map (\<lambda>path. (path, read_text env path)) discovered"
    by (rule nth_equalityI) auto
  moreover have "sort (concat (read_split env discovered)) = [0..<length discovered]"
    using assms by (simp add: counters_shared_def sort_split)
  ultimately show ?thesis
    by (simp add: read_discovered_sources_def concat_map_map sort_key_indexed)
qed

lemma foldl_updates:
  "foldl (\<lambda>m (i, v). m(i \<mapsto> v)) m es i = m i \<or> (\<exists>v. (i, v) \<in> set es \<and> foldl (\<lambda>m (i, v). m(i \<mapsto> v)) m es i = Some v)"
proof (induction es rule: rev_induct)
  case (snoc e es)
  then show ?case by (cases e; cases "fst e = i") (auto simp: fun_upd_apply)
qed simp

text \<open>What a prefetch may change: empty slots of unscanned sources, to what a scan gives.\<close>

definition fills :: "graph_env \<Rightarrow> (rstr \<times> rstr \<times> rstr) list \<Rightarrow> nat \<Rightarrow> (nat \<rightharpoonup> rstr list) \<Rightarrow> (nat \<rightharpoonup> rstr list) \<Rightarrow> bool" where
  "fills env wave start slots slots' \<longleftrightarrow>
     (\<forall>i. slots' i = slots i \<or>
       slots i = None \<and> start \<le> i \<and> i < start + length wave
       \<and> (case wave ! (i - start) of (_, file_name, code) \<Rightarrow> slots' i = Some (written_specifiers env file_name code)))"

lemma splits_set: "splits_exactly n split \<Longrightarrow> set (concat split) = {..<n}"
  by (metis atLeast0LessThan mset_eq_setD set_upt splits_exactly_def)

lemma foldl_fills:
  assumes "\<And>i v. (i, v) \<in> set es \<Longrightarrow> slots i = None \<and> start \<le> i \<and> i < start + length wave
      \<and> (case wave ! (i - start) of (_, file_name, code) \<Rightarrow> v = written_specifiers env file_name code)"
  shows "fills env wave start slots (foldl (\<lambda>m (i, v). m(i \<mapsto> v)) slots es)"
  unfolding fills_def
proof (rule allI)
  fix i
  consider "foldl (\<lambda>m (i, v). m(i \<mapsto> v)) slots es i = slots i"
    | v where "(i, v) \<in> set es" "foldl (\<lambda>m (i, v). m(i \<mapsto> v)) slots es i = Some v"
    using foldl_updates[of slots es i] by blast
  then show "foldl (\<lambda>m (i, v). m(i \<mapsto> v)) slots es i = slots i \<or> slots i = None \<and> start \<le> i \<and> i < start + length wave
      \<and> (case wave ! (i - start) of (_, file_name, code) \<Rightarrow>
           foldl (\<lambda>m (i, v). m(i \<mapsto> v)) slots es i = Some (written_specifiers env file_name code))"
    by cases (use assms in \<open>force split: prod.splits\<close>)+
qed

lemma prefetch_fills:
  assumes "counters_shared env" "start \<le> length sources"
  shows "fills env (drop start sources) start slots (prefetch env sources start slots)"
proof -
  define pending where "pending = filter (\<lambda>index. slots index = None) [start..<length sources]"
  define scan_slot where "scan_slot = (\<lambda>slot. let index = pending ! slot
      in case sources ! index of (_ :: rstr, file_name, code) \<Rightarrow> (index, written_specifiers env file_name code))"
  have taken: "set (concat (scan_split env pending)) = {..<length pending}"
    using assms(1) splits_set by (simp add: counters_shared_def)
  have "slots i = None \<and> start \<le> i \<and> i < start + length (drop start sources)
      \<and> (case drop start sources ! (i - start) of (_, file_name, code) \<Rightarrow> v = written_specifiers env file_name code)"
    if entry: "(i, v) \<in> set (map scan_slot (concat (scan_split env pending)))" for i v
  proof -
    obtain slot where slot: "slot < length pending" "(i, v) = scan_slot slot"
      using entry unfolding set_map taken by auto
    then have "pending ! slot \<in> set pending" by simp
    then have "slots (pending ! slot) = None" "start \<le> pending ! slot" "pending ! slot < length sources"
      by (simp_all add: pending_def)
    with slot(2) show ?thesis by (auto simp: scan_slot_def Let_def split: prod.splits)
  qed
  from foldl_fills[OF this]
  have "fills env (drop start sources) start slots
      (foldl (\<lambda>m (i, v). m(i \<mapsto> v)) slots (map scan_slot (concat (scan_split env pending))))" .
  moreover have "fills env (drop start sources) start slots slots" by (simp add: fills_def)
  ultimately show ?thesis
    by (simp add: prefetch_def Let_def pending_def[symmetric] concat_map_map scan_slot_def)
qed

section \<open>What a scan does not touch\<close>

text \<open>A change of the buffers that scanning neither reads nor writes.\<close>

definition neutral :: "(loader_state \<Rightarrow> loader_state) \<Rightarrow> bool" where
  "neutral g \<longleftrightarrow>
     (\<forall>st. known_files (g st) = known_files st \<and> graph_memo (g st) = graph_memo st
        \<and> javascript_modules (g st) = javascript_modules st)
     \<and> (\<forall>st v. g (st\<lparr>known_files := v\<rparr>) = (g st)\<lparr>known_files := v\<rparr>)
     \<and> (\<forall>st v. g (st\<lparr>graph_memo := v\<rparr>) = (g st)\<lparr>graph_memo := v\<rparr>)
     \<and> (\<forall>st v. g (st\<lparr>javascript_modules := v\<rparr>) = (g st)\<lparr>javascript_modules := v\<rparr>)"

definition shift :: "(loader_state \<Rightarrow> loader_state) \<Rightarrow> rstr list \<Rightarrow> loader_state \<times> rstr list \<Rightarrow> loader_state \<times> rstr list" where
  "shift g earlier = (\<lambda>(st, discovered). (g st, earlier @ discovered))"

definition extended :: "(rstr \<times> rstr) list \<Rightarrow> (rstr \<times> rstr \<times> rstr) list \<Rightarrow> loader_state \<Rightarrow> loader_state" where
  "extended inputs sources st = st\<lparr>input_files := input_files st @ inputs, graph_sources := graph_sources st @ sources\<rparr>"

lemma extended_fields [simp]:
  "next_source_index (extended inputs sources st) = next_source_index st"
  "scanned_slots (extended inputs sources st) = scanned_slots st"
  "known_files (extended inputs sources st) = known_files st"
  "graph_memo (extended inputs sources st) = graph_memo st"
  "input_files (extended inputs sources st) = input_files st @ inputs"
  "graph_sources (extended inputs sources st) = graph_sources st @ sources"
  by (simp_all add: extended_def)

lemma neutral_extended: "neutral (extended inputs sources)"
  by (simp add: neutral_def extended_def)

lemma neutral_slots: "neutral (\<lambda>st. st\<lparr>scanned_slots := slots\<rparr>)"
  by (simp add: neutral_def)

lemma neutral_next: "neutral (\<lambda>st. st\<lparr>next_source_index := i\<rparr>)"
  by (simp add: neutral_def)

lemma neutral_id: "neutral (\<lambda>st. st)"
  by (simp add: neutral_def)

lemma discover_shift:
  "neutral g \<Longrightarrow> discover env opts file (shift g earlier found) = map_option (shift g earlier) (discover env opts file found)"
  by (cases found) (simp add: discover_def shift_def neutral_def map_option_bind comp_def if_distrib cong: if_cong)

lemma record_javascript_shift:
  "neutral g \<Longrightarrow> record_javascript env name spec js (g st) = map_option g (record_javascript env name spec js st)"
  by (cases js) (simp_all add: record_javascript_def neutral_def map_option_bind comp_def)

lemma visit_specifier_shift:
  assumes "neutral g"
  shows "visit_specifier env opts path name spec (shift g earlier found)
    = map_option (shift g earlier) (visit_specifier env opts path name spec found)"
proof (cases found)
  case (Pair st discovered)
  have *: "visit_specifier env opts path name spec (st, discovered) =
      Option.bind (resolve_import env opts path spec (graph_memo st)) (\<lambda>((candidate, javascript), memo).
        Option.bind (record_javascript env name spec javascript (st\<lparr>graph_memo := memo\<rparr>)) (\<lambda>st1.
          case candidate of None \<Rightarrow> Some (st1, discovered) | Some file \<Rightarrow> discover env opts file (st1, discovered)))" for st discovered
    by (simp add: visit_specifier_def)
  have g: "graph_memo (g st) = graph_memo st" "(g st)\<lparr>graph_memo := v\<rparr> = g (st\<lparr>graph_memo := v\<rparr>)" for v
    using assms by (simp_all add: neutral_def)
  have d: "discover env opts target (g st1, earlier @ discovered) = map_option (shift g earlier) (discover env opts target (st1, discovered))" for target st1
    using discover_shift[OF assms, of env opts target earlier "(st1, discovered)"] by (simp add: shift_def)
  show ?thesis
    unfolding Pair shift_def prod.case * g record_javascript_shift[OF assms]
    by (auto simp: map_option_bind d bind_map_option comp_def shift_def split: option.splits prod.splits intro!: bind_option_cong)
qed

lemma visit_specifiers_shift:
  "neutral g \<Longrightarrow> visit_specifiers env opts path name specs (shift g earlier found)
    = map_option (shift g earlier) (visit_specifiers env opts path name specs found)"
  by (induction specs arbitrary: found)
    (simp_all add: visit_specifier_shift map_option_bind bind_map_option comp_def)

lemma visit_specifiers_keep:
  assumes "visit_specifiers env opts path name specs (st, d) = Some (st', d')"
  shows "next_source_index st' = next_source_index st" "scanned_slots st' = scanned_slots st"
    "synced_inputs st' = synced_inputs st" "input_files st' = input_files st" "graph_sources st' = graph_sources st"
proof -
  define g where "g s = s\<lparr>next_source_index := next_source_index st, scanned_slots := scanned_slots st,
      synced_inputs := synced_inputs st, input_files := input_files st, graph_sources := graph_sources st\<rparr>" for s :: loader_state
  have "neutral g" by (simp add: neutral_def g_def)
  from visit_specifiers_shift[OF this, of env opts path name specs "[]" "(st, d)"]
  have eq: "g st' = st'" using assms by (simp add: shift_def g_def)
  show "next_source_index st' = next_source_index st" "scanned_slots st' = scanned_slots st"
    "synced_inputs st' = synced_inputs st" "input_files st' = input_files st" "graph_sources st' = graph_sources st"
    using arg_cong[OF eq, of next_source_index] arg_cong[OF eq, of scanned_slots] arg_cong[OF eq, of synced_inputs]
      arg_cong[OF eq, of input_files] arg_cong[OF eq, of graph_sources]
    by (simp_all add: g_def)
qed

lemma scan_source_visits:
  "scan_source env opts (path, name, code) (st, d) =
     (case scanned_specifiers env (next_source_index st) name code (scanned_slots st) of
        (specs, slots) \<Rightarrow>
          visit_specifiers env opts path name specs (st\<lparr>next_source_index := next_source_index st + 1, scanned_slots := slots\<rparr>, d))"
  by (simp add: scan_source_def Let_def)

lemma scan_source_keep:
  assumes "scan_source env opts (path, name, code) (st, d) = Some (st', d')"
  shows "next_source_index st' = next_source_index st + 1"
    "scanned_slots st' = snd (scanned_specifiers env (next_source_index st) name code (scanned_slots st))"
    "synced_inputs st' = synced_inputs st" "input_files st' = input_files st" "graph_sources st' = graph_sources st"
  using assms visit_specifiers_keep by (fastforce simp: scan_source_visits split: prod.splits)+

lemma scan_source_shift:
  "scan_source env opts source (shift (extended I S) earlier found)
    = map_option (shift (extended I S) earlier) (scan_source env opts source found)"
proof -
  obtain path name code st d where eq: "source = (path, name, code)" "found = (st, d)"
    by (metis prod.exhaust)
  obtain specs slots where sc: "scanned_specifiers env (next_source_index st) name code (scanned_slots st) = (specs, slots)"
    by (metis prod.exhaust)
  have "extended I S st\<lparr>next_source_index := i, scanned_slots := slots\<rparr> = extended I S (st\<lparr>next_source_index := i, scanned_slots := slots\<rparr>)" for i
    by (simp add: extended_def)
  then show ?thesis
    using visit_specifiers_shift[OF neutral_extended, of env opts path name specs I S earlier
        "(st\<lparr>next_source_index := next_source_index st + 1, scanned_slots := slots\<rparr>, d)"]
    by (simp add: eq scan_source_visits shift_def sc)
qed

lemma scan_wave_shift:
  "scan_wave env opts wave (shift (extended I S) earlier found)
    = map_option (shift (extended I S) earlier) (scan_wave env opts wave found)"
  by (induction wave arbitrary: found) (simp_all add: scan_source_shift map_option_bind bind_map_option comp_def)

lemma fills_step:
  assumes "fills env ((path, name, code) # wave) i slots slots'"
  shows "fst (scanned_specifiers env i name code slots') = fst (scanned_specifiers env i name code slots)"
    and "fills env wave (Suc i) (snd (scanned_specifiers env i name code slots)) (snd (scanned_specifiers env i name code slots'))"
proof -
  have here: "slots' i = slots i \<or> slots i = None \<and> slots' i = Some (written_specifiers env name code)"
    using assms unfolding fills_def by (auto dest!: spec[of _ i])
  then show "fst (scanned_specifiers env i name code slots') = fst (scanned_specifiers env i name code slots)"
    by (auto simp: scanned_specifiers_def Let_def split: option.splits)
  have later: "slots' j = slots j \<or> slots j = None \<and> Suc i \<le> j \<and> j < Suc i + length wave
      \<and> (case wave ! (j - Suc i) of (_, n, c) \<Rightarrow> slots' j = Some (written_specifiers env n c))" if "j \<noteq> i" for j
    using assms that unfolding fills_def by (auto dest!: spec[of _ j] simp: nth_Cons' split: if_splits prod.splits)
  show "fills env wave (Suc i) (snd (scanned_specifiers env i name code slots)) (snd (scanned_specifiers env i name code slots'))"
    unfolding fills_def
  proof (rule allI)
    fix j
    show "snd (scanned_specifiers env i name code slots') j = snd (scanned_specifiers env i name code slots) j \<or>
      snd (scanned_specifiers env i name code slots) j = None \<and> Suc i \<le> j \<and> j < Suc i + length wave
      \<and> (case wave ! (j - Suc i) of (_, n, c) \<Rightarrow>
           snd (scanned_specifiers env i name code slots') j = Some (written_specifiers env n c))"
      using here later[of j]
      by (cases "j = i") (auto simp: scanned_specifiers_def Let_def split: option.splits)
  qed
qed

lemma scan_wave_fills:
  "fills env wave (next_source_index st) (scanned_slots st) slots
    \<Longrightarrow> scan_wave env opts wave (st\<lparr>scanned_slots := slots\<rparr>, d) = scan_wave env opts wave (st, d)"
proof (induction wave arbitrary: st slots d)
  case Nil
  then have "slots = scanned_slots st" by (auto simp: fills_def fun_eq_iff)
  then show ?case by simp
next
  case (Cons source wave)
  obtain path name code where source: "source = (path, name, code)" by (metis prod.exhaust)
  let ?i = "next_source_index st"
  obtain specs sl where sc: "scanned_specifiers env ?i name code (scanned_slots st) = (specs, sl)" by (metis prod.exhaust)
  obtain sl' where sc': "scanned_specifiers env ?i name code slots = (specs, sl')" "fills env wave (Suc ?i) sl sl'"
    using fills_step[OF Cons.prems[unfolded source]] sc by (metis fst_conv snd_conv prod.exhaust)
  let ?st = "st\<lparr>next_source_index := ?i + 1, scanned_slots := sl\<rparr>"
  have "visit_specifiers env opts path name specs (?st\<lparr>scanned_slots := sl'\<rparr>, d)
      = map_option (shift (\<lambda>s. s\<lparr>scanned_slots := sl'\<rparr>) []) (visit_specifiers env opts path name specs (?st, d))"
    using visit_specifiers_shift[OF neutral_slots[of sl'], of env opts path name specs "[]" "(?st, d)"] by (simp add: shift_def)
  then show ?case
    using visit_specifiers_keep(1,2)[of env opts path name specs ?st d] Cons.IH[OF _, of _ sl'] sc'(2)
    by (cases "visit_specifiers env opts path name specs (?st, d)")
      (auto simp: source scan_source_visits sc sc'(1) shift_def)
qed

section \<open>One source at a time\<close>

text \<open>The file-at-a-time loop: the files a source leads to are read before the next source is scanned.\<close>

abbreviation read_serially :: "graph_env \<Rightarrow> rstr list \<Rightarrow> (rstr \<times> rstr option) list" where
  "read_serially env discovered \<equiv> map (\<lambda>path. (path, read_text env path)) discovered"

partial_function (option) expand_one_at_a_time ::
    "graph_env \<Rightarrow> graph_options \<Rightarrow> loader_state \<Rightarrow> nat \<Rightarrow> (loader_state \<times> nat) option option" where
  "expand_one_at_a_time env opts st added =
     (if next_source_index st < length (graph_sources st) then
        (case scan_source env opts (graph_sources st ! next_source_index st) (st, []) of
           None \<Rightarrow> Some None
         | Some (st1, discovered) \<Rightarrow>
             expand_one_at_a_time env opts (append_sources (read_serially env discovered) st1)
               (added + loaded_count (read_serially env discovered)))
      else Some (Some (st, added)))"

definition loaded_files :: "(rstr \<times> rstr option) list \<Rightarrow> (rstr \<times> rstr) list" where
  "loaded_files results = List.map_filter (\<lambda>(path, source_text). map_option (Pair path) source_text) results"

lemma loaded_files_simps [simp]:
  "loaded_files [] = []"
  "loaded_files ((path, None) # results) = loaded_files results"
  "loaded_files ((path, Some code) # results) = (path, code) # loaded_files results"
  "loaded_files (results @ results') = loaded_files results @ loaded_files results'"
  by (simp_all add: loaded_files_def List.map_filter_simps)

lemma extended_extended [simp]:
  "extended I' S' (extended I S st) = extended (I @ I') (S @ S') st" "extended [] [] st = st"
  by (simp_all add: extended_def)

lemma append_sources_extended:
  "append_sources results st = extended (loaded_files results) (map (\<lambda>(path, code). (path, path, code)) (loaded_files results)) st"
proof (induction results arbitrary: st)
  case (Cons result results)
  obtain path code where result: "result = (path, code)" by (metis prod.exhaust)
  have "st\<lparr>input_files := input_files st @ [(path, c)], graph_sources := graph_sources st @ [(path, path, c)]\<rparr>
      = extended [(path, c)] [(path, path, c)] st" for c
    by (simp add: extended_def)
  with Cons show ?case by (cases code) (simp_all add: result)
qed simp

lemma loaded_count_files: "loaded_count results = length (loaded_files results)"
  by (induction results) (auto simp: loaded_count_def)

lemma scan_wave_from:
  "scan_wave env opts wave (st, d) = map_option (\<lambda>(st', d'). (st', d @ d')) (scan_wave env opts wave (st, []))"
  using scan_wave_shift[of env opts wave "[]" "[]" d "(st, [])"] by (simp add: shift_def)

lemma one_at_a_time_wave:
  assumes "graph_sources st = before @ wave @ after" "next_source_index st = length before"
  shows "expand_one_at_a_time env opts st added =
    (case scan_wave env opts wave (st, []) of
       None \<Rightarrow> Some None
     | Some (st', d) \<Rightarrow> expand_one_at_a_time env opts (append_sources (read_serially env d) st') (added + loaded_count (read_serially env d)))"
  using assms
proof (induction wave arbitrary: st before after added)
  case Nil
  then show ?case by (simp add: loaded_count_def)
next
  case (Cons source wave)
  obtain path name code where source: "source = (path, name, code)" by (metis prod.exhaust)
  have step: "expand_one_at_a_time env opts st added =
    (case scan_source env opts source (st, []) of None \<Rightarrow> Some None | Some (st1, d) \<Rightarrow>
       expand_one_at_a_time env opts (append_sources (read_serially env d) st1) (added + loaded_count (read_serially env d)))"
    using Cons.prems by (subst expand_one_at_a_time.simps) (simp add: nth_append)
  show ?case
  proof (cases "scan_source env opts source (st, [])")
    case (Some found)
    obtain st1 d1 where found: "found = (st1, d1)" by (metis prod.exhaust)
    note kept = scan_source_keep[OF Some[unfolded found source]]
    let ?I = "loaded_files (read_serially env d1)"
    let ?S = "map (\<lambda>(path, code). (path, path, code)) ?I"
    have "expand_one_at_a_time env opts st added =
        expand_one_at_a_time env opts (extended ?I ?S st1) (added + length ?I)"
      using step by (simp add: Some found append_sources_extended loaded_count_files)
    also have "\<dots> = (case scan_wave env opts wave (extended ?I ?S st1, []) of None \<Rightarrow> Some None | Some (st', d) \<Rightarrow>
        expand_one_at_a_time env opts (append_sources (read_serially env d) st') (added + length ?I + loaded_count (read_serially env d)))"
      using Cons.prems kept by (intro Cons.IH[of _ "before @ [source]" "after @ ?S"]) simp_all
    also have "\<dots> = (case scan_wave env opts (source # wave) (st, []) of None \<Rightarrow> Some None | Some (st', d) \<Rightarrow>
        expand_one_at_a_time env opts (append_sources (read_serially env d) st') (added + loaded_count (read_serially env d)))"
      using scan_wave_shift[of env opts wave ?I ?S "[]" "(st1, [])"] scan_wave_from[of env opts wave st1 d1]
      by (cases "scan_wave env opts wave (st1, [])")
        (auto simp: Some found shift_def append_sources_extended loaded_count_files add.assoc split: prod.splits)
    finally show ?thesis .
  qed (simp add: step)
qed

lemma wave_step:
  assumes "counters_shared env" "next_source_index st < length (graph_sources st)"
  shows "scan_wave env opts (drop (next_source_index st) (graph_sources st))
      (st\<lparr>scanned_slots := prefetch env (graph_sources st) (next_source_index st) (scanned_slots st)\<rparr>, [])
    = scan_wave env opts (drop (next_source_index st) (graph_sources st)) (st, [])"
  using assms by (intro scan_wave_fills prefetch_fills) simp_all

lemma waves_simps:
  assumes "counters_shared env"
  shows "expand_waves env opts st added =
    (if next_source_index st < length (graph_sources st) then
       (case scan_wave env opts (drop (next_source_index st) (graph_sources st)) (st, []) of
          None \<Rightarrow> Some None
        | Some (st1, d) \<Rightarrow> expand_waves env opts (append_sources (read_serially env d) st1) (added + loaded_count (read_serially env d)))
     else Some (Some (st, added)))"
  using assms by (subst expand_waves.simps) (simp add: wave_step read_discovered_serial Let_def split: option.split)

lemma waves_one_at_a_time:
  assumes "counters_shared env" "expand_waves env opts st added = Some r"
  shows "expand_one_at_a_time env opts st added = Some r"
proof -
  have "counters_shared env \<longrightarrow> expand_one_at_a_time env opts st added = Some r"
  proof (rule expand_waves.raw_induct[where P = "\<lambda>env opts st added r. counters_shared env \<longrightarrow> expand_one_at_a_time env opts st added = Some r", OF _ assms(2)])
    fix f env opts st added r
    assume IH: "\<And>env opts st added r. f env opts st added = Some r \<Longrightarrow> counters_shared env \<longrightarrow> expand_one_at_a_time env opts st added = Some r"
      and eq: "(if next_source_index st < length (graph_sources st) then
        (case scan_wave env opts (drop (next_source_index st) (graph_sources st))
                (st\<lparr>scanned_slots := prefetch env (graph_sources st) (next_source_index st) (scanned_slots st)\<rparr>, []) of
           None \<Rightarrow> Some None
         | Some (st1, discovered) \<Rightarrow>
             let results = read_discovered_sources env discovered
             in f env opts (append_sources results st1) (added + loaded_count results))
      else Some (Some (st, added))) = Some r"
    show "counters_shared env \<longrightarrow> expand_one_at_a_time env opts st added = Some r"
    proof (intro impI)
      assume shared: "counters_shared env"
      show "expand_one_at_a_time env opts st added = Some r"
      proof (cases "next_source_index st < length (graph_sources st)")
        case True
        have "graph_sources st = take (next_source_index st) (graph_sources st) @ drop (next_source_index st) (graph_sources st) @ []"
          by simp
        from one_at_a_time_wave[OF this, of env opts added] show ?thesis
          using eq True IH shared
          by (auto simp: wave_step[OF shared] read_discovered_serial Let_def split: option.splits)
      next
        case False
        with eq show ?thesis by (subst expand_one_at_a_time.simps) simp
      qed
    qed
  qed
  with assms(1) show ?thesis by blast
qed

section \<open>The probe memo does not show\<close>

interpretation disk: memo_table "\<lambda>candidate. Some (is_probed_file env candidate)"
    "\<lambda>candidate memo. Some (candidate_is_existing_file env candidate memo)" for env
  by unfold_locales (simp_all add: candidate_is_existing_file_def Let_def)

text \<open>An operation with the memo whose answer is the same for every sound memo, and which keeps it sound.\<close>

definition memo_stable :: "graph_env \<Rightarrow> (probe_memo \<Rightarrow> ('a \<times> probe_memo) option) \<Rightarrow> bool" where
  "memo_stable env f \<longleftrightarrow>
     (\<exists>r. \<forall>memo. disk.sound env memo \<longrightarrow>
        (case f memo of None \<Rightarrow> r = None | Some (v, memo') \<Rightarrow> r = Some v \<and> disk.sound env memo'))"

named_theorems stable_ops

lemma stable_return [stable_ops]: "memo_stable env (\<lambda>memo. Some (v, memo))"
  by (auto simp: memo_stable_def)

lemma stable_fail [stable_ops]: "memo_stable env (\<lambda>memo. None)"
  by (auto simp: memo_stable_def)

lemma stable_probe [stable_ops]: "memo_stable env (\<lambda>memo. Some (candidate_is_existing_file env candidate memo))"
proof -
  have "fst (candidate_is_existing_file env candidate memo) = is_probed_file env candidate
      \<and> disk.sound env (snd (candidate_is_existing_file env candidate memo))" if "disk.sound env memo" for memo
    using disk.transparent[OF that, of candidate] disk.sound_ask[OF that, of candidate]
    by (metis option.inject option.map(2) prod.collapse)
  then show ?thesis unfolding memo_stable_def
    by (intro exI[of _ "Some (is_probed_file env candidate)"]) (simp add: case_prod_beta)
qed

lemma stable_bind [stable_ops]:
  assumes "memo_stable env f" "\<And>v. memo_stable env (g v)"
  shows "memo_stable env (\<lambda>memo. Option.bind (f memo) (\<lambda>(v, memo'). g v memo'))"
proof -
  obtain r where r: "disk.sound env memo \<Longrightarrow> case f memo of None \<Rightarrow> r = None | Some (v, memo') \<Rightarrow> r = Some v \<and> disk.sound env memo'" for memo
    using assms(1) unfolding memo_stable_def by blast
  obtain s where s: "disk.sound env memo \<Longrightarrow> case g v memo of None \<Rightarrow> s v = None | Some (w, memo') \<Rightarrow> s v = Some w \<and> disk.sound env memo'" for v memo
    using assms(2) unfolding memo_stable_def by metis
  show ?thesis unfolding memo_stable_def
  proof (intro exI[of _ "Option.bind r s"] allI impI)
    fix memo assume sound: "disk.sound env memo"
    show "case Option.bind (f memo) (\<lambda>(v, memo'). g v memo') of None \<Rightarrow> Option.bind r s = None
        | Some (v, memo') \<Rightarrow> Option.bind r s = Some v \<and> disk.sound env memo'"
    proof (cases "f memo")
      case (Some found)
      then obtain v memo1 where "f memo = Some (v, memo1)" by (metis prod.exhaust)
      with r[OF sound] s[of memo1 v] show ?thesis by (auto split: option.splits)
    qed (use r[OF sound] in simp)
  qed
qed

lemma stable_pure_bind [stable_ops]: "(\<And>x. memo_stable env (f x)) \<Longrightarrow> memo_stable env (\<lambda>memo. Option.bind a (\<lambda>x. f x memo))"
  by (cases a) (auto simp: stable_fail)

lemma stable_if [stable_ops]: "memo_stable env f \<Longrightarrow> memo_stable env g \<Longrightarrow> memo_stable env (\<lambda>memo. if b then f memo else g memo)"
  by (cases b) simp_all

lemma stable_case [stable_ops]:
  "memo_stable env f \<Longrightarrow> (\<And>x. memo_stable env (g x)) \<Longrightarrow> memo_stable env (\<lambda>memo. case a of None \<Rightarrow> f memo | Some x \<Rightarrow> g x memo)"
  by (cases a) simp_all

lemma stable_cong: "(\<And>memo. f memo = g memo) \<Longrightarrow> memo_stable env g \<Longrightarrow> memo_stable env f"
  by (simp add: memo_stable_def)

lemma stable_answer:
  assumes "memo_stable env f" "disk.sound env memo" "f memo = Some (v, memo')"
  shows "map_option fst (f Map.empty) = Some v" "disk.sound env memo'"
proof -
  obtain r where r: "disk.sound env memo \<Longrightarrow> case f memo of None \<Rightarrow> r = None | Some (v, memo') \<Rightarrow> r = Some v \<and> disk.sound env memo'" for memo
    using assms(1) unfolding memo_stable_def by blast
  show "map_option fst (f Map.empty) = Some v" "disk.sound env memo'"
    using r[OF assms(2)] r[OF disk.sound_empty] assms(3) by (auto split: option.splits prod.splits)
qed

lemma first_loadable_stable [stable_ops]: "memo_stable env (\<lambda>memo. Some (first_loadable env json candidates memo))"
proof (induction candidates)
  case Nil
  show ?case by (simp add: stable_return)
next
  case (Cons candidate candidates)
  have "Some (first_loadable env json (candidate # candidates) memo) =
      Option.bind (Some (candidate_is_existing_file env candidate memo)) (\<lambda>(found, memo1).
        if \<not> found \<or> is_dependency_javascript_source_file candidate \<or> \<not> is_loadable_graph_file candidate json
        then Some (first_loadable env json candidates memo1) else Some (Some candidate, memo1))" for memo
    by (simp split: prod.split)
  then show ?case using Cons by (simp only:) (intro stable_ops)
qed

lemma first_on_disk_stable [stable_ops]: "memo_stable env (\<lambda>memo. Some (first_on_disk env candidates memo))"
proof (induction candidates)
  case Nil
  show ?case by (simp add: stable_return)
next
  case (Cons candidate candidates)
  have "Some (first_on_disk env (candidate # candidates) memo) =
      Option.bind (Some (candidate_is_existing_file env candidate memo)) (\<lambda>(found, memo1).
        if found then Some (Some candidate, memo1) else Some (first_on_disk env candidates memo1))" for memo
    by (simp split: prod.split)
  then show ?case using Cons by (simp only:) (intro stable_ops)
qed

lemma module_file_stable [stable_ops]: "memo_stable env (\<lambda>memo. Some (module_file_on_disk env json candidate memo))"
  by (cases "path_file_name candidate") (simp_all add: module_file_on_disk_def stable_ops)

lemma module_on_disk_bind:
  "module_on_disk env json candidate consider memo =
     Option.bind (Some (module_file_on_disk env json candidate memo)) (\<lambda>(found, memo1).
       case found of
         None \<Rightarrow>
          if \<not> is_directory env candidate then Some (None, memo1)
          else
            Option.bind
              (if consider then
                 Option.bind (package_json_entry env candidate) (\<lambda>entry.
                   case entry of None \<Rightarrow> Some (None, memo1) | Some path \<Rightarrow> module_on_disk env json path False memo1)
               else Some (None, memo1))
              (\<lambda>(by_package, memo2).
                case by_package of
                  None \<Rightarrow> Some (module_file_on_disk env json (path_join candidate ''index'') memo2)
                | Some file \<Rightarrow> Some (Some file, memo2))
       | Some file \<Rightarrow> Some (Some file, memo1))"
  by (subst module_on_disk.simps) (auto split: prod.split option.split intro!: bind_option_cong)

lemma module_on_disk_stable [stable_ops]: "memo_stable env (module_on_disk env json candidate consider)"
proof -
  have entry: "memo_stable env (module_on_disk env json candidate False)" for candidate
    by (rule stable_cong[OF module_on_disk_bind], unfold if_False) (intro stable_ops)
  show ?thesis
    by (rule stable_cong[OF module_on_disk_bind]) (intro stable_ops entry)
qed

lemma first_mapped_stable [stable_ops]: "memo_stable env (first_mapped_target env json base targets)"
proof (induction targets)
  case Nil
  show ?case by (simp add: stable_return)
next
  case (Cons target targets)
  have "first_mapped_target env json base (target # targets) memo =
      Option.bind (normalize_path_string (path_join base target)) (\<lambda>joined.
        Option.bind (Some (first_loadable env json (mapped_target_candidates joined) memo)) (\<lambda>(found, memo1).
          case found of None \<Rightarrow> first_mapped_target env json base targets memo1 | Some candidate \<Rightarrow> Some (Some candidate, memo1)))" for memo
    by (auto simp: probe_loadable_candidates_def split: prod.split option.split intro!: bind_option_cong)
  then show ?case using Cons by (simp only:) (intro stable_ops)
qed

lemma resolve_import_stable: "memo_stable env (resolve_import env opts path specifier)"
  unfolding resolve_import_def[abs_def] resolve_relative_candidate_def resolve_relative_javascript_def
    resolve_paths_alias_candidate_def probe_loadable_candidates_def Let_def
  by (intro stable_ops)

section \<open>What a scan finds\<close>

text \<open>The canonical file a specifier of a source leads to, without memo; \<open>None\<close> inside is no file.\<close>

definition graph_target :: "graph_env \<Rightarrow> graph_options \<Rightarrow> rstr \<Rightarrow> rstr \<Rightarrow> rstr option option" where
  "graph_target env opts file_path specifier =
     Option.bind (resolve_import env opts file_path specifier Map.empty) (\<lambda>((candidate, _), _).
       case candidate of
         None \<Rightarrow> Some None
       | Some file \<Rightarrow>
           if is_dependency_javascript_source_file file \<or> \<not> is_loadable_graph_file file (json_modules opts) then Some None
           else Option.bind (canonical_path env file) (\<lambda>target. map_option (\<lambda>_. Some target) (canonical_name env target)))"

definition file_key :: "graph_env \<Rightarrow> rstr \<Rightarrow> rstr" where
  "file_key env path = (case canonical_name env path of Some name \<Rightarrow> name | None \<Rightarrow> [])"

text \<open>The files a source imports.\<close>

definition imported_files :: "graph_env \<Rightarrow> graph_options \<Rightarrow> rstr \<times> rstr \<times> rstr \<Rightarrow> rstr set" where
  "imported_files env opts = (\<lambda>(path, name, code).
     {target. \<exists>specifier \<in> set (written_specifiers env name code). graph_target env opts path specifier = Some (Some target)})"

text \<open>From one state to a later one that discovers exactly the unknown files among the targets.\<close>

definition grew :: "graph_env \<Rightarrow> rstr set \<Rightarrow> loader_state \<Rightarrow> loader_state \<Rightarrow> rstr list \<Rightarrow> bool" where
  "grew env targets st st' found \<longleftrightarrow>
     disk.sound env (graph_memo st') \<and> set found \<subseteq> targets
     \<and> known_files st' = known_files st \<union> file_key env ` set found
     \<and> distinct (map (file_key env) found) \<and> file_key env ` set found \<inter> known_files st = {}
     \<and> file_key env ` targets \<subseteq> known_files st'"

lemma grew_refl: "disk.sound env (graph_memo st) \<Longrightarrow> grew env {} st st []"
  by (simp add: grew_def)

lemma grewD:
  assumes "grew env targets st st' found"
  shows "disk.sound env (graph_memo st')" "set found \<subseteq> targets"
    "known_files st' = known_files st \<union> file_key env ` set found" "distinct (map (file_key env) found)"
    "file_key env ` set found \<inter> known_files st = {}" "file_key env ` targets \<subseteq> known_files st'"
  by (insert assms, unfold grew_def) (elim conjE, assumption)+

lemma disjoint_growth:
  assumes "K1 = K \<union> A" "K2 = K1 \<union> B" "A \<inter> K = {}" "B \<inter> K1 = {}" "X \<subseteq> K1" "Y \<subseteq> K2"
  shows "K2 = K \<union> (A \<union> B)" "(A \<union> B) \<inter> K = {}" "A \<inter> B = {}" "X \<union> Y \<subseteq> K2"
  using assms by auto

lemma grew_trans: "grew env T st st1 found \<Longrightarrow> grew env T' st1 st2 found' \<Longrightarrow> grew env (T \<union> T') st st2 (found @ found')"
proof -
  assume one: "grew env T st st1 found" and two: "grew env T' st1 st2 found'"
  note growth = disjoint_growth[OF grewD(3)[OF one] grewD(3)[OF two] grewD(5)[OF one] grewD(5)[OF two] grewD(6)[OF one] grewD(6)[OF two]]
  show ?thesis
    unfolding grew_def map_append distinct_append set_append set_map image_Un
    by (intro conjI Un_mono growth grewD(1,4)[OF two] grewD(2,4)[OF one] grewD(2)[OF two])
qed

lemma discover_grew:
  assumes "discover env opts file (st, d) = Some (st', d')" "disk.sound env (graph_memo st)"
  obtains found where "d' = d @ found"
    "grew env {target. \<not> is_dependency_javascript_source_file file \<and> is_loadable_graph_file file (json_modules opts)
        \<and> canonical_path env file = Some target \<and> canonical_name env target \<noteq> None} st st' found"
proof (cases "is_dependency_javascript_source_file file \<or> \<not> is_loadable_graph_file file (json_modules opts)")
  case True
  with assms show ?thesis by (intro that[of "[]"]) (auto simp: discover_def grew_def)
next
  case False
  then obtain target name where t: "canonical_path env file = Some target" "canonical_name env target = Some name"
    using assms(1) by (auto simp: discover_def bind_eq_Some_conv)
  then have key: "file_key env target = name" by (simp add: file_key_def)
  show ?thesis
  proof (cases "name \<in> known_files st")
    case True
    with assms False t key show ?thesis by (intro that[of "[]"]) (auto simp: discover_def grew_def)
  next
    case new: False
    with assms False t key show ?thesis by (intro that[of "[target]"]) (auto simp: discover_def grew_def)
  qed
qed

lemma record_javascript_keep:
  "record_javascript env name spec js st = Some st' \<Longrightarrow> known_files st' = known_files st \<and> graph_memo st' = graph_memo st"
  by (cases js) (auto simp: record_javascript_def bind_eq_Some_conv)

lemma grew_cong: "known_files st1 = known_files st \<Longrightarrow> grew env T st1 st' found = grew env T st st' found"
  by (simp only: grew_def)

lemma visit_specifier_grew:
  assumes "visit_specifier env opts path name spec (st, d) = Some (st', d')" "disk.sound env (graph_memo st)"
  obtains found where "d' = d @ found" "grew env {target. graph_target env opts path spec = Some (Some target)} st st' found"
proof -
  obtain candidate js memo st1 where r: "resolve_import env opts path spec (graph_memo st) = Some ((candidate, js), memo)"
    and st1: "record_javascript env name spec js (st\<lparr>graph_memo := memo\<rparr>) = Some st1"
    and last: "(case candidate of None \<Rightarrow> Some (st1, d) | Some file \<Rightarrow> discover env opts file (st1, d)) = Some (st', d')"
    using assms(1) by (auto simp: visit_specifier_def bind_eq_Some_conv)
  note answer = stable_answer[OF resolve_import_stable assms(2) r]
  have keep: "known_files st1 = known_files st" "graph_memo st1 = memo"
    using record_javascript_keep[OF st1] by simp_all
  obtain memo' where empty: "resolve_import env opts path spec Map.empty = Some ((candidate, js), memo')"
    using answer(1) by auto
  show ?thesis
  proof (cases candidate)
    case None
    then show ?thesis
      using last keep answer(2) empty by (intro that[of "[]"]) (auto simp: grew_def graph_target_def)
  next
    case (Some path_found)
    then have "discover env opts path_found (st1, d) = Some (st', d')" using last by simp
    then obtain found where found: "d' = d @ found"
      "grew env {target. \<not> is_dependency_javascript_source_file path_found \<and> is_loadable_graph_file path_found (json_modules opts)
        \<and> canonical_path env path_found = Some target \<and> canonical_name env target \<noteq> None} st1 st' found"
      by (rule discover_grew) (use keep answer(2) in simp)
    moreover have "{target. \<not> is_dependency_javascript_source_file path_found \<and> is_loadable_graph_file path_found (json_modules opts)
        \<and> canonical_path env path_found = Some target \<and> canonical_name env target \<noteq> None}
      = {target. graph_target env opts path spec = Some (Some target)}"
      using empty Some by (auto simp: graph_target_def bind_eq_Some_conv)
    ultimately show ?thesis using that grew_cong[OF keep(1)] by metis
  qed
qed

lemma visit_specifiers_grew:
  assumes "visit_specifiers env opts path name specs (st, d) = Some (st', d')" "disk.sound env (graph_memo st)"
  obtains found where "d' = d @ found"
    "grew env {target. \<exists>spec \<in> set specs. graph_target env opts path spec = Some (Some target)} st st' found"
  using assms
proof (induction specs arbitrary: st d thesis)
  case Nil
  then show ?case using grew_refl by (intro Nil(1)[of "[]"]) auto
next
  case (Cons spec specs)
  obtain st1 d1 where first: "visit_specifier env opts path name spec (st, d) = Some (st1, d1)"
    and rest: "visit_specifiers env opts path name specs (st1, d1) = Some (st', d')"
    using Cons.prems(2) by (auto simp: bind_eq_Some_conv)
  obtain found where found: "d1 = d @ found" "grew env {target. graph_target env opts path spec = Some (Some target)} st st1 found"
    using visit_specifier_grew[OF first Cons.prems(3)] .
  then have "disk.sound env (graph_memo st1)" by (simp add: grew_def)
  from Cons.IH[OF _ rest this] obtain found' where found': "d' = d1 @ found'"
    "grew env {target. \<exists>spec \<in> set specs. graph_target env opts path spec = Some (Some target)} st1 st' found'" by blast
  have "{target. graph_target env opts path spec = Some (Some target)} \<union> {target. \<exists>spec \<in> set specs. graph_target env opts path spec = Some (Some target)}
      = {target. \<exists>spec \<in> set (spec # specs). graph_target env opts path spec = Some (Some target)}" by auto
  with grew_trans[OF found(2) found'(2)] show ?case
    using Cons.prems(1)[of "found @ found'"] found(1) found'(1) by simp
qed

section \<open>Waves\<close>

definition slots_sound :: "graph_env \<Rightarrow> loader_state \<Rightarrow> bool" where
  "slots_sound env st \<longleftrightarrow>
     (\<forall>i specs. scanned_slots st i = Some specs \<longrightarrow>
        i < length (graph_sources st)
        \<and> specs = (case graph_sources st ! i of (_, name, code) \<Rightarrow> written_specifiers env name code))"

text \<open>A state the loader reaches: the memo answers what the probe answers, the scanner what a parse gives.\<close>

definition loader_ok :: "graph_env \<Rightarrow> loader_state \<Rightarrow> bool" where
  "loader_ok env st \<longleftrightarrow>
     next_source_index st \<le> length (graph_sources st) \<and> disk.sound env (graph_memo st) \<and> slots_sound env st"

lemma scan_source_grew:
  assumes ok: "loader_ok env st" and i: "next_source_index st < length (graph_sources st)"
    and scan: "scan_source env opts (graph_sources st ! next_source_index st) (st, d) = Some (st', d')"
  obtains found where "d' = d @ found" "grew env (imported_files env opts (graph_sources st ! next_source_index st)) st st' found"
    "loader_ok env st'" "next_source_index st' = Suc (next_source_index st)" "graph_sources st' = graph_sources st"
    "input_files st' = input_files st"
proof -
  obtain path name code where source: "graph_sources st ! next_source_index st = (path, name, code)" by (metis prod.exhaust)
  note kept = scan_source_keep[OF scan[unfolded source]]
  obtain slots where sc: "scanned_specifiers env (next_source_index st) name code (scanned_slots st) = (written_specifiers env name code, slots)"
    and slots: "slots = scanned_slots st \<or> slots = (scanned_slots st)(next_source_index st \<mapsto> written_specifiers env name code)"
  proof (cases "scanned_slots st (next_source_index st)")
    case None
    then show ?thesis by (intro that[of "(scanned_slots st)(next_source_index st \<mapsto> written_specifiers env name code)"])
      (simp_all add: scanned_specifiers_def Let_def)
  next
    case (Some specs)
    moreover have "slots_sound env st" using ok by (simp add: loader_ok_def)
    ultimately have "specs = written_specifiers env name code" using source unfolding slots_sound_def by fastforce
    with Some show ?thesis by (intro that[of "scanned_slots st"]) (simp_all add: scanned_specifiers_def)
  qed
  let ?st = "st\<lparr>next_source_index := next_source_index st + 1, scanned_slots := slots\<rparr>"
  have visit: "visit_specifiers env opts path name (written_specifiers env name code) (?st, d) = Some (st', d')"
    using scan by (simp add: source scan_source_visits sc)
  obtain found where found: "d' = d @ found"
    "grew env {target. \<exists>spec \<in> set (written_specifiers env name code). graph_target env opts path spec = Some (Some target)} ?st st' found"
    by (rule visit_specifiers_grew[OF visit]) (use ok in \<open>simp add: loader_ok_def\<close>)
  have grown: "grew env (imported_files env opts (path, name, code)) st st' found"
    using found(2) grew_cong[of ?st st] by (simp add: imported_files_def)
  have "slots_sound env st'"
    using ok slots source i by (auto simp: slots_sound_def loader_ok_def kept sc split: if_splits)
  then have "loader_ok env st'"
    using grewD(1)[OF grown] i by (simp add: loader_ok_def kept)
  then show ?thesis using that found(1) grown kept source by simp
qed

lemma scan_wave_grew:
  assumes "scan_wave env opts wave (st, d) = Some (st', d')" "graph_sources st = before @ wave"
    "next_source_index st = length before" "loader_ok env st"
  obtains found where "d' = d @ found" "grew env (\<Union>source \<in> set wave. imported_files env opts source) st st' found"
    "loader_ok env st'" "next_source_index st' = length (graph_sources st)" "graph_sources st' = graph_sources st"
    "input_files st' = input_files st"
  using assms
proof (induction wave arbitrary: st d before thesis)
  case Nil
  then show ?case by (intro Nil(1)[of "[]"]) (auto intro: grew_refl simp: loader_ok_def)
next
  case (Cons source wave)
  obtain st1 d1 where first: "scan_source env opts source (st, d) = Some (st1, d1)"
    and rest: "scan_wave env opts wave (st1, d1) = Some (st', d')"
    using Cons.prems(2) by (auto simp: bind_eq_Some_conv)
  have source: "graph_sources st ! next_source_index st = source" "next_source_index st < length (graph_sources st)"
    using Cons.prems by simp_all
  obtain found where found: "d1 = d @ found" "grew env (imported_files env opts source) st st1 found" "loader_ok env st1"
    "next_source_index st1 = Suc (next_source_index st)" "graph_sources st1 = graph_sources st" "input_files st1 = input_files st"
    using scan_source_grew[OF Cons.prems(5) source(2), of opts d st1 d1] first source(1) by metis
  have "graph_sources st1 = (before @ [source]) @ wave" "next_source_index st1 = length (before @ [source])"
    using Cons.prems found by simp_all
  from Cons.IH[OF _ rest this found(3)] obtain found' where found': "d' = d1 @ found'"
    "grew env (\<Union>source \<in> set wave. imported_files env opts source) st1 st' found'" "loader_ok env st'"
    "next_source_index st' = length (graph_sources st1)" "graph_sources st' = graph_sources st1" "input_files st' = input_files st1"
    by blast
  show ?case
    using grew_trans[OF found(2) found'(2)] found found' by (intro Cons.prems(1)[of "found @ found'"]) simp_all
qed

text \<open>One round of the loop, before its files are read.\<close>

definition wave_scanned :: "graph_env \<Rightarrow> graph_options \<Rightarrow> loader_state \<Rightarrow> loader_state \<Rightarrow> rstr list \<Rightarrow> bool" where
  "wave_scanned env opts st st1 d \<longleftrightarrow>
     grew env (\<Union>source \<in> set (drop (next_source_index st) (graph_sources st)). imported_files env opts source) st st1 d
     \<and> loader_ok env st1 \<and> next_source_index st1 = length (graph_sources st)
     \<and> graph_sources st1 = graph_sources st \<and> input_files st1 = input_files st"

lemma wave_scanned:
  assumes "scan_wave env opts (drop (next_source_index st) (graph_sources st)) (st, []) = Some (st1, d)" "loader_ok env st"
  shows "wave_scanned env opts st st1 d"
proof -
  have "graph_sources st = take (next_source_index st) (graph_sources st) @ drop (next_source_index st) (graph_sources st)" by simp
  moreover have "next_source_index st = length (take (next_source_index st) (graph_sources st))"
    using assms(2) by (simp add: loader_ok_def)
  ultimately show ?thesis
    by (rule scan_wave_grew[OF assms(1) _ _ assms(2)]) (simp add: wave_scanned_def)
qed

lemma append_keeps_ok: "loader_ok env st \<Longrightarrow> loader_ok env (append_sources results st)"
  by (auto simp: append_sources_extended loader_ok_def slots_sound_def nth_append trans_less_add1)

lemma expand_waves_invariant:
  assumes ret: "expand_waves env opts st added = Some (Some (st', added'))" and shared: "counters_shared env"
    and ok: "loader_ok env st" and start: "keeps st added"
    and step: "\<And>st added st1 d. keeps st added \<Longrightarrow> loader_ok env st \<Longrightarrow> wave_scanned env opts st st1 d \<Longrightarrow>
        keeps (append_sources (read_serially env d) st1) (added + loaded_count (read_serially env d))"
  shows "keeps st' added' \<and> loader_ok env st' \<and> next_source_index st' = length (graph_sources st')"
proof -
  have "env = env0 \<longrightarrow> opts = opts0 \<longrightarrow> r = Some (st', added') \<longrightarrow> keeps st added \<longrightarrow> loader_ok env st \<longrightarrow>
      keeps st' added' \<and> loader_ok env st' \<and> next_source_index st' = length (graph_sources st')"
    if "expand_waves env0 opts0 st added = Some r" for env0 opts0 r
  proof (rule expand_waves.raw_induct[where P = "\<lambda>env0 opts0 st added r. env = env0 \<longrightarrow> opts = opts0 \<longrightarrow> r = Some (st', added') \<longrightarrow>
      keeps st added \<longrightarrow> loader_ok env st \<longrightarrow> keeps st' added' \<and> loader_ok env st' \<and> next_source_index st' = length (graph_sources st')", OF _ that])
    fix f env0 opts0 st added r
    assume IH: "\<And>env0 opts0 st added r. f env0 opts0 st added = Some r \<Longrightarrow> env = env0 \<longrightarrow> opts = opts0 \<longrightarrow> r = Some (st', added') \<longrightarrow>
        keeps st added \<longrightarrow> loader_ok env st \<longrightarrow> keeps st' added' \<and> loader_ok env st' \<and> next_source_index st' = length (graph_sources st')"
      and eq: "(if next_source_index st < length (graph_sources st) then
        (case scan_wave env0 opts0 (drop (next_source_index st) (graph_sources st))
                (st\<lparr>scanned_slots := prefetch env0 (graph_sources st) (next_source_index st) (scanned_slots st)\<rparr>, []) of
           None \<Rightarrow> Some None
         | Some (st1, discovered) \<Rightarrow>
             let results = read_discovered_sources env0 discovered
             in f env0 opts0 (append_sources results st1) (added + loaded_count results))
      else Some (Some (st, added))) = Some r"
    show "env = env0 \<longrightarrow> opts = opts0 \<longrightarrow> r = Some (st', added') \<longrightarrow> keeps st added \<longrightarrow> loader_ok env st \<longrightarrow>
        keeps st' added' \<and> loader_ok env st' \<and> next_source_index st' = length (graph_sources st')"
    proof (intro impI)
      assume same: "env = env0" "opts = opts0" and r: "r = Some (st', added')" and keeps: "keeps st added" and ok: "loader_ok env st"
      show "keeps st' added' \<and> loader_ok env st' \<and> next_source_index st' = length (graph_sources st')"
      proof (cases "next_source_index st < length (graph_sources st)")
        case True
        then obtain st1 d where scan: "scan_wave env opts (drop (next_source_index st) (graph_sources st)) (st, []) = Some (st1, d)"
          and go: "f env0 opts0 (append_sources (read_serially env d) st1) (added + loaded_count (read_serially env d)) = Some r"
          using eq shared r unfolding same[symmetric]
          by (auto simp: wave_step[OF shared] read_discovered_serial Let_def split: option.splits)
        have scanned: "wave_scanned env opts st st1 d" by (rule wave_scanned[OF scan ok])
        then have "loader_ok env st1" by (simp add: wave_scanned_def)
        from IH[OF go] same r step[OF keeps ok scanned] append_keeps_ok[OF this] show ?thesis by blast
      next
        case False
        with eq r keeps ok show ?thesis by (auto simp: loader_ok_def)
      qed
    qed
  qed
  from this[OF ret] start ok show ?thesis by blast
qed

section \<open>Expansion returns\<close>

definition unread_files :: "graph_env \<Rightarrow> loader_state \<Rightarrow> rstr set" where
  "unread_files env st = {path. read_text env path \<noteq> None \<and> file_key env path \<notin> known_files st}"

lemma loaded_serially: "map fst (loaded_files (read_serially env d)) = filter (\<lambda>path. read_text env path \<noteq> None) d"
  by (induction d) (auto simp: split: option.splits intro: list.map_cong)

lemma wave_reads_unread:
  assumes "wave_scanned env opts st st1 d" "finite {path. read_text env path \<noteq> None}"
  shows "card (unread_files env st1) + loaded_count (read_serially env d) \<le> card (unread_files env st)"
proof -
  let ?read = "set (filter (\<lambda>path. read_text env path \<noteq> None) d)"
  note g = assms(1)[unfolded wave_scanned_def, THEN conjunct1]
  have fin: "finite (unread_files env s)" for s
    using assms(2) by (rule finite_subset[rotated]) (auto simp: unread_files_def)
  have "loaded_count (read_serially env d) = card ?read"
  proof -
    have "distinct (filter (\<lambda>path. read_text env path \<noteq> None) d)"
      using grewD(4)[OF g] by (simp add: distinct_map)
    then have "card ?read = length (map fst (loaded_files (read_serially env d)))"
      by (simp only: loaded_serially distinct_card)
    then show ?thesis by (simp add: loaded_count_files)
  qed
  moreover have "?read \<subseteq> unread_files env st" "unread_files env st1 \<inter> ?read = {}" "unread_files env st1 \<subseteq> unread_files env st"
    using grewD(3,5)[OF g] by (auto simp: unread_files_def)
  then have "card (unread_files env st1) + card ?read \<le> card (unread_files env st)"
    using card_Un_disjoint[OF fin finite_set, of st1 "filter (\<lambda>path. read_text env path \<noteq> None) d"]
      card_mono[OF fin, of "unread_files env st1 \<union> ?read" st] by auto
  ultimately show ?thesis by simp
qed

lemma append_known [simp]: "known_files (append_sources results st) = known_files st"
  by (simp add: append_sources_extended)

lemma expand_waves_returns:
  assumes "counters_shared env" "finite {path. read_text env path \<noteq> None}"
  shows "loader_ok env st \<Longrightarrow> \<exists>r. expand_waves env opts st added = Some r"
proof (induction "card (unread_files env st) + (length (graph_sources st) - next_source_index st)" arbitrary: st added rule: less_induct)
  case less
  show ?case
  proof (cases "next_source_index st < length (graph_sources st)")
    case True
    show ?thesis
    proof (cases "scan_wave env opts (drop (next_source_index st) (graph_sources st)) (st, [])")
      case None
      with True show ?thesis by (subst waves_simps[OF assms(1)]) simp
    next
      case (Some found)
      obtain st1 d where found: "found = (st1, d)" by (metis prod.exhaust)
      have scanned: "wave_scanned env opts st st1 d" by (rule wave_scanned[OF Some[unfolded found] less.prems])
      let ?st = "append_sources (read_serially env d) st1"
      have ok: "loader_ok env ?st" using scanned append_keeps_ok by (simp add: wave_scanned_def)
      have "unread_files env ?st = unread_files env st1" by (simp add: unread_files_def)
      moreover have "length (graph_sources ?st) - next_source_index ?st = loaded_count (read_serially env d)"
        using scanned by (simp add: wave_scanned_def append_sources_extended loaded_count_files)
      ultimately have "card (unread_files env ?st) + (length (graph_sources ?st) - next_source_index ?st)
          < card (unread_files env st) + (length (graph_sources st) - next_source_index st)"
        using wave_reads_unread[OF scanned assms(2)] True by simp
      from less.hyps[OF this ok] show ?thesis
        using True by (subst waves_simps[OF assms(1)]) (simp add: Some found)
    qed
  next
    case False
    then show ?thesis by (subst waves_simps[OF assms(1)]) simp
  qed
qed

definition expand_project_inputs_serially ::
    "graph_env \<Rightarrow> graph_options \<Rightarrow> loader_state \<Rightarrow> (loader_state \<times> nat) option option" where
  "expand_project_inputs_serially env opts st =
     (case sync_known_files env st of
        None \<Rightarrow> Some None
      | Some st1 \<Rightarrow> map_option (map_option (apfst mark_synced)) (expand_one_at_a_time env opts st1 0))"

lemma sync_keeps:
  assumes "sync_known_files env st = Some st1"
  shows "loader_ok env st1 = loader_ok env st" "graph_sources st1 = graph_sources st" "input_files st1 = input_files st"
    "next_source_index st1 = next_source_index st"
  using assms by (auto simp: sync_known_files_def loader_ok_def slots_sound_def split: if_splits)

section \<open>An example\<close>

text \<open>A project of two files that import each other; a third import leads to a file that is not there.\<close>

definition demo_texts :: "(rstr \<times> rstr) list" where
  "demo_texts = [(''/p/a.ts'', ''A''), (''/p/b.ts'', ''B'')]"

definition demo_graph_env :: graph_env where
  "demo_graph_env =
     \<lparr>is_probed_file = (\<lambda>path. path = ''/p/a.ts'' \<or> path = ''/p/b.ts''), is_directory = (\<lambda>path. path = ''/p''),
      read_text = map_of demo_texts, json_of_text = (\<lambda>_. None), graph_realpath = Some,
      written_specifiers = (\<lambda>name code. if code = ''A'' then [''./b'', ''./c''] else [''./a'']),
      custom_host = False, parallelism = 4,
      read_split = (\<lambda>paths. [[0..<length paths]]), scan_split = (\<lambda>pending. [[], [0..<length pending]])\<rparr>"

definition demo_graph_options :: graph_options where
  "demo_graph_options = \<lparr>json_modules = False, path_table = [], graph_base_url = None, graph_root = ''/p''\<rparr>"

definition demo_loader :: loader_state where
  "demo_loader =
     \<lparr>known_files = {}, graph_memo = Map.empty, next_source_index = 0, synced_inputs = 0,
      input_files = [(''/p/a.ts'', ''A'')], graph_sources = [(''/p/a.ts'', ''/p/a.ts'', ''A'')],
      javascript_modules = [], scanned_slots = Map.empty\<rparr>"

lemma demo_graph_ok:
  "counters_shared demo_graph_env" "finite {path. read_text demo_graph_env path \<noteq> None}" "loader_ok demo_graph_env demo_loader"
proof -
  show "counters_shared demo_graph_env"
    by (simp add: counters_shared_def splits_exactly_def demo_graph_env_def)
  have "{path. read_text demo_graph_env path \<noteq> None} = dom (map_of demo_texts)"
    by (simp add: demo_graph_env_def dom_def)
  then show "finite {path. read_text demo_graph_env path \<noteq> None}" by (simp add: finite_dom_map_of)
  show "loader_ok demo_graph_env demo_loader"
    by (simp add: loader_ok_def slots_sound_def demo_loader_def disk.sound_empty)
qed

lemma demo_sync: "sync_known_files demo_graph_env demo_loader = Some (demo_loader\<lparr>known_files := {''/p/a.ts''}\<rparr>)"
proof -
  have "insert_known demo_graph_env [(''/p/a.ts'', ''A'')] {} = Some {''/p/a.ts''}" by code_simp
  then show ?thesis by (simp add: sync_known_files_def demo_loader_def)
qed

lemma demo_graph_run:
  "map_option (map_option (\<lambda>(st, added). (map fst (graph_sources st), added))) (expand_project_inputs demo_graph_env demo_graph_options demo_loader)
    = Some (Some ([''/p/a.ts'', ''/p/b.ts''], 1))"
  by code_simp

text \<open>
  C39. The expansion, which scans a wave of sources with prefetched parses and reads the files the wave
  discovers by threads, returns when finitely many files can be read, and its result is that of the loop
  that takes one source at a time and reads in order: the same inputs and sources in the same order, the
  same known files, memo and JavaScript modules, and the same panic if there is one.
\<close>

theorem import_graph_waves_serial:
  assumes "counters_shared env" "finite {path. read_text env path \<noteq> None}" "loader_ok env st"
  shows "\<exists>r. expand_project_inputs env opts st = Some r \<and> expand_project_inputs_serially env opts st = Some r"
proof (cases "sync_known_files env st")
  case (Some st1)
  then have "loader_ok env st1" using assms(3) sync_keeps(1) by blast
  then obtain r where "expand_waves env opts st1 0 = Some r" using expand_waves_returns[OF assms(1,2)] by blast
  with waves_one_at_a_time[OF assms(1) this] Some show ?thesis
    by (simp add: expand_project_inputs_def expand_project_inputs_serially_def)
qed (simp add: expand_project_inputs_def expand_project_inputs_serially_def)

theorem import_graph_waves_serial_witness:
  "expand_project_inputs demo_graph_env demo_graph_options demo_loader \<noteq> None
   \<and> expand_project_inputs demo_graph_env demo_graph_options demo_loader
     = expand_project_inputs_serially demo_graph_env demo_graph_options demo_loader"
  using import_graph_waves_serial[OF demo_graph_ok, of demo_graph_options] by auto

section \<open>The files at the end\<close>

text \<open>The sources that the imports of the given ones reach over readable files.\<close>

inductive reached :: "graph_env \<Rightarrow> graph_options \<Rightarrow> (rstr \<times> rstr \<times> rstr) set \<Rightarrow> rstr \<times> rstr \<times> rstr \<Rightarrow> bool"
  for env opts start where
  reached_start: "source \<in> start \<Longrightarrow> reached env opts start source"
| reached_import: "reached env opts start source \<Longrightarrow> path \<in> imported_files env opts source
    \<Longrightarrow> read_text env path = Some code \<Longrightarrow> reached env opts start (path, path, code)"

text \<open>
  What an expansion owes: each new file is read from disk, reached from the sources that were not scanned
  yet, new to the program and there once; and a file that a scanned source imports was known, is among
  the new ones, or cannot be read.
\<close>

definition keys_of :: "graph_env \<Rightarrow> (rstr \<times> rstr) list \<Rightarrow> rstr list" where
  "keys_of env files = map (\<lambda>(path, _). file_key env path) files"

definition loaded_from :: "graph_env \<Rightarrow> graph_options \<Rightarrow> loader_state \<Rightarrow> (rstr \<times> rstr) list \<Rightarrow> bool" where
  "loaded_from env opts st new \<longleftrightarrow>
     (\<forall>(path, code) \<in> set new. read_text env path = Some code
        \<and> reached env opts (set (drop (next_source_index st) (graph_sources st))) (path, path, code))
     \<and> distinct (keys_of env new) \<and> set (keys_of env new) \<inter> known_files st = {}"

definition imports_answered :: "graph_env \<Rightarrow> graph_options \<Rightarrow> rstr set \<Rightarrow> (rstr \<times> rstr) list \<Rightarrow> (rstr \<times> rstr \<times> rstr) list \<Rightarrow> bool" where
  "imports_answered env opts known new sources \<longleftrightarrow>
     (\<forall>source \<in> set sources. \<forall>path \<in> imported_files env opts source.
        file_key env path \<in> known \<union> set (keys_of env new)
        \<or> (\<exists>other. read_text env other = None \<and> file_key env other = file_key env path))"

definition sources_of :: "(rstr \<times> rstr) list \<Rightarrow> (rstr \<times> rstr \<times> rstr) list" where
  "sources_of files = map (\<lambda>(path, code). (path, path, code)) files"

definition expansion_facts :: "graph_env \<Rightarrow> graph_options \<Rightarrow> loader_state \<Rightarrow> loader_state \<Rightarrow> (rstr \<times> rstr) list \<Rightarrow> bool" where
  "expansion_facts env opts st0 st new \<longleftrightarrow>
     graph_sources st = graph_sources st0 @ sources_of new \<and> input_files st = input_files st0 @ new
     \<and> next_source_index st0 \<le> next_source_index st
     \<and> loaded_from env opts st0 new
     \<and> known_files st0 \<union> set (keys_of env new) \<subseteq> known_files st
     \<and> (\<forall>key \<in> known_files st. key \<in> known_files st0 \<union> set (keys_of env new)
          \<or> (\<exists>other. read_text env other = None \<and> file_key env other = key))
     \<and> (\<forall>source \<in> set (drop (next_source_index st0) (take (next_source_index st) (graph_sources st))).
          file_key env ` imported_files env opts source \<subseteq> known_files st)"

definition expansion_invariant :: "graph_env \<Rightarrow> graph_options \<Rightarrow> loader_state \<Rightarrow> loader_state \<Rightarrow> nat \<Rightarrow> bool" where
  "expansion_invariant env opts st0 st added \<longleftrightarrow> (\<exists>new. expansion_facts env opts st0 st new \<and> added = length new)"

lemma expansion_factsD:
  assumes "expansion_facts env opts st0 st new"
  shows "graph_sources st = graph_sources st0 @ sources_of new" "input_files st = input_files st0 @ new"
    "next_source_index st0 \<le> next_source_index st" "loaded_from env opts st0 new"
    "known_files st0 \<union> set (keys_of env new) \<subseteq> known_files st"
    "\<forall>key \<in> known_files st. key \<in> known_files st0 \<union> set (keys_of env new)
          \<or> (\<exists>other. read_text env other = None \<and> file_key env other = key)"
    "\<forall>source \<in> set (drop (next_source_index st0) (take (next_source_index st) (graph_sources st))).
          file_key env ` imported_files env opts source \<subseteq> known_files st"
  by (insert assms, unfold expansion_facts_def) (elim conjE, assumption)+

lemma in_loaded_serially: "(path, code) \<in> set (loaded_files (read_serially env d)) \<longleftrightarrow> path \<in> set d \<and> read_text env path = Some code"
proof (induction d)
  case (Cons first d)
  then show ?case by (cases "read_text env first") auto
qed simp

lemma keys_of_append [simp]: "keys_of env (files @ files') = keys_of env files @ keys_of env files'"
  by (simp add: keys_of_def)

lemma sources_of_append [simp]: "sources_of (files @ files') = sources_of files @ sources_of files'"
  by (simp add: sources_of_def)

lemma keys_of_loaded: "keys_of env (loaded_files (read_serially env d)) = map (file_key env) (filter (\<lambda>path. read_text env path \<noteq> None) d)"
proof -
  have "keys_of env files = map (file_key env) (map fst files)" for files
    by (simp add: keys_of_def case_prod_beta)
  then show ?thesis by (simp only: loaded_serially)
qed

lemma expansion_sources:
  assumes "loaded_from env opts st0 new" "source \<in> set (drop i (graph_sources st0 @ sources_of new))" "next_source_index st0 \<le> i"
  shows "reached env opts (set (drop (next_source_index st0) (graph_sources st0))) source"
proof -
  have "source \<in> set (drop i (graph_sources st0)) \<union> set (sources_of new)"
    using assms(2) by (auto dest: in_set_dropD)
  then consider "source \<in> set (drop (next_source_index st0) (graph_sources st0))" | path code where "source = (path, path, code)" "(path, code) \<in> set new"
    using set_drop_subset_set_drop[OF assms(3)] by (fastforce simp: sources_of_def)
  then show ?thesis by cases (use assms(1) in \<open>auto simp: loaded_from_def intro: reached_start\<close>)
qed

lemma expansion_step:
  assumes before: "expansion_invariant env opts st0 st added" and ok: "loader_ok env st" and scanned: "wave_scanned env opts st st1 d"
  shows "expansion_invariant env opts st0 (append_sources (read_serially env d) st1) (added + loaded_count (read_serially env d))"
proof -
  obtain new where facts: "expansion_facts env opts st0 st new" "added = length new"
    using before unfolding expansion_invariant_def by blast
  note new = expansion_factsD(1,2)[OF facts(1)] facts(2) expansion_factsD(3,4,5)[OF facts(1)]
  note known = expansion_factsD(6)[OF facts(1), THEN bspec] and closed = expansion_factsD(7)[OF facts(1), THEN bspec]
  define lf where "lf = loaded_files (read_serially env d)"
  note g = scanned[unfolded wave_scanned_def, THEN conjunct1]
  have st1: "next_source_index st1 = length (graph_sources st)" "graph_sources st1 = graph_sources st" "input_files st1 = input_files st"
    using scanned by (simp_all add: wave_scanned_def)
  have keys: "set (keys_of env lf) = file_key env ` {path \<in> set d. read_text env path \<noteq> None}" "distinct (keys_of env lf)"
    using grewD(4)[OF g] by (auto simp: lf_def keys_of_loaded distinct_map intro: inj_on_subset)
  have fresh: "set (keys_of env lf) \<inter> known_files st = {}" using grewD(5)[OF g] keys(1) by blast
  have grown: "known_files st1 = known_files st \<union> file_key env ` set d" by (rule grewD(3)[OF g])
  have "reached env opts (set (drop (next_source_index st0) (graph_sources st0))) (path, path, code) \<and> read_text env path = Some code"
    if "(path, code) \<in> set lf" for path code
  proof -
    have p: "path \<in> set d" "read_text env path = Some code" using that by (simp_all add: lf_def in_loaded_serially)
    then obtain source where "source \<in> set (drop (next_source_index st) (graph_sources st))" "path \<in> imported_files env opts source"
      using grewD(2)[OF g] by blast
    with expansion_sources[OF new(5) _ new(4), of source] p show ?thesis
      by (auto simp: new(1) intro: reached_import)
  qed
  then have "loaded_from env opts st0 (new @ lf)"
    using new(5,6) keys(2) fresh by (auto simp: loaded_from_def)
  moreover have "known_files st0 \<union> set (keys_of env (new @ lf)) \<subseteq> known_files st1"
    using new(6) keys(1) grown by auto
  moreover have "key \<in> known_files st0 \<union> set (keys_of env (new @ lf)) \<or> (\<exists>other. read_text env other = None \<and> file_key env other = key)"
    if later: "key \<in> known_files st1" for key
  proof (cases "key \<in> known_files st")
    case False
    then obtain path where path: "path \<in> set d" "key = file_key env path" using later unfolding grown by blast
    show ?thesis
    proof (cases "read_text env path")
      case None
      then show ?thesis using path(2) by blast
    next
      case Some
      then have "key \<in> set (keys_of env lf)" unfolding keys(1) using path by blast
      then show ?thesis by simp
    qed
  next
    case True
    from known[OF this] show ?thesis unfolding keys_of_append set_append by blast
  qed
  moreover have "file_key env ` imported_files env opts source \<subseteq> known_files st1"
    if "source \<in> set (drop (next_source_index st0) (graph_sources st))" for source
  proof -
    have "set (drop (next_source_index st0) (graph_sources st))
        \<subseteq> set (drop (next_source_index st0) (take (next_source_index st) (graph_sources st))) \<union> set (drop (next_source_index st) (graph_sources st))"
      using new(4) by (metis append_take_drop_id drop_append in_set_dropD set_append subsetI Un_iff)
    then show ?thesis using that closed[of source] grewD(6)[OF g] grown by blast
  qed
  ultimately show ?thesis
    unfolding expansion_invariant_def expansion_facts_def append_sources_extended lf_def[symmetric] loaded_count_files
    using new(1-4) st1 ok by (intro exI[of _ "new @ lf"]) (auto simp: sources_of_def loader_ok_def)
qed

lemma expansion_start: "loader_ok env st \<Longrightarrow> expansion_invariant env opts st st 0"
  unfolding expansion_invariant_def expansion_facts_def
  by (intro exI[of _ "[]"]) (simp add: sources_of_def keys_of_def loaded_from_def)

lemma expand_waves_closed:
  assumes "expand_waves env opts st 0 = Some (Some (st', added))" "counters_shared env" "loader_ok env st"
  shows "expansion_invariant env opts st st' added \<and> loader_ok env st' \<and> next_source_index st' = length (graph_sources st')"
  using assms(1,2,3) expansion_start[OF assms(3)]
  by (rule expand_waves_invariant) (rule expansion_step)

text \<open>
  C40. After an expansion the sources and inputs are the old ones followed by the loaded files. Each loaded
  file was read from disk, is reached from the unscanned sources by imports resolved without any memo,
  was not known before and is there once. Conversely each file that a scanned source imports was known, is
  loaded, or cannot be read. All sources are scanned, and the state can be expanded again.
\<close>

theorem import_graph_closed:
  assumes "counters_shared env" "loader_ok env st" "sync_known_files env st = Some st1"
    and "expand_project_inputs env opts st = Some (Some (st', added))"
  shows "\<exists>new. graph_sources st' = graph_sources st @ sources_of new \<and> input_files st' = input_files st @ new
    \<and> added = length new \<and> loaded_from env opts st1 new
    \<and> imports_answered env opts (known_files st1) new (drop (next_source_index st) (graph_sources st'))
    \<and> next_source_index st' = length (graph_sources st') \<and> synced_inputs st' = length (input_files st') \<and> loader_ok env st'"
proof -
  obtain st2 where waves: "expand_waves env opts st1 0 = Some (Some (st2, added))" and st': "st' = mark_synced st2"
    using assms(3,4) by (auto simp: expand_project_inputs_def)
  note sync = sync_keeps[OF assms(3)]
  note closed = expand_waves_closed[OF waves assms(1)] 
  have ok: "loader_ok env st1" using sync(1) assms(2) by simp
  from closed[OF ok] obtain new where facts: "expansion_facts env opts st1 st2 new" "added = length new"
    unfolding expansion_invariant_def by blast
  note new = expansion_factsD(1,2)[OF facts(1)] facts(2) expansion_factsD(4)[OF facts(1)]
  note known = expansion_factsD(6)[OF facts(1), THEN bspec] and answered = expansion_factsD(7)[OF facts(1), THEN bspec]
  have "imports_answered env opts (known_files st1) new (drop (next_source_index st1) (graph_sources st2))"
    unfolding imports_answered_def
  proof (intro ballI)
    fix source path
    assume "source \<in> set (drop (next_source_index st1) (graph_sources st2))" "path \<in> imported_files env opts source"
    with answered[of source] closed[OF ok] have "file_key env path \<in> known_files st2" by auto
    from known[OF this] show "file_key env path \<in> known_files st1 \<union> set (keys_of env new)
        \<or> (\<exists>other. read_text env other = None \<and> file_key env other = file_key env path)" .
  qed
  then show ?thesis
    using new closed[OF ok] sync(2,3,4)
    by (intro exI[of _ new]) (simp add: st' mark_synced_def loader_ok_def slots_sound_def)
qed

theorem import_graph_closed_witness:
  "\<exists>st' new. expand_project_inputs demo_graph_env demo_graph_options demo_loader = Some (Some (st', 1))
     \<and> map fst (graph_sources st') = [''/p/a.ts'', ''/p/b.ts''] \<and> length new = 1
     \<and> imports_answered demo_graph_env demo_graph_options {''/p/a.ts''} new (graph_sources st')"
proof -
  obtain st' where run: "expand_project_inputs demo_graph_env demo_graph_options demo_loader = Some (Some (st', 1))"
    "map fst (graph_sources st') = [''/p/a.ts'', ''/p/b.ts'']"
    using demo_graph_run by auto
  from import_graph_closed[OF demo_graph_ok(1,3) demo_sync run(1)] obtain new where "length new = 1"
    "imports_answered demo_graph_env demo_graph_options {''/p/a.ts''} new (graph_sources st')"
    by (auto simp: demo_loader_def)
  with run show ?thesis by (intro exI[of _ st'] exI[of _ new] conjI)
qed

section \<open>The loader and the checker disagree at the root\<close>

text \<open>
  A file in the root directory that imports \<open>./b\<close>: the loader resolves the specifier to \<open>/b.ts\<close> and loads
  it, and the checker, which reads the importer as a module without a directory, does not find it.
\<close>

definition root_graph_env :: graph_env where
  "root_graph_env = demo_graph_env\<lparr>is_probed_file := (\<lambda>path. path = ''/a.ts'' \<or> path = ''/b.ts'')\<rparr>"

definition root_resolver_env :: resolver_env where
  "root_resolver_env =
     \<lparr>node_esm_files = None, allow_arbitrary_extensions = False,
      env_realpath = (\<lambda>path. if is_absolute_path path then Some path else None),
      program_files = [''/a.ts'', ''/b.ts''], file_index_by_identity = [''/a.ts'' \<mapsto> 0, ''/b.ts'' \<mapsto> 1]\<rparr>"

theorem root_import_loaded_not_resolved:
  "graph_target root_graph_env demo_graph_options ''/a.ts'' ''./b'' = Some (Some ''/b.ts'')"
  "map_option fst (resolve_relative_module root_resolver_env ''/a.ts'' ''./b'' Map.empty) = Some None"
  by code_simp+

end
